(* ===== verification/Prelude.thy ===== *)
theory Prelude
  imports Main "HOL-Library.Word" "HOL-Library.Monad_Syntax"
begin

text \<open>
  What the components of the development share: the machine types of the C code on x86-64, byte
  arrays with checked access, the little-endian view of a machine word, and the lemmas about them
  that the component theories use.

  A C object that is an array of bytes is a \<open>byte list\<close>.  A read or a write outside the object is
  undefined in C; here it is the value \<open>None\<close>, so that a definition that could leave its object
  says so in its type.
\<close>

unbundle bit_operations_syntax

named_theorems bytes_simps \<open>windows and splices of byte arrays\<close>

section \<open>Machine types\<close>

type_synonym byte = "8 word"
type_synonym long = "64 word"
type_synonym addr = "64 word"

text \<open>Signed comparison of two 64-bit integers is comparison of their \<open>sint\<close>.\<close>

abbreviation slt :: "long \<Rightarrow> long \<Rightarrow> bool" where
  "slt a b \<equiv> sint a < sint b"

text \<open>The sum of two ints; a signed overflow is undefined, and there is then no result.\<close>

definition int_add :: "int \<Rightarrow> int \<Rightarrow> int option" where
  "int_add a b = (if - (2 ^ 31) \<le> a + b \<and> a + b < 2 ^ 31 then Some (a + b) else None)"

section \<open>Checked access to byte arrays\<close>

definition rd :: "'a list \<Rightarrow> int \<Rightarrow> 'a option" where
  "rd xs i = (if 0 \<le> i \<and> i < int (length xs) then Some (xs ! nat i) else None)"

definition wr :: "'a list \<Rightarrow> int \<Rightarrow> 'a \<Rightarrow> 'a list option" where
  "wr xs i x = (if 0 \<le> i \<and> i < int (length xs) then Some (xs[nat i := x]) else None)"

text \<open>\<open>memcpy(xs + k, ys, n)\<close> for a range that lies inside \<open>xs\<close>, and the bytes at \<open>k\<close>.\<close>

definition splice :: "'a list \<Rightarrow> nat \<Rightarrow> 'a list \<Rightarrow> 'a list" where
  "splice xs k ys = take k xs @ ys @ drop (k + length ys) xs"

definition window :: "'a list \<Rightarrow> nat \<Rightarrow> nat \<Rightarrow> 'a list" where
  "window xs k n = take n (drop k xs)"

lemma length_splice [bytes_simps, simp]:
  "k + length ys \<le> length xs \<Longrightarrow> length (splice xs k ys) = length xs"
  by (simp add: splice_def)

lemma length_window [bytes_simps, simp]:
  "k + n \<le> length xs \<Longrightarrow> length (window xs k n) = n"
  by (simp add: window_def)

lemma window_splice_same [bytes_simps]:
  "k + length ys \<le> length xs \<Longrightarrow> window (splice xs k ys) k (length ys) = ys"
  by (simp add: window_def splice_def)

lemma window_splice_other [bytes_simps]:
  assumes "k + length ys \<le> length xs" and "j + n \<le> k \<or> k + length ys \<le> j"
  shows "window (splice xs k ys) j n = window xs j n"
proof (cases "j + n \<le> k")
  case True
  then have "take n (drop j (take k xs)) = take n (drop j xs)"
    by (simp add: drop_take)
  moreover have "take n (drop j (splice xs k ys)) = take n (drop j (take k xs))"
    using True assms(1) by (simp add: splice_def)
  ultimately show ?thesis by (simp add: window_def)
next
  case False
  then have j: "k + length ys \<le> j" using assms(2) by simp
  then have "drop j (splice xs k ys) = drop j xs"
    using assms(1) by (simp add: splice_def)
  then show ?thesis by (simp add: window_def)
qed

lemma splice_Nil [simp]: "splice xs k [] = xs"
  by (simp add: splice_def)

lemma nth_splice_other:
  assumes "k + length ys \<le> length xs" and "i < k \<or> k + length ys \<le> i" and "i < length xs"
  shows "splice xs k ys ! i = xs ! i"
  using assms by (auto simp: splice_def nth_append)

lemma splice_step:
  assumes "k < length xs"
  shows "splice (xs[k := y]) (Suc k) ys = splice xs k (y # ys)"
proof -
  have "take (Suc k) (xs[k := y]) = take k xs @ [y]"
    using assms by (simp add: upd_conv_take_nth_drop)
  then show ?thesis by (simp add: splice_def drop_update_cancel)
qed

section \<open>Little-endian words\<close>

primrec le_bytes :: "nat \<Rightarrow> 'a::len word \<Rightarrow> byte list" where
  "le_bytes 0 w = []"
| "le_bytes (Suc n) w = ucast w # le_bytes n (drop_bit 8 w)"

primrec le_word :: "byte list \<Rightarrow> 'a::len word" where
  "le_word [] = 0"
| "le_word (b # bs) = ucast b OR push_bit 8 (le_word bs)"

lemma length_le_bytes [simp]: "length (le_bytes n w) = n"
  by (induction n arbitrary: w) auto

lemma le_word_le_bytes: "le_word (le_bytes n w) = take_bit (8 * n) w"
proof (induction n arbitrary: w)
  case 0
  show ?case by simp
next
  case (Suc n)
  show ?case
  proof (rule bit_word_eqI)
    fix i assume "i < LENGTH('a)"
    then show "bit (le_word (le_bytes (Suc n) w) :: 'a word) i = bit (take_bit (8 * Suc n) w) i"
      by (auto simp: Suc bit_simps)
  qed
qed

lemma le_bytes_le_word:
  "8 * length bs \<le> LENGTH('a) \<Longrightarrow> le_bytes (length bs) (le_word bs :: 'a::len word) = bs"
proof (induction bs)
  case Nil
  show ?case by simp
next
  case (Cons b bs)
  have b: "ucast (ucast b OR push_bit 8 (le_word bs) :: 'a word) = b"
    using Cons.prems by (intro bit_word_eqI) (auto simp: bit_simps)
  have "le_bytes (length bs) (drop_bit 8 (ucast b OR push_bit 8 (le_word bs)) :: 'a word)
      = le_bytes (length bs) (take_bit (LENGTH('a) - 8) (le_word bs) :: 'a word)"
    by (rule arg_cong [of _ _ "le_bytes _"], rule bit_word_eqI)
      (auto simp: bit_simps dest: bit_imp_le_length)
  also have "\<dots> = le_bytes (length bs) (le_word bs :: 'a word)"
  proof -
    have "le_bytes n (take_bit m w) = le_bytes n w" if "8 * n \<le> m" for n m and w :: "'a word"
      using that
    proof (induction n arbitrary: w m)
      case (Suc n)
      have "ucast (take_bit m w) = (ucast w :: byte)"
        using Suc.prems by (intro bit_word_eqI) (auto simp: bit_simps)
      moreover have "drop_bit 8 (take_bit m w) = take_bit (m - 8) (drop_bit 8 w)"
        by (simp add: drop_bit_take_bit)
      ultimately show ?case using Suc by simp
    qed simp
    then show ?thesis using Cons.prems by simp
  qed
  finally show ?case using Cons b by simp
qed

lemma le_word_le_bytes_long [simp]: "le_word (le_bytes 8 w) = (w :: long)"
proof -
  have "take_bit 64 w = w" by (rule bit_word_eqI) (simp add: bit_simps)
  then show ?thesis by (simp add: le_word_le_bytes)
qed

lemma le_word_le_bytes_word32 [simp]: "le_word (le_bytes 4 w) = (w :: 32 word)"
proof -
  have "take_bit 32 w = w" by (rule bit_word_eqI) (simp add: bit_simps)
  then show ?thesis by (simp add: le_word_le_bytes)
qed

section \<open>Small facts about bytes, nibbles and signed values\<close>

lemma sint_long_bounds: "- (2 ^ 63) \<le> sint (w :: long)" "sint (w :: long) < 2 ^ 63"
  using sint_ge [of w] sint_lt [of w] by simp_all

lemma sint_word_of_int_long [simp]:
  "- (2 ^ 63) \<le> y \<Longrightarrow> y < 2 ^ 63 \<Longrightarrow> sint (word_of_int y :: long) = y"
  by (simp add: sint_sbintrunc' signed_take_bit_int_eq_self)

lemma sint_add_long:
  "- (2 ^ 63) \<le> sint a + sint b \<Longrightarrow> sint a + sint b < 2 ^ 63 \<Longrightarrow>
     sint (a + b :: long) = sint a + sint b"
  by (simp add: sint_word_ariths signed_take_bit_int_eq_self)

lemma sint_diff_long:
  "- (2 ^ 63) \<le> sint a - sint b \<Longrightarrow> sint a - sint b < 2 ^ 63 \<Longrightarrow>
     sint (a - b :: long) = sint a - sint b"
  by (simp add: sint_word_ariths signed_take_bit_int_eq_self)

end
