(* ===== verification/Y64Mem.thy ===== *)
theory Y64Mem
  imports Prelude
begin

text \<open>
  The memory and the register file of the Y64 simulator (\<open>lab4/y64sim.h\<close>, \<open>lab4/y64sim.c\<close>):
  \<open>mem_t\<close>, the checked accessors for bytes and 8-byte integers, and the register accessors, which
  store the fifteen registers as 8-byte integers of another \<open>mem_t\<close>.

  The C accessors return \<open>FALSE\<close> for an address they refuse.  Their bound test
  \<open>addr + 8 > m->len\<close> is 64-bit signed arithmetic, which wraps on the machine; for the eight
  addresses below \<open>2^63\<close> it lets the access through and the loop leaves the array.  So an access
  has three results: refused (\<open>Rej\<close>), done (\<open>Acc\<close>), or outside the object (\<open>Oob\<close>).
\<close>

section \<open>Data\<close>

datatype 'a acc = Oob | Rej | Acc 'a

record mem_t =
  len :: int
  data :: "byte list"

definition BLK_SIZE :: int where "BLK_SIZE = 32"
definition MEM_SIZE :: int where "MEM_SIZE = 2 ^ 13"
definition REG_SIZE :: int where "REG_SIZE = 15 * 8"

definition mem_ok :: "mem_t \<Rightarrow> bool" where
  "mem_ok m \<longleftrightarrow> len m = int (length (data m)) \<and> len m < 2 ^ 31"

section \<open>Accessors\<close>

definition get_byte_val :: "mem_t \<Rightarrow> long \<Rightarrow> byte acc" where
  "get_byte_val m addr =
     (if sint addr < 0 \<or> sint addr \<ge> len m then Rej
      else case rd (data m) (sint addr) of None \<Rightarrow> Oob | Some b \<Rightarrow> Acc b)"

text \<open>The loops over \<open>i\<close>; the last argument but one counts the iterations left.\<close>

fun get_long_loop :: "byte list \<Rightarrow> int \<Rightarrow> nat \<Rightarrow> nat \<Rightarrow> long \<Rightarrow> long option" where
  "get_long_loop d addr i 0 val = Some val"
| "get_long_loop d addr i (Suc n) val =
     (case rd d (addr + int i) of
        None \<Rightarrow> None
      | Some b \<Rightarrow> get_long_loop d addr (Suc i) n (val OR push_bit (8 * i) (ucast b)))"

definition get_long_val :: "mem_t \<Rightarrow> long \<Rightarrow> long acc" where
  "get_long_val m addr =
     (if sint addr < 0 \<or> sint (addr + 8) > len m then Rej
      else case get_long_loop (data m) (sint addr) 0 8 0 of None \<Rightarrow> Oob | Some v \<Rightarrow> Acc v)"

definition set_byte_val :: "mem_t \<Rightarrow> long \<Rightarrow> byte \<Rightarrow> mem_t acc" where
  "set_byte_val m addr val =
     (if sint addr < 0 \<or> sint addr \<ge> len m then Rej
      else case wr (data m) (sint addr) val of None \<Rightarrow> Oob | Some d \<Rightarrow> Acc (m\<lparr>data := d\<rparr>))"

fun set_long_loop :: "byte list \<Rightarrow> int \<Rightarrow> nat \<Rightarrow> nat \<Rightarrow> long \<Rightarrow> byte list option" where
  "set_long_loop d addr i 0 val = Some d"
| "set_long_loop d addr i (Suc n) val =
     (case wr d (addr + int i) (ucast (val AND 0xFF)) of
        None \<Rightarrow> None
      | Some d' \<Rightarrow> set_long_loop d' addr (Suc i) n (signed_drop_bit 8 val))"

definition set_long_val :: "mem_t \<Rightarrow> long \<Rightarrow> long \<Rightarrow> mem_t acc" where
  "set_long_val m addr val =
     (if sint addr < 0 \<or> sint (addr + 8) > len m then Rej
      else case set_long_loop (data m) (sint addr) 0 8 val of
             None \<Rightarrow> Oob | Some d \<Rightarrow> Acc (m\<lparr>data := d\<rparr>))"

section \<open>Creating, copying and comparing memories\<close>

definition init_mem :: "int \<Rightarrow> mem_t" where
  "init_mem l = (let l' = ((l + BLK_SIZE - 1) div BLK_SIZE) * BLK_SIZE
                 in \<lparr>len = l', data = replicate (nat l') 0\<rparr>)"

definition dup_mem :: "mem_t \<Rightarrow> mem_t" where
  "dup_mem oldm = (init_mem (len oldm))
     \<lparr>data := splice (data (init_mem (len oldm))) 0 (take (nat (len oldm)) (data oldm))\<rparr>"

text \<open>
  \<open>diff_mem\<close>: the lines printed (position, old and new value) and the result.  \<open>outfile\<close> tells
  whether there is a stream to print to; without one the loop stops at the first difference.
  A position whose long is refused leaves \<open>ov\<close> or \<open>nv\<close> at 0.
\<close>

definition long_or_0 :: "mem_t \<Rightarrow> long \<Rightarrow> long option" where
  "long_or_0 m pos = (case get_long_val m pos of Oob \<Rightarrow> None | Rej \<Rightarrow> Some 0 | Acc v \<Rightarrow> Some v)"

fun diff_loop :: "mem_t \<Rightarrow> mem_t \<Rightarrow> bool \<Rightarrow> nat \<Rightarrow> int \<Rightarrow> int \<Rightarrow> bool
    \<Rightarrow> (bool \<times> (int \<times> long \<times> long) list) option" where
  "diff_loop oldm newm outfile 0 pos l diff = Some (diff, [])"
| "diff_loop oldm newm outfile (Suc n) pos l diff =
     (if (\<not> diff \<or> outfile) \<and> pos < l then
        do {
          ov \<leftarrow> long_or_0 oldm (word_of_int pos);
          nv \<leftarrow> long_or_0 newm (word_of_int pos);
          (d, out) \<leftarrow> diff_loop oldm newm outfile n (pos + 8) l (diff \<or> nv \<noteq> ov);
          Some (d, (if nv \<noteq> ov \<and> outfile then [(pos, ov, nv)] else []) @ out)
        }
      else Some (diff, []))"

definition diff_mem :: "mem_t \<Rightarrow> mem_t \<Rightarrow> bool \<Rightarrow> (bool \<times> (int \<times> long \<times> long) list) option" where
  "diff_mem oldm newm outfile =
     (let l = (if len newm < len oldm then len newm else len oldm)
      in diff_loop oldm newm outfile (nat l) 0 l False)"

section \<open>Registers\<close>

text \<open>
  \<open>regid_t\<close> is an enumeration whose values the code computes with (\<open>id*8\<close>), so it is its integer
  value here, with the enumerators as constants.
\<close>

type_synonym regid_t = int

definition REG_RAX :: regid_t where "REG_RAX = 0"
definition REG_RSP :: regid_t where "REG_RSP = 4"
definition REG_R14 :: regid_t where "REG_R14 = 14"
definition REG_NONE :: regid_t where "REG_NONE = 15"

definition reg_table :: "(string \<times> regid_t) list" where
  "reg_table =
     [(''%rax'', 0), (''%rcx'', 1), (''%rdx'', 2), (''%rbx'', 3), (''%rsp'', 4), (''%rbp'', 5),
      (''%rsi'', 6), (''%rdi'', 7), (''%r8'', 8), (''%r9'', 9), (''%r10'', 10), (''%r11'', 11),
      (''%r12'', 12), (''%r13'', 13), (''%r14'', 14)]"

definition get_reg_val :: "mem_t \<Rightarrow> regid_t \<Rightarrow> long option" where
  "get_reg_val r rid =
     (if rid \<ge> REG_NONE then Some 0
      else long_or_0 r (word_of_int (rid * 8)))"

definition set_reg_val :: "mem_t \<Rightarrow> regid_t \<Rightarrow> long \<Rightarrow> mem_t option" where
  "set_reg_val r rid val =
     (if rid < REG_NONE then
        (case set_long_val r (word_of_int (rid * 8)) val of
           Oob \<Rightarrow> None | Rej \<Rightarrow> Some r | Acc r' \<Rightarrow> Some r')
      else Some r)"

definition init_reg :: mem_t where
  "init_reg = init_mem REG_SIZE"

definition dup_reg :: "mem_t \<Rightarrow> mem_t" where
  "dup_reg oldr = dup_mem oldr"

text \<open>\<open>diff_reg\<close> prints the name of the register \<open>reg_table[pos/8]\<close> in place of the position.\<close>

definition diff_reg :: "mem_t \<Rightarrow> mem_t \<Rightarrow> bool \<Rightarrow> (bool \<times> (string \<times> long \<times> long) list) option" where
  "diff_reg oldr newr outfile =
     (let l = (if len newr < len oldr then len newr else len oldr)
      in do {
        (d, out) \<leftarrow> diff_loop oldr newr outfile (nat l) 0 l False;
        out' \<leftarrow> those (map (\<lambda>(pos, ov, nv).
                   map_option (\<lambda>(name, _). (name, ov, nv)) (rd reg_table (pos div 8))) out);
        Some (d, out')
      })"


section \<open>What the accessors do\<close>

text \<open>
  For a well-formed memory an address is in range, refused, or in the hole of the eight addresses
  whose bound test wraps.
\<close>

definition in_range :: "mem_t \<Rightarrow> long \<Rightarrow> bool" where
  "in_range m a \<longleftrightarrow> 0 \<le> sint a \<and> sint a + 8 \<le> len m"

definition wraps :: "long \<Rightarrow> bool" where
  "wraps a \<longleftrightarrow> 2 ^ 63 - 8 \<le> sint a"

lemma in_range_not_wraps: "mem_ok m \<Longrightarrow> in_range m a \<Longrightarrow> \<not> wraps a"
  by (auto simp: in_range_def wraps_def mem_ok_def)

lemma sint_add_8: "\<not> wraps a \<Longrightarrow> sint (a + 8) = sint a + 8"
  using sint_long_bounds [of a] by (simp add: wraps_def sint_add_long)

lemma sint_add_8_wraps:
  assumes "wraps a" shows "sint (a + 8) < 0"
proof -
  have "a + 8 = word_of_int (sint a + 8 - 2 ^ 64)"
    by simp
  then show ?thesis
    using assms sint_long_bounds [of a] by (simp add: wraps_def del: of_int_add of_int_diff)
qed

lemma window_Suc: "k < length d \<Longrightarrow> window d k (Suc n) = d ! k # window d (Suc k) n"
  by (simp add: window_def Cons_nth_drop_Suc [symmetric])

lemma get_long_loop_in:
  "k + i + n \<le> length d \<Longrightarrow>
     get_long_loop d (int k) i n val = Some (val OR push_bit (8 * i) (le_word (window d (k + i) n)))"
proof (induction n arbitrary: i val)
  case 0
  then show ?case by (simp add: window_def)
next
  case (Suc n)
  then have r: "rd d (int k + int i) = Some (d ! (k + i))"
    by (simp add: rd_def nat_add_distrib)
  have w: "window d (k + i) (Suc n) = d ! (k + i) # window d (k + Suc i) n"
    using Suc.prems by (simp add: window_Suc)
  show ?case
    using Suc by (simp add: r w push_bit_or or.assoc push_bit_push_bit add.commute [of 8])
qed

lemma get_long_loop_out:
  "int (length d) \<le> a \<Longrightarrow> get_long_loop d a 0 8 v = None"
  by (simp add: rd_def eval_nat_numeral)

lemma signed_drop_bit_8_bit: "j < 56 \<Longrightarrow> bit (signed_drop_bit 8 v) j = bit (v :: long) (j + 8)"
  by (simp add: bit_simps add.commute)

lemma set_long_loop_in:
  fixes v w :: long
  assumes "k + i + n \<le> length d" and "n \<le> 8" and "\<And>j. j < 8 * n \<Longrightarrow> bit v j = bit w j"
  shows "set_long_loop d (int k) i n v = Some (splice d (k + i) (le_bytes n w))"
  using assms
proof (induction n arbitrary: d i v w)
  case 0
  then show ?case by simp
next
  case (Suc n)
  have b: "ucast (v AND 0xFF) = (ucast w :: byte)"
  proof (rule bit_word_eqI)
    fix j assume "j < LENGTH(8)"
    then have "j < 8" by simp
    moreover from this have "bit (0xFF :: long) j"
      using bit_mask_iff [of 8 j, where 'a = long] by (simp add: mask_numeral)
    ultimately show "bit (ucast (v AND 0xFF) :: byte) j = bit (ucast w :: byte) j"
      using Suc.prems(3) [of j] by (simp add: bit_simps)
  qed
  have wr: "wr d (int k + int i) x = Some (d[k + i := x])" for x
    using Suc.prems(1) by (simp add: wr_def nat_add_distrib)
  have "set_long_loop (d[k + i := ucast w]) (int k) (Suc i) n (signed_drop_bit 8 v)
      = Some (splice (d[k + i := ucast w]) (k + Suc i) (le_bytes n (drop_bit 8 w)))"
  proof (rule Suc.IH)
    fix j assume "j < 8 * n"
    then show "bit (signed_drop_bit 8 v) j = bit (drop_bit 8 w) j"
      using Suc.prems(2) Suc.prems(3) [of "j + 8"]
      by (simp add: signed_drop_bit_8_bit bit_drop_bit_eq add.commute)
  qed (use Suc.prems in auto)
  then show ?case
    using Suc.prems(1) by (simp add: wr b splice_step)
qed

lemma set_long_loop_out:
  "int (length d) \<le> a \<Longrightarrow> set_long_loop d a 0 8 v = None"
  by (simp add: wr_def eval_nat_numeral)

lemma get_long_val_eq:
  assumes "mem_ok m"
  shows "get_long_val m a =
    (if in_range m a then Acc (le_word (window (data m) (nat (sint a)) 8))
     else if wraps a then Oob else Rej)"
proof -
  consider "in_range m a" | "\<not> in_range m a" "wraps a" | "\<not> in_range m a" "\<not> wraps a" by blast
  then show ?thesis
  proof cases
    case 1
    then have "\<not> wraps a" using assms in_range_not_wraps by blast
    then show ?thesis
      using 1 assms get_long_loop_in [of "nat (sint a)" 0 8 "data m" 0]
      by (auto simp: get_long_val_def in_range_def sint_add_8 mem_ok_def)
  next
    case 2
    have "int (length (data m)) \<le> sint a" "0 \<le> len m" "0 \<le> sint a"
      using 2 assms by (auto simp: wraps_def mem_ok_def)
    with 2 show ?thesis
      using sint_add_8_wraps [of a] by (simp add: get_long_val_def get_long_loop_out)
  next
    case 3
    then show ?thesis by (auto simp: get_long_val_def in_range_def sint_add_8)
  qed
qed

lemma set_long_val_eq:
  assumes "mem_ok m"
  shows "set_long_val m a v =
    (if in_range m a then Acc (m\<lparr>data := splice (data m) (nat (sint a)) (le_bytes 8 v)\<rparr>)
     else if wraps a then Oob else Rej)"
proof -
  consider "in_range m a" | "\<not> in_range m a" "wraps a" | "\<not> in_range m a" "\<not> wraps a" by blast
  then show ?thesis
  proof cases
    case 1
    then have "\<not> wraps a" using assms in_range_not_wraps by blast
    then show ?thesis
      using 1 assms set_long_loop_in [of "nat (sint a)" 0 8 "data m" v v]
      by (auto simp: set_long_val_def in_range_def sint_add_8 mem_ok_def)
  next
    case 2
    have "int (length (data m)) \<le> sint a" "0 \<le> len m" "0 \<le> sint a"
      using 2 assms by (auto simp: wraps_def mem_ok_def)
    with 2 show ?thesis
      using sint_add_8_wraps [of a] by (simp add: set_long_val_def set_long_loop_out)
  next
    case 3
    then show ?thesis by (auto simp: set_long_val_def in_range_def sint_add_8)
  qed
qed

lemma get_byte_val_eq:
  "mem_ok m \<Longrightarrow> get_byte_val m a =
     (if 0 \<le> sint a \<and> sint a < len m then Acc (data m ! nat (sint a)) else Rej)"
  by (auto simp: get_byte_val_def rd_def mem_ok_def)

lemma set_byte_val_eq:
  "mem_ok m \<Longrightarrow> set_byte_val m a b =
     (if 0 \<le> sint a \<and> sint a < len m then Acc (m\<lparr>data := (data m)[nat (sint a) := b]\<rparr>) else Rej)"
  by (auto simp: set_byte_val_def wr_def mem_ok_def)


section \<open>Reading back what was written\<close>

lemma set_long_val_ok:
  "mem_ok m \<Longrightarrow> set_long_val m a v = Acc m' \<Longrightarrow> mem_ok m' \<and> len m' = len m"
  by (auto simp: set_long_val_eq in_range_def mem_ok_def split: if_splits)

lemma get_set_long_same:
  assumes "mem_ok m" and "set_long_val m a v = Acc m'"
  shows "get_long_val m' a = Acc v"
proof -
  from assms have a: "in_range m a"
    and m': "m' = m\<lparr>data := splice (data m) (nat (sint a)) (le_bytes 8 v)\<rparr>"
    by (auto simp: set_long_val_eq split: if_splits)
  have "nat (sint a) + length (le_bytes 8 v) \<le> length (data m)"
    using a assms(1) unfolding in_range_def mem_ok_def length_le_bytes by linarith
  from window_splice_same [OF this] have "window (data m') (nat (sint a)) 8 = le_bytes 8 v"
    by (simp add: m')
  moreover have "in_range m' a" using a by (simp add: m' in_range_def)
  moreover have "mem_ok m'" using set_long_val_ok assms by blast
  ultimately show ?thesis by (simp add: get_long_val_eq)
qed

lemma get_set_long_other:
  assumes "mem_ok m" and "set_long_val m a v = Acc m'"
    and "sint b + 8 \<le> sint a \<or> sint a + 8 \<le> sint b"
  shows "get_long_val m' b = get_long_val m b"
proof -
  from assms(1,2) have a: "in_range m a"
    and m': "m' = m\<lparr>data := splice (data m) (nat (sint a)) (le_bytes 8 v)\<rparr>"
    by (auto simp: set_long_val_eq split: if_splits)
  have "window (data m') (nat (sint b)) 8 = window (data m) (nat (sint b)) 8" if "in_range m b"
    using that a assms(1,3) unfolding m' in_range_def mem_ok_def
    by (simp, intro window_splice_other) (auto simp: nat_le_iff)
  moreover have "in_range m' b = in_range m b" by (simp add: m' in_range_def)
  moreover have "mem_ok m'" using set_long_val_ok assms by blast
  ultimately show ?thesis using assms(1) by (simp add: get_long_val_eq)
qed

section \<open>The register file\<close>

definition regs_ok :: "mem_t \<Rightarrow> bool" where
  "regs_ok r \<longleftrightarrow> mem_ok r \<and> len r = 128"

text \<open>The register \<open>i\<close> of a register file, read without the accessors.\<close>

definition reg_at :: "mem_t \<Rightarrow> regid_t \<Rightarrow> long" where
  "reg_at r i = (if 0 \<le> i \<and> i < REG_NONE then le_word (window (data r) (nat (8 * i)) 8) else 0)"

lemma mem_ok_init_mem [simp]: "0 \<le> l \<Longrightarrow> l < 2 ^ 31 - 32 \<Longrightarrow> mem_ok (init_mem l)"
  by (simp add: init_mem_def mem_ok_def Let_def BLK_SIZE_def)

lemma regs_ok_init_reg [simp]: "regs_ok init_reg"
  by (simp add: regs_ok_def init_reg_def REG_SIZE_def)
    (simp add: init_mem_def Let_def BLK_SIZE_def)

lemma reg_range:
  "regs_ok r \<Longrightarrow> 0 \<le> i \<Longrightarrow> i < REG_NONE \<Longrightarrow>
     in_range r (word_of_int (i * 8)) \<and> sint (word_of_int (i * 8) :: long) = 8 * i"
  by (simp add: in_range_def regs_ok_def REG_NONE_def del: of_int_mult)

lemma get_reg_val_eq:
  assumes "regs_ok r" and "0 \<le> i"
  shows "get_reg_val r i = Some (reg_at r i)"
proof (cases "i < REG_NONE")
  case True
  then show ?thesis
    using assms reg_range [of r i]
    by (simp add: get_reg_val_def long_or_0_def get_long_val_eq regs_ok_def reg_at_def del: of_int_mult)
next
  case False
  then show ?thesis by (simp add: get_reg_val_def reg_at_def)
qed

lemma set_reg_val_eq:
  assumes "regs_ok r" and "0 \<le> i" and "i < REG_NONE"
  shows "set_reg_val r i v = Some (r\<lparr>data := splice (data r) (nat (8 * i)) (le_bytes 8 v)\<rparr>)"
  using assms reg_range [of r i] by (simp add: set_reg_val_def set_long_val_eq regs_ok_def del: of_int_mult)

lemma set_reg_val_none: "REG_NONE \<le> i \<Longrightarrow> set_reg_val r i v = Some r"
  by (simp add: set_reg_val_def)

text \<open>A register file with register \<open>i\<close> set, as the operation leaves it.\<close>

definition put_reg :: "mem_t \<Rightarrow> regid_t \<Rightarrow> long \<Rightarrow> mem_t" where
  "put_reg r i v = (if 0 \<le> i \<and> i < REG_NONE
     then r\<lparr>data := splice (data r) (nat (8 * i)) (le_bytes 8 v)\<rparr> else r)"

lemma set_reg_val_put: "regs_ok r \<Longrightarrow> 0 \<le> i \<Longrightarrow> set_reg_val r i v = Some (put_reg r i v)"
  by (cases "i < REG_NONE") (simp_all add: set_reg_val_eq set_reg_val_none put_reg_def)

lemma regs_ok_put_reg [simp]: "regs_ok r \<Longrightarrow> regs_ok (put_reg r i v)"
  by (auto simp: regs_ok_def mem_ok_def put_reg_def REG_NONE_def)

lemma reg_at_put_reg:
  assumes "regs_ok r"
  shows "reg_at (put_reg r i v) j = (if j = i \<and> 0 \<le> i \<and> i < REG_NONE then v else reg_at r j)"
proof (cases "0 \<le> i \<and> i < REG_NONE \<and> 0 \<le> j \<and> j < REG_NONE")
  case True
  have l: "length (data r) = 128" using assms by (simp add: regs_ok_def mem_ok_def)
  show ?thesis
  proof (cases "j = i")
    case True
    then show ?thesis
      using l window_splice_same [of "nat (8 * i)" "le_bytes 8 v" "data r"]
      by (auto simp: reg_at_def put_reg_def REG_NONE_def)
  next
    case False
    have "window (splice (data r) (nat (8 * i)) (le_bytes 8 v)) (nat (8 * j)) 8
        = window (data r) (nat (8 * j)) 8"
      by (rule window_splice_other) (use True False l in \<open>auto simp: REG_NONE_def\<close>)
    then show ?thesis using True False by (simp add: reg_at_def put_reg_def)
  qed
next
  case False
  then show ?thesis by (auto simp: reg_at_def put_reg_def)
qed

end
