(* ===== verification/Y64Isa.thy ===== *)
theory Y64Isa
  imports Y64Mem
begin

text \<open>
  The instruction set as \<open>lab4/y64sim.h\<close> and \<open>lab5/y64asm.h\<close> declare it: instruction, ALU,
  condition and directive codes, and the packing of two nibbles into a byte.  The code computes
  with the numeric values of the enumerators and switches on numbers that need not be enumerators,
  so each enumeration comes with its numbering (\<open>*_code\<close>) and the partial inverse (\<open>*_of\<close>).
\<close>

datatype itype_t = I_HALT | I_NOP | I_RRMOVQ | I_IRMOVQ | I_RMMOVQ | I_MRMOVQ
  | I_ALU | I_JMP | I_CALL | I_RET | I_PUSHQ | I_POPQ | I_DIRECTIVE

datatype alu_t = A_ADD | A_SUB | A_AND | A_XOR | A_NONE

datatype cond_t = C_YES | C_LE | C_L | C_E | C_NE | C_GE | C_G

datatype dtv_t = D_DATA | D_POS | D_ALIGN

fun itype_code :: "itype_t \<Rightarrow> nat" where
  "itype_code I_HALT = 0" | "itype_code I_NOP = 1" | "itype_code I_RRMOVQ = 2"
| "itype_code I_IRMOVQ = 3" | "itype_code I_RMMOVQ = 4" | "itype_code I_MRMOVQ = 5"
| "itype_code I_ALU = 6" | "itype_code I_JMP = 7" | "itype_code I_CALL = 8"
| "itype_code I_RET = 9" | "itype_code I_PUSHQ = 10" | "itype_code I_POPQ = 11"
| "itype_code I_DIRECTIVE = 12"

fun alu_code :: "alu_t \<Rightarrow> nat" where
  "alu_code A_ADD = 0" | "alu_code A_SUB = 1" | "alu_code A_AND = 2" | "alu_code A_XOR = 3"
| "alu_code A_NONE = 4"

fun cond_code :: "cond_t \<Rightarrow> nat" where
  "cond_code C_YES = 0" | "cond_code C_LE = 1" | "cond_code C_L = 2" | "cond_code C_E = 3"
| "cond_code C_NE = 4" | "cond_code C_GE = 5" | "cond_code C_G = 6"

fun dtv_code :: "dtv_t \<Rightarrow> nat" where
  "dtv_code D_DATA = 0" | "dtv_code D_POS = 1" | "dtv_code D_ALIGN = 2"

definition F_NONE :: nat where "F_NONE = 0"

definition itypes :: "itype_t list" where
  "itypes = [I_HALT, I_NOP, I_RRMOVQ, I_IRMOVQ, I_RMMOVQ, I_MRMOVQ, I_ALU, I_JMP, I_CALL, I_RET,
             I_PUSHQ, I_POPQ, I_DIRECTIVE]"

definition alus :: "alu_t list" where
  "alus = [A_ADD, A_SUB, A_AND, A_XOR, A_NONE]"

definition conds :: "cond_t list" where
  "conds = [C_YES, C_LE, C_L, C_E, C_NE, C_GE, C_G]"

text \<open>The conditions are an enumeration of the library, so that a statement on all of them computes.\<close>

instantiation cond_t :: enum
begin

definition enum_cond_t :: "cond_t list" where "enum_cond_t = conds"
definition enum_all_cond_t :: "(cond_t \<Rightarrow> bool) \<Rightarrow> bool" where "enum_all_cond_t P = list_all P conds"
definition enum_ex_cond_t :: "(cond_t \<Rightarrow> bool) \<Rightarrow> bool" where "enum_ex_cond_t P = list_ex P conds"

instance
proof
  have all: "c \<in> set conds" for c by (cases c) (simp_all add: conds_def)
  show "UNIV = set (Enum.enum :: cond_t list)" using all by (auto simp: enum_cond_t_def)
  show "distinct (Enum.enum :: cond_t list)" by (simp add: enum_cond_t_def conds_def)
  show "Enum.enum_all P = Ball UNIV P" for P :: "cond_t \<Rightarrow> bool" using all by (auto simp: enum_all_cond_t_def list_all_iff)
  show "Enum.enum_ex P = Bex UNIV P" for P :: "cond_t \<Rightarrow> bool" using all by (auto simp: enum_ex_cond_t_def list_ex_iff)
qed

end

definition itype_of :: "nat \<Rightarrow> itype_t option" where
  "itype_of n = rd itypes (int n)"

definition alu_of :: "nat \<Rightarrow> alu_t option" where
  "alu_of n = rd alus (int n)"

definition cond_of :: "nat \<Rightarrow> cond_t option" where
  "cond_of n = rd conds (int n)"

lemma itype_of_code [simp]: "itype_of (itype_code t) = Some t"
  by (cases t) (simp_all add: itype_of_def itypes_def rd_def)

lemma alu_of_code [simp]: "alu_of (alu_code t) = Some t"
  by (cases t) (simp_all add: alu_of_def alus_def rd_def)

lemma cond_of_code [simp]: "cond_of (cond_code t) = Some t"
  by (cases t) (simp_all add: cond_of_def conds_def rd_def)

lemma cond_of_None: "cond_of n = None \<longleftrightarrow> cond_code C_G < n"
  by (auto simp: cond_of_def conds_def rd_def)

section \<open>Packing two nibbles\<close>

definition HPACK :: "nat \<Rightarrow> nat \<Rightarrow> byte" where
  "HPACK hi lo = push_bit 4 (of_nat hi AND 0xF) OR (of_nat lo AND 0xF)"

definition HIGH :: "byte \<Rightarrow> nat" where
  "HIGH pack = unat (drop_bit 4 pack AND 0xF)"

definition LOW :: "byte \<Rightarrow> nat" where
  "LOW pack = unat (pack AND 0xF)"

lemma and_nibble: "(w :: byte) AND 0xF = take_bit 4 w"
  unfolding take_bit_eq_mask by (simp add: mask_numeral)

lemma unat_nibble: "n < 16 \<Longrightarrow> unat (take_bit 4 (of_nat n) :: byte) = n"
  unfolding unsigned_take_bit_eq unat_of_nat by (simp add: take_bit_eq_mod)

lemma HIGH_HPACK [simp]: "hi < 16 \<Longrightarrow> HIGH (HPACK hi lo) = hi"
proof -
  assume hi: "hi < 16"
  have "take_bit 4 (drop_bit 4 (HPACK hi lo)) = (take_bit 4 (of_nat hi) :: byte)"
    unfolding HPACK_def and_nibble by (rule bit_word_eqI) (auto simp: bit_simps)
  then show ?thesis using hi by (simp only: HIGH_def and_nibble unat_nibble)
qed

lemma LOW_HPACK [simp]: "lo < 16 \<Longrightarrow> LOW (HPACK hi lo) = lo"
proof -
  assume lo: "lo < 16"
  have "take_bit 4 (HPACK hi lo) = (take_bit 4 (of_nat lo) :: byte)"
    unfolding HPACK_def and_nibble by (rule bit_word_eqI) (auto simp: bit_simps)
  then show ?thesis using lo by (simp only: LOW_def and_nibble unat_nibble)
qed

lemma HIGH_bound [simp]: "HIGH b < 16" and LOW_bound [simp]: "LOW b < 16"
  unfolding HIGH_def LOW_def and_nibble unsigned_take_bit_eq by (simp_all add: take_bit_eq_mod)

section \<open>Instructions as data\<close>

text \<open>
  The instructions the simulator executes, as data, with the code and register bytes that
  \<open>lab4/y64sim.c\<close> documents beside each case of its switch (\<open>3:0 F:regB imm\<close> and so on).
\<close>

datatype instr =
    Halt
  | Nop
  | Rrmovq cond_t regid_t regid_t
  | Irmovq regid_t long
  | Rmmovq regid_t regid_t long
  | Mrmovq regid_t regid_t long
  | Alu alu_t regid_t regid_t
  | Jmp cond_t long
  | Call long
  | Ret
  | Pushq regid_t
  | Popq regid_t

fun encode :: "instr \<Rightarrow> byte list" where
  "encode Halt = [HPACK 0 0]"
| "encode Nop = [HPACK 1 0]"
| "encode (Rrmovq c ra rb) = [HPACK 2 (cond_code c), HPACK (nat ra) (nat rb)]"
| "encode (Irmovq rb v) = [HPACK 3 0, HPACK 15 (nat rb)] @ le_bytes 8 v"
| "encode (Rmmovq ra rb v) = [HPACK 4 0, HPACK (nat ra) (nat rb)] @ le_bytes 8 v"
| "encode (Mrmovq ra rb v) = [HPACK 5 0, HPACK (nat ra) (nat rb)] @ le_bytes 8 v"
| "encode (Alu a ra rb) = [HPACK 6 (alu_code a), HPACK (nat ra) (nat rb)]"
| "encode (Jmp c v) = [HPACK 7 (cond_code c)] @ le_bytes 8 v"
| "encode (Call v) = [HPACK 8 0] @ le_bytes 8 v"
| "encode Ret = [HPACK 9 0]"
| "encode (Pushq ra) = [HPACK 10 0, HPACK (nat ra) 15]"
| "encode (Popq ra) = [HPACK 11 0, HPACK (nat ra) 15]"

end
