(* ===== verification/CStrings.thy ===== *)
theory CStrings
  imports Prelude
begin

text \<open>
  The parts of the C library on strings that the programs use, on C strings without their
  terminator: character classes, \<open>strncmp\<close>, \<open>strchr\<close>, \<open>strtoul\<close>, \<open>atoi\<close>, \<open>fgets\<close>.  A
  \<open>char*\<close> into a string is the rest of the string from there on; the empty list is the
  terminator.
\<close>

definition NUL :: char where "NUL = CHR 0x00"
definition NEWLINE :: char where "NEWLINE = CHR 0x0A"
definition RETURN :: char where "RETURN = CHR 0x0D"
definition TAB :: char where "TAB = CHR 0x09"
definition QUOTE :: char where "QUOTE = CHR 0x27"

definition isspace :: "char \<Rightarrow> bool" where
  "isspace c \<longleftrightarrow> c \<in> {CHR '' '', TAB, NEWLINE, CHR 0x0B, CHR 0x0C, RETURN}"

definition isdigit :: "char \<Rightarrow> bool" where
  "isdigit c \<longleftrightarrow> c \<in> set ''0123456789''"

definition isletter :: "char \<Rightarrow> bool" where
  "isletter c \<longleftrightarrow> c \<in> set ''abcdefghijklmnopqrstuvwxyzABCDEFGHIJKLMNOPQRSTUVWXYZ''"

definition cstr :: "string \<Rightarrow> string" where
  "cstr s = takeWhile (\<lambda>c. c \<noteq> NUL) s"

definition strncmp_eq :: "string \<Rightarrow> string \<Rightarrow> nat \<Rightarrow> bool" where
  "strncmp_eq a b n \<longleftrightarrow> take n a = take n b"

text \<open>\<open>strchr\<close>: the rest of the string from the first occurrence on.\<close>

fun strchr :: "string \<Rightarrow> char \<Rightarrow> string option" where
  "strchr [] c = None"
| "strchr (x # xs) c = (if x = c then Some (x # xs) else strchr xs c)"

lemma strchr_past: "c \<notin> set u \<Longrightarrow> strchr (u @ c # v) c = Some (c # v)"
  by (induction u) auto

text \<open>The first word, as \<open>sscanf("%s")\<close> reads it; the empty word when there is none.\<close>

definition scan_word :: "string \<Rightarrow> string" where
  "scan_word s = takeWhile (\<lambda>c. \<not> isspace c) (dropWhile isspace s)"

section \<open>Numbers\<close>

definition digit_chars :: string where
  "digit_chars = ''0123456789abcdefghijklmnopqrstuvwxyz''"

definition to_lower :: "char \<Rightarrow> char" where
  "to_lower c = (case map_of (zip ''ABCDEFGHIJKLMNOPQRSTUVWXYZ'' ''abcdefghijklmnopqrstuvwxyz'') c of
                   Some l \<Rightarrow> l | None \<Rightarrow> c)"

definition digit_val :: "nat \<Rightarrow> char \<Rightarrow> nat option" where
  "digit_val base c =
     (case map_of (zip digit_chars [0..<36]) (to_lower c) of
        Some d \<Rightarrow> if d < base then Some d else None
      | None \<Rightarrow> None)"

text \<open>The value of the digits at the front, and the rest.\<close>

fun scan_digits :: "nat \<Rightarrow> int \<Rightarrow> string \<Rightarrow> int \<times> string" where
  "scan_digits base acc [] = (acc, [])"
| "scan_digits base acc (c # cs) =
     (case digit_val base c of
        None \<Rightarrow> (acc, c # cs)
      | Some d \<Rightarrow> scan_digits base (acc * int base + int d) cs)"

definition scan_sign :: "string \<Rightarrow> bool \<times> string" where
  "scan_sign s = (case s of
     [] \<Rightarrow> (False, [])
   | c # cs \<Rightarrow> if c = CHR ''-'' then (True, cs) else if c = CHR ''+'' then (False, cs) else (False, s))"

definition digit_at :: "nat \<Rightarrow> string \<Rightarrow> bool" where
  "digit_at base s = (case s of [] \<Rightarrow> False | c # _ \<Rightarrow> digit_val base c \<noteq> None)"

text \<open>
  The base that \<open>strtoul(s, &end, 0)\<close> chooses and where the digits start: \<open>0x\<close> before a
  hexadecimal digit is base 16, another leading 0 is base 8, and all else base 10.
\<close>

definition scan_base :: "string \<Rightarrow> nat \<times> string" where
  "scan_base s =
     (case s of
        c # x # cs \<Rightarrow> if c = CHR ''0'' \<and> to_lower x = CHR ''x'' \<and> digit_at 16 cs then (16, cs)
                      else if c = CHR ''0'' then (8, s) else (10, s)
      | [c] \<Rightarrow> if c = CHR ''0'' then (8, s) else (10, s)
      | [] \<Rightarrow> (10, s))"

text \<open>The value and \<open>*endptr\<close>; without a digit they are 0 and the start of the string.\<close>

definition strtoul :: "string \<Rightarrow> long \<times> string" where
  "strtoul s =
     (let (neg, s2) = scan_sign (dropWhile isspace s); (base, s3) = scan_base s2
      in if digit_at base s3 then
           let (v, rest) = scan_digits base 0 s3
           in (if 2 ^ 64 \<le> v then - 1 else if neg then - of_int v else of_int v, rest)
         else (0, s))"

text \<open>\<open>atoi\<close>: the low 32 bits of \<open>strtol\<close> in base 10, which saturates at the bounds of \<open>long\<close>.\<close>

definition atoi :: "string \<Rightarrow> int" where
  "atoi s =
     (let (neg, s2) = scan_sign (dropWhile isspace s); (v, _) = scan_digits 10 0 s2;
          l = (if neg then max (- (2 ^ 63)) (- v) else min (2 ^ 63 - 1) v)
      in sint (word_of_int l :: 32 word))"

text \<open>\<open>printf("%d")\<close>\<close>

fun show_nat :: "nat \<Rightarrow> string" where
  "show_nat n = (if n < 10 then [digit_chars ! n] else show_nat (n div 10) @ [digit_chars ! (n mod 10)])"

declare show_nat.simps [simp del]

definition show_int :: "int \<Rightarrow> string" where
  "show_int i = (if i < 0 then CHR ''-'' # show_nat (nat (- i)) else show_nat (nat i))"

text \<open>
  \<open>fscanf\<close> with one \<open>%d\<close> or \<open>%u\<close>: the number and the rest of the file.  As in \<open>atoi\<close>, what is stored is the
  low 32 bits of the result of \<open>strtol\<close> or \<open>strtoul\<close>, which saturate.
\<close>

definition scan_number :: "string \<Rightarrow> ((bool \<times> int) \<times> string) option" where
  "scan_number s =
     (let (neg, s) = scan_sign (dropWhile isspace s)
      in if digit_at 10 s then let (v, s) = scan_digits 10 0 s in Some ((neg, v), s) else None)"

definition fscan_int :: "string \<Rightarrow> (int \<times> string) option" where
  "fscan_int s =
     do { ((neg, v), s) \<leftarrow> scan_number s;
          let l = (if neg then max (- (2 ^ 63)) (- v) else min (2 ^ 63 - 1) v);
          Some (sint (word_of_int l :: 32 word), s) }"

definition fscan_unsigned :: "string \<Rightarrow> (int \<times> string) option" where
  "fscan_unsigned s =
     do { ((neg, v), s) \<leftarrow> scan_number s;
          let l = (if 2 ^ 64 \<le> v then - 1 else if neg then - v else v);
          Some (uint (word_of_int l :: 32 word), s) }"

section \<open>Reading lines\<close>

text \<open>\<open>fgets\<close> with room for \<open>n\<close> characters besides the terminator: the line and the rest of the input.\<close>

fun fgets :: "nat \<Rightarrow> string \<Rightarrow> string \<times> string" where
  "fgets 0 s = ([], s)"
| "fgets (Suc n) [] = ([], [])"
| "fgets (Suc n) (c # cs) =
     (if c = NEWLINE then ([c], cs)
      else (let (l, r) = fgets n cs in (c # l, r)))"

lemma fgets_append: "fgets n s = (l, r) \<Longrightarrow> s = l @ r"
  by (induction n s arbitrary: l r rule: fgets.induct) (auto split: prod.splits if_splits)

lemma fgets_shorter: "s \<noteq> [] \<Longrightarrow> length (snd (fgets (Suc n) s)) < length s"
  by (cases s) (auto split: prod.splits dest: fgets_append)

lemma fgets_line:
  "NEWLINE \<notin> set l \<Longrightarrow> length l < n \<Longrightarrow> fgets n (l @ NEWLINE # r) = (l @ [NEWLINE], r)"
proof (induction l arbitrary: n)
  case Nil
  then show ?case by (cases n) auto
next
  case (Cons c l)
  then show ?case by (cases n) auto
qed

section \<open>Hexadecimal numerals\<close>

definition hexchar :: "nat \<Rightarrow> char" where
  "hexchar d = digit_chars ! d"

primrec hexdigs :: "nat \<Rightarrow> nat \<Rightarrow> string" where
  "hexdigs 0 n = []"
| "hexdigs (Suc k) n = hexdigs k (n div 16) @ [hexchar (n mod 16)]"

lemma digit_val_hexchar: "d < 16 \<Longrightarrow> digit_val 16 (hexchar d) = Some d"
proof -
  assume "d < 16"
  moreover have "list_all (\<lambda>d. digit_val 16 (hexchar d) = Some d) [0..<16]" by code_simp
  ultimately show ?thesis by (simp only: list_all_iff set_upt) simp
qed

lemma scan_digits_append:
  "\<not> digit_at base r \<Longrightarrow> scan_digits base acc s = (v, []) \<Longrightarrow> scan_digits base acc (s @ r) = (v, r)"
proof (induction s arbitrary: acc)
  case Nil
  then show ?case by (cases r) (auto simp: digit_at_def split: option.splits)
next
  case (Cons c s)
  then show ?case by (auto split: option.splits)
qed

lemma scan_hexdigs:
  "scan_digits 16 acc (hexdigs k n @ s) = scan_digits 16 (acc * 16 ^ k + int (n mod 16 ^ k)) s"
proof (induction k arbitrary: n s acc)
  case 0
  then show ?case by simp
next
  case (Suc k)
  have "int (n mod 16 ^ Suc k) = int ((n div 16) mod 16 ^ k) * 16 + int (n mod 16)"
    by (simp add: mod_mult2_eq)
  then have e: "acc * 16 ^ Suc k + int (n mod 16 ^ Suc k) =
      (acc * 16 ^ k + int ((n div 16) mod 16 ^ k)) * 16 + int (n mod 16)"
    by (simp add: algebra_simps)
  show ?case
    unfolding e using Suc [of acc "n div 16" "hexchar (n mod 16) # s"]
    by (simp add: digit_val_hexchar)
qed

section \<open>Decimal numerals\<close>

lemma scan_digits_snoc: "scan_digits b acc xs = (w, []) \<Longrightarrow> digit_val b c = Some d \<Longrightarrow>
    scan_digits b acc (xs @ [c]) = (w * int b + int d, [])"
  by (induction xs arbitrary: acc) (auto split: option.splits)

lemma digit_chars_10: "d < 10 \<Longrightarrow> digit_val 10 (digit_chars ! d) = Some d \<and> \<not> isspace (digit_chars ! d) \<and>
    digit_chars ! d \<noteq> CHR ''-'' \<and> digit_chars ! d \<noteq> CHR ''+''"
proof -
  assume "d < 10"
  moreover have "list_all (\<lambda>d. digit_val 10 (digit_chars ! d) = Some d \<and> \<not> isspace (digit_chars ! d) \<and>
    digit_chars ! d \<noteq> CHR ''-'' \<and> digit_chars ! d \<noteq> CHR ''+'') [0..<10]" by code_simp
  ultimately show ?thesis by (simp only: list_all_iff set_upt) simp
qed

lemma scan_show_nat: "scan_digits 10 0 (show_nat n) = (int n, [])"
proof (induction n rule: show_nat.induct)
  case (1 n)
  show ?case
  proof (cases "n < 10")
    case True
    then show ?thesis using digit_chars_10 [of n] by (subst show_nat.simps) simp
  next
    case False
    then have "scan_digits 10 0 (show_nat (n div 10)) = (int (n div 10), [])" using 1 by simp
    from scan_digits_snoc [OF this, of "digit_chars ! (n mod 10)" "n mod 10"] digit_chars_10 [of "n mod 10"]
    have "scan_digits 10 0 (show_nat (n div 10) @ [digit_chars ! (n mod 10)]) = (int (n div 10) * 10 + int (n mod 10), [])"
      by simp
    moreover have "int (n div 10) * 10 + int (n mod 10) = int n"
      by (metis div_mult_mod_eq of_nat_add of_nat_mult of_nat_numeral)
    ultimately show ?thesis using False by (subst show_nat.simps) simp
  qed
qed

lemma show_nat_first: "\<exists>c cs d. show_nat n = c # cs \<and> c = digit_chars ! d \<and> d < 10"
proof (induction n rule: show_nat.induct)
  case (1 n)
  then show ?case by (subst show_nat.simps) (cases "n < 10"; force)
qed

lemma space_no_digit: "isspace c \<Longrightarrow> digit_val 10 c = None"
proof -
  assume "isspace c"
  then have "c \<in> set [CHR '' '', TAB, NEWLINE, CHR 0x0B, CHR 0x0C, RETURN]" by (auto simp: isspace_def)
  moreover have "list_all (\<lambda>c. digit_val 10 c = None) [CHR '' '', TAB, NEWLINE, CHR 0x0B, CHR 0x0C, RETURN]"
    by code_simp
  ultimately show ?thesis by (simp only: list_all_iff)
qed

text \<open>A number that ends where a space, a newline or the file begins or ends.\<close>

lemma scan_number_show:
  assumes "0 \<le> v" and "isspace c"
  shows "scan_number (show_int v @ c # s) = Some ((False, v), c # s)"
    "isspace b \<Longrightarrow> scan_number (b # show_int v @ c # s) = Some ((False, v), c # s)"
proof -
  obtain x xs d where x: "show_nat (nat v) = x # xs" "x = digit_chars ! d" "d < 10" using show_nat_first by blast
  note dx = digit_chars_10 [OF x(3)]
  have "\<not> digit_at 10 (c # s)" using space_no_digit [OF assms(2)] by (simp add: digit_at_def)
  then have "scan_digits 10 0 (show_nat (nat v) @ c # s) = (v, c # s)"
    using scan_digits_append [OF _ scan_show_nat [of "nat v"]] assms(1) by simp
  then show f: "scan_number (show_int v @ c # s) = Some ((False, v), c # s)"
    using assms(1) dx x by (simp add: scan_number_def show_int_def scan_sign_def digit_at_def)
  show "isspace b \<Longrightarrow> scan_number (b # show_int v @ c # s) = Some ((False, v), c # s)"
    using f by (simp add: scan_number_def)
qed

lemma sint_word_of_int_32: "- (2 ^ 31) \<le> v \<Longrightarrow> v < 2 ^ 31 \<Longrightarrow> sint (word_of_int v :: 32 word) = v"
  using signed_take_bit_int_eq_self [of 31 v] by (simp add: signed_of_int)

lemma fscan_show:
  assumes "0 \<le> v" and "v < 2 ^ 31" and "isspace c"
  shows "fscan_int (show_int v @ c # s) = Some (v, c # s)"
    "isspace b \<Longrightarrow> fscan_int (b # show_int v @ c # s) = Some (v, c # s)"
  using scan_number_show [OF assms(1,3)] sint_word_of_int_32 [of v] assms(1,2) by (simp_all add: fscan_int_def)

lemma fscan_unsigned_show:
  assumes "0 \<le> v" and "v < 2 ^ 32" and "isspace c"
  shows "fscan_unsigned (show_int v @ c # s) = Some (v, c # s)"
    "isspace b \<Longrightarrow> fscan_unsigned (b # show_int v @ c # s) = Some (v, c # s)"
  using scan_number_show [OF assms(1,3)] assms(1,2)
  by (simp_all add: fscan_unsigned_def uint_word_of_int take_bit_int_eq_self)

lemma isspace_blanks [simp]: "isspace CHR '' ''" "isspace NEWLINE"
  by (simp_all add: isspace_def)

end
