(* ===== verification/Y64Asm.thy ===== *)
theory Y64Asm
  imports Y64Isa CStrings
begin

text \<open>
  The Y64 assembler of \<open>lab5/y64asm.c\<close>: the instruction and register tables, the symbol and
  relocation tables, the token parsers, \<open>parse_line\<close>, \<open>assemble\<close>, \<open>relocate\<close>, \<open>binfile\<close> and the
  listing.

  The file's globals are one record.  A \<open>char**\<close> argument that a parser advances is the rest of the
  line in the result; a parser that returns \<open>PARSE_ERR\<close> returns \<open>None\<close>, and its callers do not use
  the pointer then.  A relocation points at the \<open>bin_t\<close> of a line, which is the position of that
  line in the list of lines.

  \<open>parse_symbol\<close> and \<open>parse_label\<close> copy a name into a block from \<open>malloc\<close> and do not terminate it,
  so the name that \<open>strcmp\<close> later reads goes on with what the block held: the parameter \<open>blk\<close>.

  Outcomes that kill the process or are undefined in C (\<open>SIGFPE\<close> in \<open>.align\<close>, a copy outside the
  image) are \<open>None\<close> at the level of \<open>parse_line\<close>, \<open>assemble\<close> and \<open>binfile\<close>.  Messages are not
  modelled.
\<close>

section \<open>Data\<close>

record instr_t =
  i_name :: string
  i_len :: nat
  i_code :: byte
  i_bytes :: nat

datatype type_t = TYPE_COMM | TYPE_INS | TYPE_ERR

record bin_t =
  b_addr :: long
  b_codes :: "byte list"
  b_bytes :: nat

record line_t =
  l_type :: type_t
  l_y64bin :: bin_t
  l_y64asm :: string

type_synonym symbol_t = "string \<times> long"
type_synonym reloc_t = "nat \<times> string"

record asm_t =
  a_lines :: "line_t list"
  a_lineno :: int
  a_vmaddr :: long
  a_symtab :: "symbol_t list"
  a_reltab :: "reloc_t list"

definition MAX_INSLEN :: nat where "MAX_INSLEN = 512"

section \<open>Tables\<close>

definition reg_table :: "(string \<times> regid_t \<times> nat) list" where
  "reg_table =
     [(''%rax'', 0, 4), (''%rcx'', 1, 4), (''%rdx'', 2, 4), (''%rbx'', 3, 4), (''%rsp'', 4, 4),
      (''%rbp'', 5, 4), (''%rsi'', 6, 4), (''%rdi'', 7, 4), (''%r8'', 8, 3), (''%r9'', 9, 3),
      (''%r10'', 10, 4), (''%r11'', 11, 4), (''%r12'', 12, 4), (''%r13'', 13, 4), (''%r14'', 14, 4)]"

definition find_register :: "string \<Rightarrow> regid_t option" where
  "find_register name =
     map_option (\<lambda>(n, i, l). i) (find (\<lambda>(n, i, l). strncmp_eq name n l) reg_table)"

fun mk_instr :: "string \<Rightarrow> nat \<Rightarrow> itype_t \<Rightarrow> nat \<Rightarrow> nat \<Rightarrow> instr_t" where
  "mk_instr n l t f b = \<lparr>i_name = n, i_len = l, i_code = HPACK (itype_code t) f, i_bytes = b\<rparr>"

definition instr_set :: "instr_t list" where
  "instr_set =
     [mk_instr ''nop'' 3 I_NOP F_NONE 1,
      mk_instr ''halt'' 4 I_HALT F_NONE 1,
      mk_instr ''rrmovq'' 6 I_RRMOVQ F_NONE 2,
      mk_instr ''cmovle'' 6 I_RRMOVQ (cond_code C_LE) 2,
      mk_instr ''cmovl'' 5 I_RRMOVQ (cond_code C_L) 2,
      mk_instr ''cmove'' 5 I_RRMOVQ (cond_code C_E) 2,
      mk_instr ''cmovne'' 6 I_RRMOVQ (cond_code C_NE) 2,
      mk_instr ''cmovge'' 6 I_RRMOVQ (cond_code C_GE) 2,
      mk_instr ''cmovg'' 5 I_RRMOVQ (cond_code C_G) 2,
      mk_instr ''irmovq'' 6 I_IRMOVQ F_NONE 10,
      mk_instr ''rmmovq'' 6 I_RMMOVQ F_NONE 10,
      mk_instr ''mrmovq'' 6 I_MRMOVQ F_NONE 10,
      mk_instr ''addq'' 4 I_ALU (alu_code A_ADD) 2,
      mk_instr ''subq'' 4 I_ALU (alu_code A_SUB) 2,
      mk_instr ''andq'' 4 I_ALU (alu_code A_AND) 2,
      mk_instr ''xorq'' 4 I_ALU (alu_code A_XOR) 2,
      mk_instr ''jmp'' 3 I_JMP (cond_code C_YES) 9,
      mk_instr ''jle'' 3 I_JMP (cond_code C_LE) 9,
      mk_instr ''jl'' 2 I_JMP (cond_code C_L) 9,
      mk_instr ''je'' 2 I_JMP (cond_code C_E) 9,
      mk_instr ''jne'' 3 I_JMP (cond_code C_NE) 9,
      mk_instr ''jge'' 3 I_JMP (cond_code C_GE) 9,
      mk_instr ''jg'' 2 I_JMP (cond_code C_G) 9,
      mk_instr ''call'' 4 I_CALL F_NONE 9,
      mk_instr ''ret'' 3 I_RET F_NONE 1,
      mk_instr ''pushq'' 5 I_PUSHQ F_NONE 2,
      mk_instr ''popq'' 4 I_POPQ F_NONE 2,
      mk_instr ''.byte'' 5 I_DIRECTIVE (dtv_code D_DATA) 1,
      mk_instr ''.word'' 5 I_DIRECTIVE (dtv_code D_DATA) 2,
      mk_instr ''.long'' 5 I_DIRECTIVE (dtv_code D_DATA) 4,
      mk_instr ''.quad'' 5 I_DIRECTIVE (dtv_code D_DATA) 8,
      mk_instr ''.pos'' 4 I_DIRECTIVE (dtv_code D_POS) 0,
      mk_instr ''.align'' 6 I_DIRECTIVE (dtv_code D_ALIGN) 0]"

definition find_instr :: "string \<Rightarrow> instr_t option" where
  "find_instr name = find (\<lambda>i. strncmp_eq (i_name i) name (i_len i)) instr_set"

definition find_symbol :: "symbol_t list \<Rightarrow> string \<Rightarrow> symbol_t option" where
  "find_symbol symtab name = find (\<lambda>(n, _). n = name) symtab"

text \<open>\<open>add_symbol\<close> returns -1 (\<open>None\<close>) for a duplicate; a new entry goes to the end with address 0.\<close>

definition add_symbol :: "symbol_t list \<Rightarrow> string \<Rightarrow> symbol_t list option" where
  "add_symbol symtab name =
     (if find_symbol symtab name \<noteq> None then None else Some (symtab @ [(name, 0)]))"

fun set_symbol_addr :: "symbol_t list \<Rightarrow> string \<Rightarrow> long \<Rightarrow> symbol_t list" where
  "set_symbol_addr [] name a = []"
| "set_symbol_addr ((n, b) # st) name a =
     (if n = name then (n, a) # st else (n, b) # set_symbol_addr st name a)"

definition add_reloc :: "reloc_t list \<Rightarrow> string \<Rightarrow> nat \<Rightarrow> reloc_t list" where
  "add_reloc reltab name bin = reltab @ [(bin, name)]"

section \<open>Token parsers\<close>

fun at :: "(char \<Rightarrow> bool) \<Rightarrow> string \<Rightarrow> bool" where
  "at p [] = False"
| "at p (c # cs) = p c"

definition digit_char :: "char \<Rightarrow> bool" where
  "digit_char c \<longleftrightarrow> isdigit c \<or> c = CHR ''-'' \<or> c = CHR ''+''"

definition IS_DIGIT :: "string \<Rightarrow> bool" where "IS_DIGIT s = at digit_char s"
definition IS_LETTER :: "string \<Rightarrow> bool" where "IS_LETTER s = at isletter s"
definition IS_COMMENT :: "string \<Rightarrow> bool" where "IS_COMMENT s = at (\<lambda>c. c = CHR ''#'') s"
definition IS_REG :: "string \<Rightarrow> bool" where "IS_REG s = at (\<lambda>c. c = CHR ''%'') s"
definition IS_IMM :: "string \<Rightarrow> bool" where "IS_IMM s = at (\<lambda>c. c = CHR ''$'') s"
definition IS_END :: "string \<Rightarrow> bool" where "IS_END s \<longleftrightarrow> s = []"

definition blank :: "char \<Rightarrow> bool" where
  "blank c \<longleftrightarrow> c = CHR '' '' \<or> c = TAB"

definition SKIP_BLANK :: "string \<Rightarrow> string" where
  "SKIP_BLANK s = dropWhile blank s"

definition word_char :: "char \<Rightarrow> bool" where
  "word_char c \<longleftrightarrow> isletter c \<or> digit_char c"

definition parse_instr :: "string \<Rightarrow> (instr_t \<times> string) option" where
  "parse_instr ptr =
     (let p = SKIP_BLANK ptr
      in case find_instr (scan_word p) of
           None \<Rightarrow> None
         | Some inst \<Rightarrow> Some (inst, drop (i_len inst) p))"

definition parse_delim :: "string \<Rightarrow> char \<Rightarrow> string option" where
  "parse_delim ptr delim =
     (case SKIP_BLANK ptr of
        [] \<Rightarrow> None
      | c # cs \<Rightarrow> if c \<noteq> delim then None else Some cs)"

text \<open>\<open>p\<close> starts at 1, behind the \<open>%\<close>, and runs over letters, digits and signs.\<close>

definition parse_reg :: "string \<Rightarrow> (regid_t \<times> string) option" where
  "parse_reg ptr =
     (case SKIP_BLANK ptr of
        [] \<Rightarrow> None
      | c # cs \<Rightarrow>
          if c \<noteq> CHR ''%'' then None
          else case find_register (c # takeWhile word_char cs) of
                 None \<Rightarrow> None
               | Some r \<Rightarrow> Some (r, dropWhile word_char cs))"

text \<open>
  The name as \<open>strcmp\<close> reads it from a block that held \<open>blk\<close>.  The parsers of one line get the contents of the
  blocks as a function of the place in the line where the name stands, so that each call of \<open>malloc\<close> has its own.
\<close>

definition name_in :: "string \<Rightarrow> string \<Rightarrow> string" where
  "name_in blk tok = tok @ cstr (drop (length tok) blk)"

type_synonym blocks = "string \<Rightarrow> string"

definition parse_symbol :: "blocks \<Rightarrow> string \<Rightarrow> (string \<times> string) option" where
  "parse_symbol blk ptr =
     (let p = SKIP_BLANK ptr
      in if \<not> IS_LETTER p then None
         else Some (name_in (blk p) (takeWhile word_char p), dropWhile word_char p))"

definition parse_digit :: "string \<Rightarrow> (long \<times> string) option" where
  "parse_digit ptr =
     (let p = SKIP_BLANK ptr
      in if \<not> IS_DIGIT p then None else Some (strtoul p))"

datatype operand = Digit long | Symbol string

definition parse_imm :: "blocks \<Rightarrow> string \<Rightarrow> (operand \<times> string) option" where
  "parse_imm blk ptr =
     (let p = SKIP_BLANK ptr
      in if IS_IMM p then
           let q = tl p
           in if \<not> IS_DIGIT q then None
              else let (v, r) = strtoul q in Some (Digit v, r)
         else if IS_LETTER p then
           map_option (\<lambda>(n, r). (Symbol n, r)) (parse_symbol blk p)
         else None)"

definition parse_mem :: "string \<Rightarrow> (long \<times> regid_t \<times> string) option" where
  "parse_mem ptr =
     (let p = SKIP_BLANK ptr
      in do {
        (v, q) \<leftarrow> (if at (\<lambda>c. c = CHR ''('') p then Some (0, p) else parse_digit p);
        q' \<leftarrow> (case q of [] \<Rightarrow> None | c # cs \<Rightarrow> if c = CHR ''('' then Some cs else None);
        (r, q'') \<leftarrow> parse_reg q';
        q3 \<leftarrow> (case q'' of [] \<Rightarrow> None | c # cs \<Rightarrow> if c = CHR '')'' then Some cs else None);
        Some (v, r, q3)
      })"

definition parse_data :: "blocks \<Rightarrow> string \<Rightarrow> (operand \<times> string) option" where
  "parse_data blk ptr =
     (let p = SKIP_BLANK ptr
      in if IS_DIGIT p then let (v, r) = strtoul p in Some (Digit v, r)
         else if IS_LETTER p then
           map_option (\<lambda>(n, r). (Symbol n, r)) (parse_symbol blk p)
         else None)"

definition parse_label :: "blocks \<Rightarrow> string \<Rightarrow> (string \<times> string) option" where
  "parse_label blk ptr =
     (let p = SKIP_BLANK ptr
      in if \<not> IS_LETTER p then None
         else case dropWhile word_char p of
                [] \<Rightarrow> None
              | c # cs \<Rightarrow> if c \<noteq> CHR '':'' then None
                          else Some (name_in (blk p) (takeWhile word_char p), cs))"

section \<open>Lines\<close>

text \<open>
  The state of \<open>parse_line\<close>: the globals, the line it fills, and the rest of the text, or \<open>None\<close>
  when the line is an error.  \<open>fail\<close> is \<open>line->type = TYPE_ERR; return\<close>.
\<close>

type_synonym line_state = "asm_t \<times> line_t \<times> string option"

fun fail :: "asm_t \<Rightarrow> line_t \<Rightarrow> line_state" where
  "fail st line = (st, line\<lparr>l_type := TYPE_ERR\<rparr>, None)"

definition set_code :: "nat \<Rightarrow> byte list \<Rightarrow> line_t \<Rightarrow> line_t" where
  "set_code k bs line =
     line\<lparr>l_y64bin := (l_y64bin line)\<lparr>b_codes := splice (b_codes (l_y64bin line)) k bs\<rparr>\<rparr>"

definition set_addr :: "long \<Rightarrow> line_t \<Rightarrow> line_t" where
  "set_addr a line = line\<lparr>l_y64bin := (l_y64bin line)\<lparr>b_addr := a\<rparr>\<rparr>"

definition pack_regs :: "regid_t \<Rightarrow> regid_t \<Rightarrow> byte list" where
  "pack_regs a b = [HPACK (nat a) (nat b)]"

text \<open>The relocation of the current line, which will be the last of the list of lines.\<close>

definition reloc_here :: "asm_t \<Rightarrow> string \<Rightarrow> asm_t" where
  "reloc_here st name = st\<lparr>a_reltab := add_reloc (a_reltab st) name (length (a_lines st))\<rparr>"

text \<open>\<open>rrmovq\<close>, the conditional moves and the ALU instructions: \<open>rA, rB\<close>.\<close>

definition line_rrmovq :: "asm_t \<Rightarrow> line_t \<Rightarrow> string \<Rightarrow> line_state" where
  "line_rrmovq st line t =
     (case parse_reg t of
        None \<Rightarrow> fail st line
      | Some (rega, t1) \<Rightarrow>
     (case parse_delim t1 CHR '','' of
        None \<Rightarrow> fail st line
      | Some t2 \<Rightarrow>
     (case parse_reg t2 of
        None \<Rightarrow> fail st line
      | Some (regb, t3) \<Rightarrow> (st, set_code 1 (pack_regs rega regb) line, Some t3))))"

definition line_irmovq :: "blocks \<Rightarrow> asm_t \<Rightarrow> line_t \<Rightarrow> string \<Rightarrow> line_state" where
  "line_irmovq blk st line t =
     (case parse_imm blk t of
        None \<Rightarrow> fail st line
      | Some (opd, t1) \<Rightarrow>
          let (st, line) = (case opd of
                 Symbol name \<Rightarrow> (reloc_here st name, line)
               | Digit value \<Rightarrow> (st, set_code 2 (le_bytes 8 value) line))
          in case parse_delim t1 CHR '','' of
               None \<Rightarrow> fail st line
             | Some t2 \<Rightarrow>
                 case parse_reg t2 of
                   None \<Rightarrow> fail st line
                 | Some (regb, t3) \<Rightarrow> (st, set_code 1 (pack_regs REG_NONE regb) line, Some t3))"

definition line_rmmovq :: "asm_t \<Rightarrow> line_t \<Rightarrow> string \<Rightarrow> line_state" where
  "line_rmmovq st line t =
     (case parse_reg t of
        None \<Rightarrow> fail st line
      | Some (rega, t1) \<Rightarrow>
     (case parse_delim t1 CHR '','' of
        None \<Rightarrow> fail st line
      | Some t2 \<Rightarrow>
     (case parse_mem t2 of
        None \<Rightarrow> fail st line
      | Some (value, regb, t3) \<Rightarrow>
          (st, set_code 2 (le_bytes 8 value) (set_code 1 (pack_regs rega regb) line), Some t3))))"

definition line_mrmovq :: "asm_t \<Rightarrow> line_t \<Rightarrow> string \<Rightarrow> line_state" where
  "line_mrmovq st line t =
     (case parse_mem t of
        None \<Rightarrow> fail st line
      | Some (value, rega, t1) \<Rightarrow>
     (case parse_delim t1 CHR '','' of
        None \<Rightarrow> fail st line
      | Some t2 \<Rightarrow>
     (case parse_reg t2 of
        None \<Rightarrow> fail st line
      | Some (regb, t3) \<Rightarrow>
          (st, set_code 2 (le_bytes 8 value) (set_code 1 (pack_regs regb rega) line), Some t3))))"

definition line_alu :: "asm_t \<Rightarrow> line_t \<Rightarrow> string \<Rightarrow> line_state" where
  "line_alu st line t =
     (case parse_reg t of
        None \<Rightarrow> fail st line
      | Some (rega, t1) \<Rightarrow>
     (case parse_delim t1 CHR '','' of
        None \<Rightarrow> fail st line
      | Some t2 \<Rightarrow>
     (case parse_reg t2 of
        None \<Rightarrow> fail st line
      | Some (regb, t3) \<Rightarrow> (st, set_code 1 (pack_regs rega regb) line, Some t3))))"

definition line_jmp :: "blocks \<Rightarrow> asm_t \<Rightarrow> line_t \<Rightarrow> string \<Rightarrow> line_state" where
  "line_jmp blk st line t =
     (case parse_symbol blk t of
        None \<Rightarrow> fail st line
      | Some (name, t1) \<Rightarrow> (reloc_here st name, line, Some t1))"

definition line_pushq :: "asm_t \<Rightarrow> line_t \<Rightarrow> string \<Rightarrow> line_state" where
  "line_pushq st line t =
     (case parse_reg t of
        None \<Rightarrow> fail st line
      | Some (rega, t1) \<Rightarrow> (st, set_code 1 (pack_regs rega REG_NONE) line, Some t1))"

text \<open>C's remainder takes the sign of the dividend.\<close>

definition c_rem :: "int \<Rightarrow> int \<Rightarrow> int" where
  "c_rem a b = sgn a * (\<bar>a\<bar> mod \<bar>b\<bar>)"

definition line_pos :: "asm_t \<Rightarrow> line_t \<Rightarrow> string \<Rightarrow> line_state" where
  "line_pos st line t =
     (case parse_digit t of
        None \<Rightarrow> fail st line
      | Some (value, t1) \<Rightarrow> (st\<lparr>a_vmaddr := value\<rparr>, set_addr value line, Some t1))"

text \<open>\<open>vmaddr % value\<close> traps for 0, and for -1 with the least integer as dividend.\<close>

definition line_align :: "asm_t \<Rightarrow> line_t \<Rightarrow> string \<Rightarrow> line_state option" where
  "line_align st line t =
     (case parse_digit t of
        None \<Rightarrow> Some (fail st line)
      | Some (value, t1) \<Rightarrow>
          if value = 0 \<or> (value = -1 \<and> sint (a_vmaddr st) = - (2 ^ 63)) then None
          else let r = c_rem (sint (a_vmaddr st)) (sint value)
               in if r \<noteq> 0 then
                    let vm = a_vmaddr st + (value - word_of_int r)
                    in Some (st\<lparr>a_vmaddr := vm\<rparr>, set_addr vm line, Some t1)
                  else Some (st, line, Some t1))"

text \<open>\<open>.byte\<close>, \<open>.word\<close>, \<open>.long\<close> and \<open>.quad\<close>: \<open>n\<close> bytes of the value.\<close>

definition line_data :: "nat \<Rightarrow> blocks \<Rightarrow> asm_t \<Rightarrow> line_t \<Rightarrow> string \<Rightarrow> line_state" where
  "line_data n blk st line t =
     (case parse_data blk t of
        None \<Rightarrow> fail st line
      | Some (Digit value, t1) \<Rightarrow> (st, set_code 0 (le_bytes n value) line, Some t1)
      | Some (Symbol name, t1) \<Rightarrow> (reloc_here st name, line, Some t1))"

definition line_directive :: "string \<Rightarrow> blocks \<Rightarrow> asm_t \<Rightarrow> line_t \<Rightarrow> string \<Rightarrow> line_state option" where
  "line_directive name blk st line t =
     (if name = ''.pos'' then Some (line_pos st line t)
      else if name = ''.align'' then line_align st line t
      else if name = ''.byte'' then Some (line_data 1 blk st line t)
      else if name = ''.word'' then Some (line_data 2 blk st line t)
      else if name = ''.long'' then Some (line_data 4 blk st line t)
      else if name = ''.quad'' then Some (line_data 8 blk st line t)
      else Some (fail st line))"

definition line_operands :: "instr_t \<Rightarrow> blocks \<Rightarrow> asm_t \<Rightarrow> line_t \<Rightarrow> string \<Rightarrow> line_state option" where
  "line_operands inst blk st line t =
     (case itype_of (HIGH (i_code inst)) of
        Some I_HALT \<Rightarrow> Some (st, line, Some t)
      | Some I_NOP \<Rightarrow> Some (st, line, Some t)
      | Some I_RET \<Rightarrow> Some (st, line, Some t)
      | Some I_RRMOVQ \<Rightarrow> Some (line_rrmovq st line t)
      | Some I_IRMOVQ \<Rightarrow> Some (line_irmovq blk st line t)
      | Some I_RMMOVQ \<Rightarrow> Some (line_rmmovq st line t)
      | Some I_MRMOVQ \<Rightarrow> Some (line_mrmovq st line t)
      | Some I_ALU \<Rightarrow> Some (line_alu st line t)
      | Some I_JMP \<Rightarrow> Some (line_jmp blk st line t)
      | Some I_CALL \<Rightarrow> Some (line_jmp blk st line t)
      | Some I_PUSHQ \<Rightarrow> Some (line_pushq st line t)
      | Some I_POPQ \<Rightarrow> Some (line_pushq st line t)
      | Some I_DIRECTIVE \<Rightarrow> line_directive (i_name inst) blk st line t
      | None \<Rightarrow> Some (fail st line))"

definition line_instr :: "blocks \<Rightarrow> asm_t \<Rightarrow> line_t \<Rightarrow> string \<Rightarrow> (type_t \<times> asm_t \<times> line_t) option" where
  "line_instr blk st line t =
     (case parse_instr t of
        None \<Rightarrow> Some (TYPE_ERR, st, line\<lparr>l_type := TYPE_ERR\<rparr>)
      | Some (inst, t1) \<Rightarrow>
          let line1 = set_code 0 [i_code inst]
                (line\<lparr>l_type := TYPE_INS,
                      l_y64bin := (l_y64bin line)\<lparr>b_addr := a_vmaddr st, b_bytes := i_bytes inst\<rparr>\<rparr>);
              st1 = st\<lparr>a_vmaddr := a_vmaddr st + of_nat (i_bytes inst)\<rparr>
          in case line_operands inst blk st1 line1 t1 of
               None \<Rightarrow> None
             | Some (st2, line2, None) \<Rightarrow> Some (TYPE_ERR, st2, line2)
             | Some (st2, line2, Some t2) \<Rightarrow>
                 let t3 = SKIP_BLANK t2
                 in if IS_END t3 \<or> IS_COMMENT t3 then Some (l_type line2, st2, line2)
                    else Some (TYPE_ERR, st2, line2\<lparr>l_type := TYPE_ERR\<rparr>))"

definition parse_line :: "blocks \<Rightarrow> asm_t \<Rightarrow> line_t \<Rightarrow> (type_t \<times> asm_t \<times> line_t) option" where
  "parse_line blk st line =
     (let t = SKIP_BLANK (l_y64asm line)
      in if IS_END t then Some (TYPE_COMM, st, line)
         else if IS_COMMENT t then Some (TYPE_COMM, st, line)
         else case parse_label blk t of
                Some (name, t1) \<Rightarrow>
                  (case add_symbol (a_symtab st) name of
                     None \<Rightarrow> Some (TYPE_ERR, st, line\<lparr>l_type := TYPE_ERR\<rparr>)
                   | Some symtab \<Rightarrow>
                       let st1 = st\<lparr>a_symtab := set_symbol_addr symtab name (a_vmaddr st)\<rparr>;
                           t2 = SKIP_BLANK t1
                       in if IS_END t2 \<or> IS_COMMENT t2 then
                            Some (TYPE_INS, st1, set_addr (a_vmaddr st1) (line\<lparr>l_type := TYPE_INS\<rparr>))
                          else line_instr blk st1 line t2)
              | None \<Rightarrow> line_instr blk st line t)"

section \<open>The three passes\<close>

definition init :: asm_t where
  "init = \<lparr>a_lines = [], a_lineno = 0, a_vmaddr = 0, a_symtab = [], a_reltab = []\<rparr>"

definition new_line :: "string \<Rightarrow> line_t" where
  "new_line txt = \<lparr>l_type = TYPE_COMM,
     l_y64bin = \<lparr>b_addr = 0, b_codes = replicate 10 0, b_bytes = 0\<rparr>, l_y64asm = txt\<rparr>"

definition strip_newline :: "string \<Rightarrow> string" where
  "strip_newline s = rev (dropWhile (\<lambda>c. c = NEWLINE \<or> c = RETURN) (rev s))"

text \<open>
  What the code reads without having written it, line by line: the contents of the blocks from \<open>malloc\<close>, and the
  byte before \<open>asm_buf\<close>, which the loop over the line ends reads for an empty line.
\<close>

record garbage =
  held :: "int \<Rightarrow> blocks"
  before :: "int \<Rightarrow> char"

text \<open>
  \<open>assemble\<close> reads lines of at most \<open>MAX_INSLEN - 1\<close> characters.  When the byte before the buffer is a line end, an
  empty line makes it store outside the buffer.
\<close>

function assemble :: "garbage \<Rightarrow> asm_t \<Rightarrow> string \<Rightarrow> (int \<times> asm_t) option" where
  "assemble g st [] = Some (0, st\<lparr>a_lineno := -1\<rparr>)"
| "assemble g st (c # cs) =
     (let (buf, rest) = fgets (Suc (MAX_INSLEN - 2)) (c # cs);
          st1 = st\<lparr>a_lineno := a_lineno st + 1\<rparr>;
          text = strip_newline (cstr buf)
      in if text = [] \<and> before g (a_lineno st1) \<in> {NEWLINE, RETURN} then None
         else case parse_line (held g (a_lineno st1)) st1 (new_line text) of
           None \<Rightarrow> None
         | Some (ty, st2, line) \<Rightarrow>
             let st3 = st2\<lparr>a_lines := a_lines st2 @ [line]\<rparr>
             in if ty = TYPE_ERR then Some (-1, st3) else assemble g st3 rest)"
  by pat_completeness auto
termination
proof (relation "measure (\<lambda>(g, st, s). length s)", goal_cases)
  case 1
  show ?case by simp
next
  case (2 g st c cs x buf rest)
  then show ?case using fgets_shorter [of "c # cs"] by (metis in_measure prod.case snd_conv list.distinct(1))
qed

definition relocate_bin :: "bin_t \<Rightarrow> long \<Rightarrow> bin_t" where
  "relocate_bin bin a =
     (case itype_of (HIGH (b_codes bin ! 0)) of
        Some I_IRMOVQ \<Rightarrow> bin\<lparr>b_codes := splice (b_codes bin) (b_bytes bin - 8) (le_bytes 8 a)\<rparr>
      | Some I_JMP \<Rightarrow> bin\<lparr>b_codes := splice (b_codes bin) (b_bytes bin - 8) (le_bytes 8 a)\<rparr>
      | Some I_CALL \<Rightarrow> bin\<lparr>b_codes := splice (b_codes bin) (b_bytes bin - 8) (le_bytes 8 a)\<rparr>
      | Some I_DIRECTIVE \<Rightarrow>
          if b_bytes bin \<in> {1, 2, 4, 8}
          then bin\<lparr>b_codes := splice (b_codes bin) 0 (le_bytes (b_bytes bin) a)\<rparr> else bin
      | _ \<Rightarrow> bin)"

fun relocate_loop :: "symbol_t list \<Rightarrow> reloc_t list \<Rightarrow> line_t list \<Rightarrow> int \<times> line_t list" where
  "relocate_loop symtab [] ls = (0, ls)"
| "relocate_loop symtab ((k, name) # rs) ls =
     (case find_symbol symtab name of
        None \<Rightarrow> (-1, ls)
      | Some (_, a) \<Rightarrow>
          relocate_loop symtab rs
            (ls[k := (ls ! k)\<lparr>l_y64bin := relocate_bin (l_y64bin (ls ! k)) a\<rparr>]))"

definition relocate :: "asm_t \<Rightarrow> int \<times> asm_t" where
  "relocate st = (let (rc, ls) = relocate_loop (a_symtab st) (a_reltab st) (a_lines st)
                  in (rc, st\<lparr>a_lines := ls\<rparr>))"

text \<open>
  \<open>binfile\<close>: the image and its size.  \<open>filesize\<close> is an \<open>int\<close>, assigned from the address of each
  emitted line in turn, so it ends as the end of the last one.  A negative size makes \<open>malloc\<close>
  fail and the following \<open>memset\<close> fault; a line outside the image is copied past its end.
\<close>

definition emitted :: "line_t \<Rightarrow> bool" where
  "emitted line \<longleftrightarrow> l_type line = TYPE_INS \<and> b_bytes (l_y64bin line) > 0"

fun image_size :: "line_t list \<Rightarrow> int \<Rightarrow> int" where
  "image_size [] n = n"
| "image_size (l # ls) n =
     image_size ls (if emitted l
       then sint (ucast (b_addr (l_y64bin l) + of_nat (b_bytes (l_y64bin l))) :: 32 word) else n)"

fun copy_lines :: "line_t list \<Rightarrow> byte list \<Rightarrow> byte list option" where
  "copy_lines [] img = Some img"
| "copy_lines (l # ls) img =
     (if emitted l then
        (let a = sint (b_addr (l_y64bin l)); n = b_bytes (l_y64bin l)
         in if 0 \<le> a \<and> a + int n \<le> int (length img)
            then copy_lines ls (splice img (nat a) (take n (b_codes (l_y64bin l))))
            else None)
      else copy_lines ls img)"

definition binfile :: "asm_t \<Rightarrow> byte list option" where
  "binfile st =
     (let filesize = image_size (a_lines st) 0
      in if filesize < 0 then None
         else copy_lines (a_lines st) (replicate (nat filesize) 0))"

section \<open>The listing\<close>

fun hexstuff_loop :: "string \<Rightarrow> nat \<Rightarrow> 32 word \<Rightarrow> nat \<Rightarrow> nat \<Rightarrow> nat \<Rightarrow> string" where
  "hexstuff_loop dest off value l i 0 = dest"
| "hexstuff_loop dest off value l i (Suc n) =
     hexstuff_loop
       (dest[off + (l - i - 1) := hexchar (unat (signed_drop_bit (4 * i) value AND 0xF))])
       off value l (Suc i) n"

text \<open>\<open>hexstuff(dest + off, value, len)\<close> on a 32-bit \<open>value\<close>.\<close>

definition hexstuff :: "string \<Rightarrow> nat \<Rightarrow> 32 word \<Rightarrow> nat \<Rightarrow> string" where
  "hexstuff dest off value l = hexstuff_loop dest off value l 0 l"

fun print_codes :: "string \<Rightarrow> nat \<Rightarrow> byte list \<Rightarrow> string" where
  "print_codes buf i [] = buf"
| "print_codes buf i (b # bs) = print_codes (hexstuff buf (9 + 2 * i) (ucast b) 2) (Suc i) bs"

definition print_line :: "line_t \<Rightarrow> string" where
  "print_line line =
     (let buf = (if l_type line = TYPE_INS then
                   let bin = l_y64bin line;
                       b0 = ''  0x000:                      | '';
                       b1 = hexstuff b0 4 (ucast (b_addr bin)) 3
                   in print_codes b1 0 (take (b_bytes bin) (b_codes bin))
                 else ''                              | '')
      in buf @ l_y64asm line @ [NEWLINE])"

definition print_screen :: "asm_t \<Rightarrow> string" where
  "print_screen st = concat (map print_line (a_lines st))"

section \<open>The program\<close>

text \<open>
  The command line.  A missing file name after \<open>-v\<close> is a null pointer and a name shorter than
  \<open>.ys\<close> is compared from before its start: both are \<open>Bad\<close>.
\<close>

datatype asm_args = Usage | TooLong | Bad | Root bool string

definition asm_source :: "bool \<Rightarrow> string list \<Rightarrow> asm_args" where
  "asm_source scr rest =
     (case rest of
        [] \<Rightarrow> Bad
      | name # _ \<Rightarrow>
          if length name < 3 then Bad
          else if drop (length name - 3) name \<noteq> ''.ys'' then Usage
          else if 500 < length name - 3 then TooLong
          else Root scr (take (length name - 3) name))"

definition asm_arguments :: "string list \<Rightarrow> asm_args" where
  "asm_arguments args =
     (case args of
        [] \<Rightarrow> Usage
      | a # rest \<Rightarrow>
          if at (\<lambda>c. c = CHR ''-'') a
          then (if at (\<lambda>c. c = CHR ''v'') (tl a) then asm_source True rest else Usage)
          else asm_source False args)"

text \<open>
  What a run leaves: the exit code, the binary file it wrote, if any, and the listing.  \<open>src\<close> are
  the readable files and \<open>writable\<close> the names that can be opened for writing.
\<close>

record asm_run =
  r_exit :: int
  r_out :: "(string \<times> byte list) option"
  r_listing :: string

definition asm_failed :: asm_run where
  "asm_failed = \<lparr>r_exit = 1, r_out = None, r_listing = []\<rparr>"

definition assemble_text :: "garbage \<Rightarrow> string \<Rightarrow> (int \<times> asm_t) option" where
  "assemble_text g input =
     (case assemble g init input of
        None \<Rightarrow> None
      | Some (rc, st) \<Rightarrow> if rc < 0 then Some (-1, st) else Some (relocate st))"

definition y64asm_main ::
  "garbage \<Rightarrow> (string \<Rightarrow> string option) \<Rightarrow> (string \<Rightarrow> bool) \<Rightarrow> string list \<Rightarrow> asm_run option" where
  "y64asm_main g src writable args =
     (case asm_arguments args of
        Usage \<Rightarrow> Some (asm_failed\<lparr>r_exit := 0\<rparr>)
      | TooLong \<Rightarrow> Some asm_failed
      | Bad \<Rightarrow> None
      | Root scr root \<Rightarrow>
          (case src (root @ ''.ys'') of
             None \<Rightarrow> Some asm_failed
           | Some input \<Rightarrow>
               (case assemble_text g input of
                  None \<Rightarrow> None
                | Some (rc, st) \<Rightarrow>
                    if rc < 0 then Some asm_failed
                    else if \<not> writable (root @ ''.bin'') then Some asm_failed
                    else case binfile st of
                           None \<Rightarrow> None
                         | Some img \<Rightarrow>
                             Some \<lparr>r_exit = 0, r_out = Some (root @ ''.bin'', img),
                                   r_listing = (if scr then print_screen st else [])\<rparr>)))"

end
