(* ===== verification/Y64Sim.thy ===== *)
theory Y64Sim
  imports Y64Isa
begin

text \<open>
  The instruction-set simulator of \<open>lab4/y64sim.c\<close>: the machine state, the ALU and the condition
  codes, \<open>nexti\<close> instruction by instruction, the main loop, and loading a binary image.  A step
  returns the status and the new state; \<open>None\<close> is an access outside the memory array, which C
  leaves undefined.
\<close>

section \<open>State and status\<close>

datatype stat_t = STAT_AOK | STAT_HLT | STAT_ADR | STAT_INS

record y64sim_t =
  sim_pc :: long
  sim_r :: mem_t
  sim_m :: mem_t
  sim_cc :: byte

definition MAX_STEP :: int where "MAX_STEP = 10000"

fun stat_name :: "stat_t \<Rightarrow> string" where
  "stat_name STAT_AOK = ''AOK''"
| "stat_name STAT_HLT = ''HLT''"
| "stat_name STAT_ADR = ''ADR''"
| "stat_name STAT_INS = ''INS''"

definition cc_names :: "string list" where
  "cc_names = [''Z=0 S=0 O=0'', ''Z=0 S=0 O=1'', ''Z=0 S=1 O=0'', ''Z=0 S=1 O=1'',
               ''Z=1 S=0 O=0'', ''Z=1 S=0 O=1'', ''Z=1 S=1 O=0'', ''Z=1 S=1 O=1'']"

definition cc_name :: "byte \<Rightarrow> string" where
  "cc_name c = (let ci = uint c
                in if ci < 0 \<or> ci > 7 then ''???????????'' else cc_names ! nat ci)"

section \<open>Condition codes\<close>

definition PACK_CC :: "bool \<Rightarrow> bool \<Rightarrow> bool \<Rightarrow> byte" where
  "PACK_CC z s o' = push_bit 2 (of_bool z) OR push_bit 1 (of_bool s) OR push_bit 0 (of_bool o')"

definition GET_ZF :: "byte \<Rightarrow> byte" where "GET_ZF cc = drop_bit 2 cc AND 1"
definition GET_SF :: "byte \<Rightarrow> byte" where "GET_SF cc = drop_bit 1 cc AND 1"
definition GET_OF :: "byte \<Rightarrow> byte" where "GET_OF cc = drop_bit 0 cc AND 1"

definition DEFAULT_CC :: byte where
  "DEFAULT_CC = PACK_CC True False False"

fun compute_alu :: "alu_t \<Rightarrow> long \<Rightarrow> long \<Rightarrow> long" where
  "compute_alu A_ADD argA argB = argB + argA"
| "compute_alu A_SUB argA argB = argB - argA"
| "compute_alu A_AND argA argB = argB AND argA"
| "compute_alu A_XOR argA argB = argB XOR argA"
| "compute_alu A_NONE argA argB = 0"

definition pos :: "long \<Rightarrow> bool" where
  "pos v \<longleftrightarrow> sint v > 0"

definition compute_cc :: "alu_t \<Rightarrow> long \<Rightarrow> long \<Rightarrow> long \<Rightarrow> byte" where
  "compute_cc op argA argB val =
     (let zero = (val = 0);
          sign = (sint (ucast val :: 32 word) < 0);
          ovf = ((op = A_AND \<and> (pos argA = pos argB) \<and> \<not> (pos argA = pos val)) \<or>
                 (op = A_SUB \<and> \<not> (pos argA = pos argB) \<and> (pos argA = pos val)))
      in PACK_CC zero sign ovf)"

definition nz :: "byte \<Rightarrow> bool" where
  "nz b \<longleftrightarrow> b \<noteq> 0"

fun cond_doit :: "byte \<Rightarrow> cond_t \<Rightarrow> bool" where
  "cond_doit cc C_YES = True"
| "cond_doit cc C_LE = nz (GET_ZF cc OR (GET_SF cc XOR GET_OF cc))"
| "cond_doit cc C_L = nz (GET_SF cc XOR GET_OF cc)"
| "cond_doit cc C_E = nz (GET_ZF cc)"
| "cond_doit cc C_NE = (\<not> nz (GET_ZF cc))"
| "cond_doit cc C_GE = (\<not> nz (GET_SF cc XOR GET_OF cc))"
| "cond_doit cc C_G = (\<not> nz (GET_ZF cc) \<and> \<not> nz (GET_SF cc XOR GET_OF cc))"

section \<open>One instruction\<close>

text \<open>What the first part of \<open>nexti\<close> reads: codes, registers and immediate where needed.\<close>

record fetched =
  f_icode :: nat
  f_ifun :: nat
  f_rega :: regid_t
  f_regb :: regid_t
  f_imm :: long
  f_next_pc :: long

definition needs_regs :: "nat \<Rightarrow> bool" where
  "needs_regs icode \<longleftrightarrow> itype_of icode \<in> Some `
     {I_RRMOVQ, I_IRMOVQ, I_RMMOVQ, I_MRMOVQ, I_ALU, I_PUSHQ, I_POPQ}"

definition needs_imm :: "nat \<Rightarrow> bool" where
  "needs_imm icode \<longleftrightarrow> itype_of icode \<in> Some `
     {I_IRMOVQ, I_RMMOVQ, I_MRMOVQ, I_JMP, I_CALL}"

fun acc_bind :: "'a acc \<Rightarrow> ('a \<Rightarrow> 'b acc) \<Rightarrow> 'b acc" where
  "acc_bind Oob f = Oob"
| "acc_bind Rej f = Rej"
| "acc_bind (Acc x) f = f x"

definition fetch_code :: "y64sim_t \<Rightarrow> fetched acc" where
  "fetch_code sim =
     acc_bind (get_byte_val (sim_m sim) (sim_pc sim)) (\<lambda>codefun.
       Acc \<lparr>f_icode = HIGH codefun, f_ifun = LOW codefun, f_rega = 0, f_regb = 0, f_imm = 0,
            f_next_pc = sim_pc sim + 1\<rparr>)"

definition fetch_regs :: "y64sim_t \<Rightarrow> fetched \<Rightarrow> fetched acc" where
  "fetch_regs sim f =
     (if needs_regs (f_icode f) then
        acc_bind (get_byte_val (sim_m sim) (f_next_pc f)) (\<lambda>nextb.
          Acc (f\<lparr>f_rega := int (HIGH nextb), f_regb := int (LOW nextb),
                 f_next_pc := f_next_pc f + 1\<rparr>))
      else Acc f)"

definition fetch_imm :: "y64sim_t \<Rightarrow> fetched \<Rightarrow> fetched acc" where
  "fetch_imm sim f =
     (if needs_imm (f_icode f) then
        acc_bind (get_long_val (sim_m sim) (f_next_pc f)) (\<lambda>nextv.
          Acc (f\<lparr>f_imm := nextv, f_next_pc := f_next_pc f + 8\<rparr>))
      else Acc f)"

definition fetch :: "y64sim_t \<Rightarrow> fetched acc" where
  "fetch sim = acc_bind (fetch_code sim) (\<lambda>f. acc_bind (fetch_regs sim f) (fetch_imm sim))"

text \<open>The cases of the switch.  Each returns the status and the state it leaves.\<close>

type_synonym step_result = "(stat_t \<times> y64sim_t) option"

definition exec_rrmovq :: "fetched \<Rightarrow> y64sim_t \<Rightarrow> step_result" where
  "exec_rrmovq f sim =
     (case cond_of (f_ifun f) of
        None \<Rightarrow> Some (STAT_INS, sim)
      | Some cond \<Rightarrow>
          if cond_doit (sim_cc sim) cond then
            do { tempv \<leftarrow> get_reg_val (sim_r sim) (f_rega f);
                 r \<leftarrow> set_reg_val (sim_r sim) (f_regb f) tempv;
                 Some (STAT_AOK, sim\<lparr>sim_r := r, sim_pc := f_next_pc f\<rparr>) }
          else Some (STAT_AOK, sim\<lparr>sim_pc := f_next_pc f\<rparr>))"

definition exec_irmovq :: "fetched \<Rightarrow> y64sim_t \<Rightarrow> step_result" where
  "exec_irmovq f sim =
     do { r \<leftarrow> set_reg_val (sim_r sim) (f_regb f) (f_imm f);
          Some (STAT_AOK, sim\<lparr>sim_r := r, sim_pc := f_next_pc f\<rparr>) }"

definition exec_rmmovq :: "fetched \<Rightarrow> y64sim_t \<Rightarrow> step_result" where
  "exec_rmmovq f sim =
     do { tempv \<leftarrow> get_reg_val (sim_r sim) (f_rega f);
          base \<leftarrow> get_reg_val (sim_r sim) (f_regb f);
          case set_long_val (sim_m sim) (base + f_imm f) tempv of
            Oob \<Rightarrow> None
          | Rej \<Rightarrow> Some (STAT_ADR, sim)
          | Acc m \<Rightarrow> Some (STAT_AOK, sim\<lparr>sim_m := m, sim_pc := f_next_pc f\<rparr>) }"

definition exec_mrmovq :: "fetched \<Rightarrow> y64sim_t \<Rightarrow> step_result" where
  "exec_mrmovq f sim =
     do { base \<leftarrow> get_reg_val (sim_r sim) (f_regb f);
          case get_long_val (sim_m sim) (base + f_imm f) of
            Oob \<Rightarrow> None
          | Rej \<Rightarrow> Some (STAT_ADR, sim)
          | Acc tempv \<Rightarrow>
              do { r \<leftarrow> set_reg_val (sim_r sim) (f_rega f) tempv;
                   Some (STAT_AOK, sim\<lparr>sim_r := r, sim_pc := f_next_pc f\<rparr>) } }"

definition exec_alu :: "fetched \<Rightarrow> y64sim_t \<Rightarrow> step_result" where
  "exec_alu f sim =
     (case alu_of (f_ifun f) of
        None \<Rightarrow> Some (STAT_INS, sim)
      | Some ifun \<Rightarrow>
          if ifun = A_NONE then Some (STAT_INS, sim)
          else do { tempva \<leftarrow> get_reg_val (sim_r sim) (f_rega f);
                    tempvb \<leftarrow> get_reg_val (sim_r sim) (f_regb f);
                    let tempv = compute_alu ifun tempva tempvb;
                    r \<leftarrow> set_reg_val (sim_r sim) (f_regb f) tempv;
                    Some (STAT_AOK, sim\<lparr>sim_r := r, sim_cc := compute_cc ifun tempva tempvb tempv,
                                        sim_pc := f_next_pc f\<rparr>) })"

definition exec_jmp :: "fetched \<Rightarrow> y64sim_t \<Rightarrow> step_result" where
  "exec_jmp f sim =
     (case cond_of (f_ifun f) of
        None \<Rightarrow> Some (STAT_INS, sim)
      | Some cond \<Rightarrow>
          Some (STAT_AOK, sim\<lparr>sim_pc := (if cond_doit (sim_cc sim) cond then f_imm f
                                         else f_next_pc f)\<rparr>))"

definition exec_call :: "fetched \<Rightarrow> y64sim_t \<Rightarrow> step_result" where
  "exec_call f sim =
     do { valb \<leftarrow> get_reg_val (sim_r sim) REG_RSP;
          let vale = compute_alu A_ADD valb (-8);
          r \<leftarrow> set_reg_val (sim_r sim) REG_RSP vale;
          case set_long_val (sim_m sim) (valb - 8) (f_next_pc f) of
            Oob \<Rightarrow> None
          | Rej \<Rightarrow> Some (STAT_ADR, sim\<lparr>sim_r := r\<rparr>)
          | Acc m \<Rightarrow> Some (STAT_AOK, sim\<lparr>sim_r := r, sim_m := m, sim_pc := f_imm f\<rparr>) }"

definition exec_ret :: "fetched \<Rightarrow> y64sim_t \<Rightarrow> step_result" where
  "exec_ret f sim =
     do { vala \<leftarrow> get_reg_val (sim_r sim) REG_RSP;
          valb \<leftarrow> get_reg_val (sim_r sim) REG_RSP;
          let vale = compute_alu A_ADD valb 8;
          case get_long_val (sim_m sim) vala of
            Oob \<Rightarrow> None
          | Rej \<Rightarrow> Some (STAT_ADR, sim)
          | Acc valm \<Rightarrow>
              do { r \<leftarrow> set_reg_val (sim_r sim) REG_RSP vale;
                   Some (STAT_AOK, sim\<lparr>sim_r := r, sim_pc := valm\<rparr>) } }"

definition exec_pushq :: "fetched \<Rightarrow> y64sim_t \<Rightarrow> step_result" where
  "exec_pushq f sim =
     do { vala \<leftarrow> get_reg_val (sim_r sim) (f_rega f);
          valb \<leftarrow> get_reg_val (sim_r sim) REG_RSP;
          let vale = compute_alu A_ADD valb (-8);
          r \<leftarrow> set_reg_val (sim_r sim) REG_RSP vale;
          case set_long_val (sim_m sim) vale vala of
            Oob \<Rightarrow> None
          | Rej \<Rightarrow> Some (STAT_ADR, sim\<lparr>sim_r := r\<rparr>)
          | Acc m \<Rightarrow> Some (STAT_AOK, sim\<lparr>sim_r := r, sim_m := m, sim_pc := f_next_pc f\<rparr>) }"

definition exec_popq :: "fetched \<Rightarrow> y64sim_t \<Rightarrow> step_result" where
  "exec_popq f sim =
     do { vala \<leftarrow> get_reg_val (sim_r sim) REG_RSP;
          valb \<leftarrow> get_reg_val (sim_r sim) REG_RSP;
          let vale = compute_alu A_ADD valb 8;
          case get_long_val (sim_m sim) vala of
            Oob \<Rightarrow> None
          | Rej \<Rightarrow> Some (STAT_ADR, sim)
          | Acc valm \<Rightarrow>
              do { r \<leftarrow> set_reg_val (sim_r sim) REG_RSP vale;
                   r' \<leftarrow> set_reg_val r (f_rega f) valm;
                   Some (STAT_AOK, sim\<lparr>sim_r := r', sim_pc := f_next_pc f\<rparr>) } }"

definition exec :: "fetched \<Rightarrow> y64sim_t \<Rightarrow> step_result" where
  "exec f sim =
     (case itype_of (f_icode f) of
        Some I_HALT \<Rightarrow> Some (STAT_HLT, sim)
      | Some I_NOP \<Rightarrow> Some (STAT_AOK, sim\<lparr>sim_pc := f_next_pc f\<rparr>)
      | Some I_RRMOVQ \<Rightarrow> exec_rrmovq f sim
      | Some I_IRMOVQ \<Rightarrow> exec_irmovq f sim
      | Some I_RMMOVQ \<Rightarrow> exec_rmmovq f sim
      | Some I_MRMOVQ \<Rightarrow> exec_mrmovq f sim
      | Some I_ALU \<Rightarrow> exec_alu f sim
      | Some I_JMP \<Rightarrow> exec_jmp f sim
      | Some I_CALL \<Rightarrow> exec_call f sim
      | Some I_RET \<Rightarrow> exec_ret f sim
      | Some I_PUSHQ \<Rightarrow> exec_pushq f sim
      | Some I_POPQ \<Rightarrow> exec_popq f sim
      | _ \<Rightarrow> Some (STAT_INS, sim))"

definition nexti :: "y64sim_t \<Rightarrow> step_result" where
  "nexti sim = (case fetch sim of
                  Oob \<Rightarrow> None
                | Rej \<Rightarrow> Some (STAT_ADR, sim)
                | Acc f \<Rightarrow> exec f sim)"

section \<open>The program\<close>

definition new_y64sim :: "int \<Rightarrow> y64sim_t" where
  "new_y64sim slen = \<lparr>sim_pc = 0, sim_r = init_reg, sim_m = init_mem slen, sim_cc = DEFAULT_CC\<rparr>"

text \<open>
  \<open>load_binfile\<close> on a file with content \<open>f\<close>; \<open>err\<close> tells whether \<open>fread\<close> met a read error.  At
  most \<open>len\<close> bytes are read, and the end-of-file flag is set only when fewer than \<open>len\<close> were.
\<close>

definition load_binfile :: "mem_t \<Rightarrow> byte list \<Rightarrow> bool \<Rightarrow> int \<times> mem_t" where
  "load_binfile m f err =
     (let got = take (nat (len m)) f;
          m' = m\<lparr>data := splice (data m) 0 got\<rparr>
      in if err then (-1, m')
         else if int (length got) = len m then (-1, m')
         else (0, m'))"

text \<open>The loop of \<open>main\<close>: \<open>fuel\<close> is \<open>max_steps - step\<close>.\<close>

fun run_loop :: "nat \<Rightarrow> int \<Rightarrow> stat_t \<Rightarrow> y64sim_t \<Rightarrow> (int \<times> stat_t \<times> y64sim_t) option" where
  "run_loop 0 step e sim = Some (step, e, sim)"
| "run_loop (Suc n) step e sim =
     (if e = STAT_AOK then
        do { (e', sim') \<leftarrow> nexti sim; run_loop n (step + 1) e' sim' }
      else Some (step, e, sim))"

definition run_sim :: "int \<Rightarrow> y64sim_t \<Rightarrow> (int \<times> stat_t \<times> y64sim_t) option" where
  "run_sim max_steps sim = run_loop (nat max_steps) 0 STAT_AOK sim"

text \<open>
  \<open>main\<close> once the file is open: load, save the initial state, run, and compare.  The result is the
  exit code and, for a run, what is printed: steps, final state and status, register and memory
  changes.
\<close>

definition sim_main :: "byte list \<Rightarrow> bool \<Rightarrow> int \<Rightarrow>
    (int \<times> (int \<times> stat_t \<times> y64sim_t \<times> (string \<times> long \<times> long) list \<times> (int \<times> long \<times> long) list) option) option"
  where
  "sim_main file err max_steps =
     (let sim = new_y64sim MEM_SIZE; (rc, m) = load_binfile (sim_m sim) file err
      in if rc < 0 then Some (1, None)
         else let sim1 = sim\<lparr>sim_m := m\<rparr>; saver = dup_reg (sim_r sim1); savem = dup_mem (sim_m sim1)
              in do { (step, e, sim') \<leftarrow> run_sim max_steps sim1;
                      (_, dr) \<leftarrow> diff_reg saver (sim_r sim') True;
                      (_, dm) \<leftarrow> diff_mem savem (sim_m sim') True;
                      Some (0, Some (step, e, sim', dr, dm)) })"

end
