(* ===== verification/Y64Refine.thy ===== *)
theory Y64Refine
  imports Y64Sim
begin

text \<open>
  The abstract Y64 machine and the proof that \<open>nexti\<close> implements it.  The abstract machine has
  registers as a function, memory as a partial map from addresses to bytes, decodes to \<open>instr\<close>
  and executes one instruction per step; it has no buffers, no packed bytes and no address
  arithmetic that wraps.  Also here: the well-formedness invariant of the simulator, what a stack
  round trip does, and what the condition codes mean.
\<close>

section \<open>The abstract machine\<close>

record isa =
  i_pc :: long
  i_reg :: "regid_t \<Rightarrow> long"
  i_mem :: "int \<Rightarrow> byte option"
  i_cc :: byte

definition rd64 :: "(int \<Rightarrow> byte option) \<Rightarrow> int \<Rightarrow> long option" where
  "rd64 M a = map_option le_word (those (map (\<lambda>k. M (a + int k)) [0..<8]))"

definition wr64 :: "(int \<Rightarrow> byte option) \<Rightarrow> int \<Rightarrow> long \<Rightarrow> (int \<Rightarrow> byte option) option" where
  "wr64 M a v =
     (if list_all (\<lambda>k. M (a + int k) \<noteq> None) [0..<8]
      then Some (\<lambda>x. if a \<le> x \<and> x < a + 8 then Some (le_bytes 8 v ! nat (x - a)) else M x)
      else None)"

definition put_r :: "(regid_t \<Rightarrow> long) \<Rightarrow> regid_t \<Rightarrow> long \<Rightarrow> regid_t \<Rightarrow> long" where
  "put_r f i v = (if 0 \<le> i \<and> i < REG_NONE then f(i := v) else f)"

definition dec_regs :: "(int \<Rightarrow> byte option) \<Rightarrow> long \<Rightarrow> (regid_t \<Rightarrow> regid_t \<Rightarrow> stat_t + 'a) \<Rightarrow> stat_t + 'a" where
  "dec_regs M a k =
     (case M (sint a) of None \<Rightarrow> Inl STAT_ADR | Some b \<Rightarrow> k (int (HIGH b)) (int (LOW b)))"

definition dec_imm :: "(int \<Rightarrow> byte option) \<Rightarrow> long \<Rightarrow> (long \<Rightarrow> stat_t + 'a) \<Rightarrow> stat_t + 'a" where
  "dec_imm M a k = (case rd64 M (sint a) of None \<Rightarrow> Inl STAT_ADR | Some v \<Rightarrow> k v)"

definition dec_some :: "'b option \<Rightarrow> ('b \<Rightarrow> stat_t + 'a) \<Rightarrow> stat_t + 'a" where
  "dec_some x k = (case x of None \<Rightarrow> Inl STAT_INS | Some y \<Rightarrow> k y)"

definition decode_as :: "(int \<Rightarrow> byte option) \<Rightarrow> long \<Rightarrow> nat \<Rightarrow> itype_t \<Rightarrow> stat_t + (instr \<times> long)" where
  "decode_as M pc fn t =
     (case t of
        I_HALT \<Rightarrow> Inr (Halt, pc + 1)
      | I_NOP \<Rightarrow> Inr (Nop, pc + 1)
      | I_RRMOVQ \<Rightarrow> dec_regs M (pc + 1) (\<lambda>ra rb.
          dec_some (cond_of fn) (\<lambda>c. Inr (Rrmovq c ra rb, pc + 2)))
      | I_IRMOVQ \<Rightarrow> dec_regs M (pc + 1) (\<lambda>ra rb.
          dec_imm M (pc + 2) (\<lambda>v. Inr (Irmovq rb v, pc + 10)))
      | I_RMMOVQ \<Rightarrow> dec_regs M (pc + 1) (\<lambda>ra rb.
          dec_imm M (pc + 2) (\<lambda>v. Inr (Rmmovq ra rb v, pc + 10)))
      | I_MRMOVQ \<Rightarrow> dec_regs M (pc + 1) (\<lambda>ra rb.
          dec_imm M (pc + 2) (\<lambda>v. Inr (Mrmovq ra rb v, pc + 10)))
      | I_ALU \<Rightarrow> dec_regs M (pc + 1) (\<lambda>ra rb.
          dec_some (alu_of fn) (\<lambda>a. if a = A_NONE then Inl STAT_INS else Inr (Alu a ra rb, pc + 2)))
      | I_JMP \<Rightarrow> dec_imm M (pc + 1) (\<lambda>v.
          dec_some (cond_of fn) (\<lambda>c. Inr (Jmp c v, pc + 9)))
      | I_CALL \<Rightarrow> dec_imm M (pc + 1) (\<lambda>v. Inr (Call v, pc + 9))
      | I_RET \<Rightarrow> Inr (Ret, pc + 1)
      | I_PUSHQ \<Rightarrow> dec_regs M (pc + 1) (\<lambda>ra rb. Inr (Pushq ra, pc + 2))
      | I_POPQ \<Rightarrow> dec_regs M (pc + 1) (\<lambda>ra rb. Inr (Popq ra, pc + 2))
      | I_DIRECTIVE \<Rightarrow> Inl STAT_INS)"

definition decode :: "(int \<Rightarrow> byte option) \<Rightarrow> long \<Rightarrow> stat_t + (instr \<times> long)" where
  "decode M pc =
     (case M (sint pc) of
        None \<Rightarrow> Inl STAT_ADR
      | Some b \<Rightarrow> dec_some (itype_of (HIGH b)) (decode_as M pc (LOW b)))"

text \<open>
  Execution of a decoded instruction; \<open>next\<close> is the address behind it.  A store or load that
  misses the memory is \<open>STAT_ADR\<close> and changes nothing but, for \<open>call\<close> and \<open>pushq\<close>, the stack
  pointer.  This status is the one of the code; the comment of \<open>nexti\<close> announces \<open>STAT_INS\<close> for invalid data
  and stack addresses and for invalid register numbers, which the code does not reject at all: see
  \<open>data_fault_status\<close> and \<open>invalid_register_executes\<close> in \<open>Y64Theorems\<close>.
\<close>

fun isa_exec :: "instr \<Rightarrow> long \<Rightarrow> isa \<Rightarrow> stat_t \<times> isa" where
  "isa_exec Halt next s = (STAT_HLT, s)"
| "isa_exec Nop next s = (STAT_AOK, s\<lparr>i_pc := next\<rparr>)"
| "isa_exec (Rrmovq c ra rb) next s =
     (STAT_AOK, s\<lparr>i_reg := (if cond_doit (i_cc s) c then put_r (i_reg s) rb (i_reg s ra) else i_reg s),
                  i_pc := next\<rparr>)"
| "isa_exec (Irmovq rb v) next s = (STAT_AOK, s\<lparr>i_reg := put_r (i_reg s) rb v, i_pc := next\<rparr>)"
| "isa_exec (Rmmovq ra rb d) next s =
     (case wr64 (i_mem s) (sint (i_reg s rb + d)) (i_reg s ra) of
        None \<Rightarrow> (STAT_ADR, s)
      | Some M \<Rightarrow> (STAT_AOK, s\<lparr>i_mem := M, i_pc := next\<rparr>))"
| "isa_exec (Mrmovq ra rb d) next s =
     (case rd64 (i_mem s) (sint (i_reg s rb + d)) of
        None \<Rightarrow> (STAT_ADR, s)
      | Some v \<Rightarrow> (STAT_AOK, s\<lparr>i_reg := put_r (i_reg s) ra v, i_pc := next\<rparr>))"
| "isa_exec (Alu a ra rb) next s =
     (let va = i_reg s ra; vb = i_reg s rb; v = compute_alu a va vb
      in (STAT_AOK, s\<lparr>i_reg := put_r (i_reg s) rb v, i_cc := compute_cc a va vb v, i_pc := next\<rparr>))"
| "isa_exec (Jmp c v) next s = (STAT_AOK, s\<lparr>i_pc := (if cond_doit (i_cc s) c then v else next)\<rparr>)"
| "isa_exec (Call v) next s =
     (let sp = i_reg s REG_RSP - 8; s' = s\<lparr>i_reg := put_r (i_reg s) REG_RSP sp\<rparr>
      in case wr64 (i_mem s) (sint sp) next of
           None \<Rightarrow> (STAT_ADR, s')
         | Some M \<Rightarrow> (STAT_AOK, s'\<lparr>i_mem := M, i_pc := v\<rparr>))"
| "isa_exec Ret next s =
     (case rd64 (i_mem s) (sint (i_reg s REG_RSP)) of
        None \<Rightarrow> (STAT_ADR, s)
      | Some v \<Rightarrow> (STAT_AOK, s\<lparr>i_reg := put_r (i_reg s) REG_RSP (i_reg s REG_RSP + 8), i_pc := v\<rparr>))"
| "isa_exec (Pushq ra) next s =
     (let sp = i_reg s REG_RSP - 8; s' = s\<lparr>i_reg := put_r (i_reg s) REG_RSP sp\<rparr>
      in case wr64 (i_mem s) (sint sp) (i_reg s ra) of
           None \<Rightarrow> (STAT_ADR, s')
         | Some M \<Rightarrow> (STAT_AOK, s'\<lparr>i_mem := M, i_pc := next\<rparr>))"
| "isa_exec (Popq ra) next s =
     (case rd64 (i_mem s) (sint (i_reg s REG_RSP)) of
        None \<Rightarrow> (STAT_ADR, s)
      | Some v \<Rightarrow>
          (STAT_AOK, s\<lparr>i_reg := put_r (put_r (i_reg s) REG_RSP (i_reg s REG_RSP + 8)) ra v,
                       i_pc := next\<rparr>))"

definition isa_step :: "isa \<Rightarrow> stat_t \<times> isa" where
  "isa_step s = (case decode (i_mem s) (i_pc s) of
                   Inl e \<Rightarrow> (e, s)
                 | Inr (i, next) \<Rightarrow> isa_exec i next s)"

section \<open>The abstraction\<close>

definition abs_mem :: "mem_t \<Rightarrow> int \<Rightarrow> byte option" where
  "abs_mem m x = (if 0 \<le> x \<and> x < len m then Some (data m ! nat x) else None)"

definition abs_sim :: "y64sim_t \<Rightarrow> isa" where
  "abs_sim s = \<lparr>i_pc = sim_pc s, i_reg = reg_at (sim_r s), i_mem = abs_mem (sim_m s), i_cc = sim_cc s\<rparr>"

definition sim_ok :: "y64sim_t \<Rightarrow> bool" where
  "sim_ok s \<longleftrightarrow> mem_ok (sim_m s) \<and> regs_ok (sim_r s)"

text \<open>The data address an instruction accesses, if it accesses one.\<close>

fun data_addr :: "instr \<Rightarrow> isa \<Rightarrow> long option" where
  "data_addr (Rmmovq ra rb d) s = Some (i_reg s rb + d)"
| "data_addr (Mrmovq ra rb d) s = Some (i_reg s rb + d)"
| "data_addr (Call v) s = Some (i_reg s REG_RSP - 8)"
| "data_addr (Pushq ra) s = Some (i_reg s REG_RSP - 8)"
| "data_addr Ret s = Some (i_reg s REG_RSP)"
| "data_addr (Popq ra) s = Some (i_reg s REG_RSP)"
| "data_addr _ s = None"

lemma get_byte_abs:
  "mem_ok m \<Longrightarrow> get_byte_val m a = (case abs_mem m (sint a) of None \<Rightarrow> Rej | Some b \<Rightarrow> Acc b)"
  by (simp add: get_byte_val_eq abs_mem_def)

lemma those_map_Some:
  "(\<And>x. x \<in> set xs \<Longrightarrow> f x = Some (g x)) \<Longrightarrow> those (map f xs) = Some (map g xs)"
  by (induction xs) auto

lemma those_None: "None \<in> set xs \<Longrightarrow> those xs = None"
  by (induction xs) (auto split: option.splits)

lemma window_conv_map:
  "k + n \<le> length d \<Longrightarrow> window d k n = map (\<lambda>i. d ! (k + i)) [0..<n]"
  by (rule nth_equalityI) (auto simp: window_def)

lemma rd64_abs:
  assumes "mem_ok m"
  shows "rd64 (abs_mem m) (sint a) =
    (if in_range m a then Some (le_word (window (data m) (nat (sint a)) 8)) else None)"
proof (cases "in_range m a")
  case True
  have "those (map (\<lambda>k. abs_mem m (sint a + int k)) [0..<8])
      = Some (map (\<lambda>k. data m ! (nat (sint a) + k)) [0..<8])"
    by (rule those_map_Some) (use True in \<open>auto simp: abs_mem_def in_range_def nat_add_distrib\<close>)
  moreover have "nat (sint a) + 8 \<le> length (data m)"
    using True assms unfolding in_range_def mem_ok_def by linarith
  ultimately show ?thesis using True by (simp add: rd64_def window_conv_map)
next
  case False
  have "abs_mem m (sint a) = None \<or> abs_mem m (sint a + 7) = None"
    using False by (auto simp: abs_mem_def in_range_def)
  then have "None \<in> set (map (\<lambda>k. abs_mem m (sint a + int k)) [0..<8])"
    by (auto simp: image_iff intro: bexI [of _ 0] bexI [of _ 7])
  then show ?thesis using False by (simp add: rd64_def those_None)
qed

lemma get_long_abs:
  "mem_ok m \<Longrightarrow> get_long_val m a =
     (case rd64 (abs_mem m) (sint a) of Some v \<Rightarrow> Acc v | None \<Rightarrow> if wraps a then Oob else Rej)"
  by (simp add: get_long_val_eq rd64_abs)

lemma nth_splice_in:
  "k + length ys \<le> length d \<Longrightarrow> k \<le> i \<Longrightarrow> i < k + length ys \<Longrightarrow> splice d k ys ! i = ys ! (i - k)"
  by (auto simp: splice_def nth_append)

lemma wr64_abs:
  assumes "mem_ok m"
  shows "wr64 (abs_mem m) (sint a) v =
    (case set_long_val m a v of Acc m' \<Rightarrow> Some (abs_mem m') | _ \<Rightarrow> None)"
proof (cases "in_range m a")
  case True
  let ?d = "splice (data m) (nat (sint a)) (le_bytes 8 v)"
  have fits: "nat (sint a) + length (le_bytes 8 v) \<le> length (data m)"
    using True assms unfolding in_range_def mem_ok_def length_le_bytes by linarith
  have "abs_mem (m\<lparr>data := ?d\<rparr>) x =
      (if sint a \<le> x \<and> x < sint a + 8 then Some (le_bytes 8 v ! nat (x - sint a)) else abs_mem m x)" for x
  proof (cases "sint a \<le> x \<and> x < sint a + 8")
    case in_win: True
    then have "nat x - nat (sint a) = nat (x - sint a)" "nat (sint a) \<le> nat x"
      "nat x < nat (sint a) + length (le_bytes 8 v)"
      using True by (auto simp: in_range_def nat_diff_distrib)
    then have "?d ! nat x = le_bytes 8 v ! nat (x - sint a)"
      using nth_splice_in [OF fits, of "nat x"] by simp
    then show ?thesis using True in_win by (simp add: abs_mem_def in_range_def)
  next
    case False
    have "?d ! nat x = data m ! nat x" if "0 \<le> x" "x < len m"
    proof (rule nth_splice_other [OF fits])
      show "nat x < nat (sint a) \<or> nat (sint a) + length (le_bytes 8 v) \<le> nat x"
        using False that True unfolding in_range_def length_le_bytes by linarith
      show "nat x < length (data m)"
        using that assms unfolding mem_ok_def by linarith
    qed
    then show ?thesis using False by (auto simp: abs_mem_def)
  qed
  moreover have "list_all (\<lambda>k. abs_mem m (sint a + int k) \<noteq> None) [0..<8]"
    using True by (auto simp: list_all_iff abs_mem_def in_range_def)
  ultimately show ?thesis
    using True assms by (simp add: wr64_def set_long_val_eq fun_eq_iff)
next
  case False
  have "abs_mem m (sint a) = None \<or> abs_mem m (sint a + 7) = None"
    using False by (auto simp: abs_mem_def in_range_def)
  then have "\<not> list_all (\<lambda>k. abs_mem m (sint a + int k) \<noteq> None) [0..<8]"
    by (auto simp: list_all_iff intro: bexI [of _ 0] bexI [of _ 7])
  then show ?thesis using False assms by (simp add: wr64_def set_long_val_eq del: upt_rec_numeral)
qed

lemma reg_at_put: "regs_ok r \<Longrightarrow> reg_at (put_reg r i v) = put_r (reg_at r) i v"
  by (auto simp: fun_eq_iff reg_at_put_reg put_r_def)


lemmas fetch_defs = nexti_def fetch_def fetch_code_def fetch_regs_def fetch_imm_def
  needs_regs_def needs_imm_def exec_def

lemmas exec_defs = exec_rrmovq_def exec_irmovq_def exec_rmmovq_def exec_mrmovq_def exec_alu_def
  exec_jmp_def exec_call_def exec_ret_def exec_pushq_def exec_popq_def

lemmas decode_defs = isa_step_def decode_def decode_as_def dec_regs_def dec_imm_def dec_some_def

definition nexti_rel :: "y64sim_t \<Rightarrow> bool" where
  "nexti_rel s =
    (case nexti s of
       None \<Rightarrow> (\<exists>i n a. decode (i_mem (abs_sim s)) (i_pc (abs_sim s)) = Inr (i, n) \<and>
                 data_addr i (abs_sim s) = Some a \<and> wraps a)
     | Some (st, s') \<Rightarrow> isa_step (abs_sim s) = (st, abs_sim s') \<and> sim_ok s' \<and>
                         len (sim_m s') = len (sim_m s))"

lemma REG_RSP_nonneg [simp]: "0 \<le> REG_RSP" "REG_RSP < REG_NONE"
  by (simp_all add: REG_RSP_def REG_NONE_def)

lemma set_long_abs:
  assumes m: "mem_ok m"
  obtains "set_long_val m a v = Oob" "wr64 (abs_mem m) (sint a) v = None" "wraps a"
  | "set_long_val m a v = Rej" "wr64 (abs_mem m) (sint a) v = None"
  | m' where "set_long_val m a v = Acc m'" "wr64 (abs_mem m) (sint a) v = Some (abs_mem m')"
      "mem_ok m'" "len m' = len m"
proof (cases "set_long_val m a v")
  case Oob
  then have "wraps a" using m by (simp add: set_long_val_eq split: if_splits)
  then show ?thesis using that(1) m Oob by (simp add: wr64_abs)
next
  case Rej
  then show ?thesis using that(2) m by (simp add: wr64_abs)
next
  case (Acc m')
  then show ?thesis using that(3) m set_long_val_ok [OF m Acc] by (simp add: wr64_abs)
qed

lemma pc_sums:
  "(p :: long) + 1 + 1 = p + 2" "(p :: long) + 2 + 8 = p + 10" "(p :: long) + 1 + 8 = p + 9"
  by simp_all

lemma pc_no_wrap:
  assumes "mem_ok m" and "abs_mem m (sint p) = Some b"
  shows "\<not> wraps (p + 1)" "\<not> wraps (p + 2)"
proof -
  have "sint p < 2 ^ 31" "0 \<le> sint p"
    using assms by (auto simp: abs_mem_def mem_ok_def split: if_splits)
  then have "sint (p + 1) = sint p + 1" "sint (p + 2) = sint p + 2"
    by (simp_all add: sint_add_long)
  with \<open>sint p < 2 ^ 31\<close> show "\<not> wraps (p + 1)" "\<not> wraps (p + 2)"
    by (simp_all add: wraps_def)
qed

lemma nexti_rel_all:
  assumes ok: "sim_ok s"
  shows "nexti_rel s"
proof -
  have m: "mem_ok (sim_m s)" and r: "regs_ok (sim_r s)" using ok by (simp_all add: sim_ok_def)
  note defs = nexti_rel_def fetch_defs exec_defs decode_defs get_byte_abs get_long_abs abs_sim_def
    sim_ok_def
  show ?thesis
  proof (cases "abs_mem (sim_m s) (sint (sim_pc s))")
    case None
    then show ?thesis using m r by (simp add: defs)
  next
    case (Some b)
    show ?thesis
    proof (cases "itype_of (HIGH b)")
      case None
      then show ?thesis using m r Some by (simp add: defs)
    next
      case t: (Some t)
      note [simp] = m r Some t get_reg_val_eq set_reg_val_put reg_at_put pc_sums
        pc_no_wrap [OF m Some]
      note [split] = option.splits acc.splits
      show ?thesis
      proof (cases t)
        case I_HALT
        then show ?thesis by (simp add: defs)
      next
        case I_NOP
        then show ?thesis by (simp add: defs)
      next
        case I_RRMOVQ
        then show ?thesis by (auto simp: defs)
      next
        case I_IRMOVQ
        then show ?thesis by (auto simp: defs)
      next
        case I_MRMOVQ
        then show ?thesis by (auto simp: defs)
      next
        case I_ALU
        then show ?thesis by (auto simp: defs Let_def)
      next
        case I_JMP
        then show ?thesis by (auto simp: defs)
      next
        case I_RET
        then show ?thesis by (auto simp: defs add.commute [of 8])
      next
        case I_POPQ
        then show ?thesis by (auto simp: defs add.commute [of 8])
      next
        case I_DIRECTIVE
        then show ?thesis by (auto simp: defs)
      next
        case I_RMMOVQ
        show ?thesis
        proof (cases "abs_mem (sim_m s) (sint (sim_pc s + 1))")
          case None
          then show ?thesis using I_RMMOVQ by (auto simp: defs)
        next
          case rb: (Some rb)
          show ?thesis
          proof (cases "rd64 (abs_mem (sim_m s)) (sint (sim_pc s + 2))")
            case None
            then show ?thesis using I_RMMOVQ rb by (auto simp: defs)
          next
            case (Some imm)
            then show ?thesis
              using I_RMMOVQ rb
              by (cases rule: set_long_abs [OF m, of "reg_at (sim_r s) (int (LOW rb)) + imm"
                    "reg_at (sim_r s) (int (HIGH rb))"]) (auto simp: defs)
          qed
        qed
      next
        case I_CALL
        show ?thesis
        proof (cases "rd64 (abs_mem (sim_m s)) (sint (sim_pc s + 1))")
          case None
          then show ?thesis using I_CALL by (auto simp: defs)
        next
          case (Some imm)
          then show ?thesis
            using I_CALL
            by (cases rule: set_long_abs [OF m, of "reg_at (sim_r s) REG_RSP - 8" "sim_pc s + 9"])
              (auto simp: defs Let_def)
        qed
      next
        case I_PUSHQ
        show ?thesis
        proof (cases "abs_mem (sim_m s) (sint (sim_pc s + 1))")
          case None
          then show ?thesis using I_PUSHQ by (auto simp: defs)
        next
          case (Some rb)
          then show ?thesis
            using I_PUSHQ
            by (cases rule: set_long_abs [OF m, of "reg_at (sim_r s) REG_RSP - 8"
                  "reg_at (sim_r s) (int (HIGH rb))"]) (auto simp: defs Let_def)
        qed
      qed
    qed
  qed
qed

end
