(* ===== verification/Y64Theorems.thy ===== *)
theory Y64Theorems
  imports Y64Refine
begin

text \<open>
  The properties of the Y64 simulator: refinement of the abstract machine and memory safety, the
  well-formedness invariant over a whole run, decoding of encoded instructions, the stack
  discipline of push, pop, call and return, and what the condition codes compare.
\<close>

section \<open>Decoding what was encoded\<close>

definition holds_at :: "(int \<Rightarrow> byte option) \<Rightarrow> int \<Rightarrow> byte list \<Rightarrow> bool" where
  "holds_at M a bs \<longleftrightarrow> (\<forall>k < length bs. M (a + int k) = Some (bs ! k))"

lemma holds_at_Cons [simp]:
  "holds_at M a (b # bs) \<longleftrightarrow> M a = Some b \<and> holds_at M (a + 1) bs"
  by (auto simp: holds_at_def less_Suc_eq_0_disj add.assoc)

lemma rd64_holds:
  assumes "holds_at M a (le_bytes 8 v)"
  shows "rd64 M a = Some v"
proof -
  have "those (map (\<lambda>k. M (a + int k)) [0..<8]) = Some (map (\<lambda>k. le_bytes 8 v ! k) [0..<8])"
    by (rule those_map_Some) (use assms in \<open>auto simp: holds_at_def\<close>)
  also have "map (\<lambda>k. le_bytes 8 v ! k) [0..<8] = le_bytes 8 v"
    using map_nth [of "le_bytes 8 v"] by simp
  finally show ?thesis by (simp add: rd64_def)
qed

text \<open>Register fields hold a register number or 15, and the field an instruction ignores is 15.\<close>

definition reg_field :: "regid_t \<Rightarrow> bool" where
  "reg_field i \<longleftrightarrow> 0 \<le> i \<and> i < 16"

fun wf_instr :: "instr \<Rightarrow> bool" where
  "wf_instr (Rrmovq c ra rb) = (reg_field ra \<and> reg_field rb)"
| "wf_instr (Irmovq rb v) = reg_field rb"
| "wf_instr (Rmmovq ra rb v) = (reg_field ra \<and> reg_field rb)"
| "wf_instr (Mrmovq ra rb v) = (reg_field ra \<and> reg_field rb)"
| "wf_instr (Alu a ra rb) = (a \<noteq> A_NONE \<and> reg_field ra \<and> reg_field rb)"
| "wf_instr (Pushq ra) = reg_field ra"
| "wf_instr (Popq ra) = reg_field ra"
| "wf_instr _ = True"

lemma itype_of_numerals [simp]:
  "itype_of 0 = Some I_HALT" "itype_of (Suc 0) = Some I_NOP" "itype_of 2 = Some I_RRMOVQ"
  "itype_of 3 = Some I_IRMOVQ" "itype_of 4 = Some I_RMMOVQ" "itype_of 5 = Some I_MRMOVQ"
  "itype_of 6 = Some I_ALU" "itype_of 7 = Some I_JMP" "itype_of 8 = Some I_CALL"
  "itype_of 9 = Some I_RET" "itype_of 10 = Some I_PUSHQ" "itype_of 11 = Some I_POPQ"
  by (simp_all add: itype_of_def itypes_def rd_def)

lemma cond_code_bound [simp]: "cond_code c < 16"
  by (cases c) simp_all

lemma alu_code_bound [simp]: "alu_code a < 16"
  by (cases a) simp_all

lemma sint_pc_plus:
  "0 \<le> sint p \<Longrightarrow> sint p + 10 < 2 ^ 63 \<Longrightarrow> sint (p + 1 :: long) = sint p + 1"
  "0 \<le> sint p \<Longrightarrow> sint p + 10 < 2 ^ 63 \<Longrightarrow> sint (p + 2 :: long) = sint p + 2"
  by (simp_all add: sint_add_long)

lemma decode_encode:
  assumes "wf_instr i" and "holds_at M (sint p) (encode i)"
    and "0 \<le> sint p" and "sint p + 10 < 2 ^ 63"
  shows "decode M p = Inr (i, p + of_nat (length (encode i)))"
  using assms
  by (cases i)
    (auto simp: decode_defs reg_field_def sint_pc_plus rd64_holds add.commute [of 2])

section \<open>The addresses the bound test lets through\<close>

lemma get_long_wraps: "mem_ok m \<Longrightarrow> wraps a \<Longrightarrow> get_long_val m a = Oob"
  using in_range_not_wraps by (auto simp: get_long_val_eq)

lemma set_long_wraps: "mem_ok m \<Longrightarrow> wraps a \<Longrightarrow> set_long_val m a v = Oob"
  using in_range_not_wraps by (auto simp: set_long_val_eq)

lemma rd64_wraps: "mem_ok m \<Longrightarrow> wraps a \<Longrightarrow> rd64 (abs_mem m) (sint a) = None"
  using in_range_not_wraps by (auto simp: rd64_abs)

lemma nexti_wraps:
  assumes ok: "sim_ok s" and d: "decode (i_mem (abs_sim s)) (i_pc (abs_sim s)) = Inr (i, n)"
    and a: "data_addr i (abs_sim s) = Some a" and w: "wraps a"
  shows "nexti s = None"
proof -
  have m: "mem_ok (sim_m s)" and r: "regs_ok (sim_r s)" using ok by (simp_all add: sim_ok_def)
  from d obtain b t where b: "abs_mem (sim_m s) (sint (sim_pc s)) = Some b"
    and t: "itype_of (HIGH b) = Some t"
    by (auto simp: decode_def dec_some_def abs_sim_def split: option.splits)
  show ?thesis
    using d a w m r b t pc_no_wrap [OF m b]
    by (cases t)
      (auto simp: fetch_defs exec_defs decode_defs get_byte_abs get_long_abs abs_sim_def Let_def
        pc_sums get_reg_val_eq set_reg_val_put set_long_wraps get_long_wraps rd64_wraps add.commute [of 8]
        split: option.splits if_splits acc.splits)
qed

section \<open>What the condition codes compare\<close>

lemma GET_PACK:
  "nz (GET_ZF (PACK_CC z s v)) = z" "nz (GET_SF (PACK_CC z s v)) = s"
  "nz (GET_OF (PACK_CC z s v)) = v"
  by (cases z; cases s; cases v; simp add: nz_def GET_ZF_def GET_SF_def GET_OF_def PACK_CC_def)+

lemma GET_bits: "GET_ZF (PACK_CC z s v) = of_bool z" "GET_SF (PACK_CC z s v) = of_bool s"
  "GET_OF (PACK_CC z s v) = of_bool v"
  by (cases z; cases s; cases v; simp add: nz_def GET_ZF_def GET_SF_def GET_OF_def PACK_CC_def)+

lemma cond_doit_PACK:
  "cond_doit (PACK_CC z s v) c =
     (case c of C_YES \<Rightarrow> True | C_LE \<Rightarrow> z \<or> s \<noteq> v | C_L \<Rightarrow> s \<noteq> v | C_E \<Rightarrow> z | C_NE \<Rightarrow> \<not> z
      | C_GE \<Rightarrow> s = v | C_G \<Rightarrow> \<not> z \<and> s = v)"
  by (cases c; cases z; cases s; cases v; simp add: GET_bits nz_def)

definition sub_overflows :: "long \<Rightarrow> long \<Rightarrow> bool" where
  "sub_overflows a b \<longleftrightarrow> sint b - sint a < - (2 ^ 63) \<or> 2 ^ 63 \<le> sint b - sint a"

lemma sint_diff_cases:
  "sint (b - a :: long) = (if sint b - sint a < - (2 ^ 63) then sint b - sint a + 2 ^ 64
     else if 2 ^ 63 \<le> sint b - sint a then sint b - sint a - 2 ^ 64 else sint b - sint a)"
proof -
  have c: "sint (b - a) = y" if "b - a = word_of_int y" "- (2 ^ 63) \<le> y" "y < 2 ^ 63" for y
    unfolding that(1) by (rule sint_word_of_int_long) (use that in auto)
  have "sint (b - a) = sint b - sint a + 2 ^ 64" if "sint b - sint a < - (2 ^ 63)"
    by (rule c) (use that sint_long_bounds [of a] sint_long_bounds [of b] in simp_all)
  moreover have "sint (b - a) = sint b - sint a - 2 ^ 64" if "2 ^ 63 \<le> sint b - sint a"
    by (rule c) (use that sint_long_bounds [of a] sint_long_bounds [of b] in simp_all)
  ultimately show ?thesis
    by (auto simp: sint_diff_long)
qed

lemma compute_cc_parts:
  "compute_cc op a b v =
     PACK_CC (v = 0) (sint (ucast v :: 32 word) < 0) (nz (GET_OF (compute_cc op a b v)))"
  by (simp add: compute_cc_def Let_def GET_PACK)

lemma sub_OF:
  "nz (GET_OF (compute_cc A_SUB a b (compute_alu A_SUB a b))) \<longleftrightarrow>
     sub_overflows a b \<and> \<not> (b = 0 \<and> sint a = - (2 ^ 63))"
proof -
  have z: "b = 0 \<longleftrightarrow> sint b = 0" by (simp add: signed_eq_0_iff)
  show ?thesis
    using sint_long_bounds [of a] sint_long_bounds [of b]
    by (auto simp: compute_cc_def Let_def GET_PACK pos_def sub_overflows_def sint_diff_cases z)
qed

lemma sint_ucast32:
  "- (2 ^ 31) \<le> sint (v :: long) \<Longrightarrow> sint v < 2 ^ 31 \<Longrightarrow> sint (ucast v :: 32 word) = sint v"
proof -
  assume a: "- (2 ^ 31) \<le> sint v" "sint v < 2 ^ 31"
  have "(ucast v :: 32 word) = word_of_int (sint v)"
    by (rule bit_word_eqI) (simp add: bit_simps bit_sint_iff)
  then have "sint (ucast v :: 32 word) = signed_take_bit 31 (sint v)"
    by (simp only: sint_sbintrunc') simp
  then show ?thesis using a by (simp add: signed_take_bit_int_eq_self)
qed


text \<open>A comparison: \<open>subq\<close> followed by a conditional jump or move.\<close>

fun cmp_spec :: "cond_t \<Rightarrow> int \<Rightarrow> int \<Rightarrow> bool" where
  "cmp_spec C_YES y x = True"
| "cmp_spec C_LE y x = (y \<le> x)"
| "cmp_spec C_L y x = (y < x)"
| "cmp_spec C_E y x = (y = x)"
| "cmp_spec C_NE y x = (y \<noteq> x)"
| "cmp_spec C_GE y x = (y \<ge> x)"
| "cmp_spec C_G y x = (y > x)"

lemma cond_doit_subq:
  assumes "- (2 ^ 31) \<le> sint b - sint a" and "sint b - sint a < 2 ^ 31"
  shows "cond_doit (compute_cc A_SUB a b (compute_alu A_SUB a b)) c = cmp_spec c (sint b) (sint a)"
proof -
  let ?v = "compute_alu A_SUB a b"
  have v: "sint ?v = sint b - sint a"
    using assms by (simp add: sint_diff_long)
  have zf: "?v = 0 \<longleftrightarrow> sint b = sint a"
    using v signed_eq_0_iff [of ?v] by auto
  have sf: "sint (ucast ?v :: 32 word) < 0 \<longleftrightarrow> sint b < sint a"
    using assms v by (subst sint_ucast32) auto
  have of': "nz (GET_OF (compute_cc A_SUB a b ?v)) = False"
    unfolding sub_OF using assms by (simp add: sub_overflows_def)
  have "compute_cc A_SUB a b ?v = PACK_CC (sint b = sint a) (sint b < sint a) False"
    using zf sf of' by (subst compute_cc_parts) simp
  then show ?thesis by (simp only: cond_doit_PACK) (cases c; auto)
qed

text \<open>Of a condition and its opposite exactly one holds, for all flags; the names of the conditions are as in the assembler.\<close>

fun opposite :: "cond_t \<Rightarrow> cond_t option" where
  "opposite C_YES = None"
| "opposite C_LE = Some C_G" | "opposite C_G = Some C_LE"
| "opposite C_L = Some C_GE" | "opposite C_GE = Some C_L"
| "opposite C_E = Some C_NE" | "opposite C_NE = Some C_E"

lemma opposite_involutive: "\<forall>c. c \<noteq> C_YES \<longrightarrow> Option.bind (opposite c) opposite = Some c"
  by code_simp

lemma cond_doit_opposite:
  "opposite c = Some d \<Longrightarrow> cond_doit (PACK_CC z s ov) d \<longleftrightarrow> \<not> cond_doit (PACK_CC z s ov) c"
  unfolding cond_doit_PACK by (cases c) auto

lemma addq_OF_clear: "\<not> nz (GET_OF (compute_cc A_ADD a b v))"
  by (simp add: compute_cc_def Let_def GET_PACK)


section \<open>The stack, runs and error states of the abstract machine\<close>

lemma rd64_wr64: "wr64 M a v = Some M' \<Longrightarrow> rd64 M' a = Some v"
proof -
  assume "wr64 M a v = Some M'"
  then have M': "M' x = Some (le_bytes 8 v ! nat (x - a))" if "a \<le> x" "x < a + 8" for x
    using that by (auto simp: wr64_def simp del: upt_rec_numeral split: if_splits)
  have "those (map (\<lambda>k. M' (a + int k)) [0..<8]) = Some (map (\<lambda>k. le_bytes 8 v ! k) [0..<8])"
    by (rule those_map_Some) (use M' in auto)
  also have "map (\<lambda>k. le_bytes 8 v ! k) [0..<8] = le_bytes 8 v"
    using map_nth [of "le_bytes 8 v"] by simp
  finally show ?thesis by (simp add: rd64_def)
qed

lemma isa_push_pop:
  assumes "isa_exec (Pushq ra) n s = (STAT_AOK, s1)" and "isa_exec (Popq rb) n' s1 = (STAT_AOK, s2)"
    and "0 \<le> rb" and "rb < REG_NONE"
  shows "i_reg s2 = (i_reg s)(rb := i_reg s ra)"
  using assms
  by (auto simp: Let_def put_r_def fun_eq_iff dest: rd64_wr64 split: option.splits)

lemma isa_call_ret:
  assumes "isa_exec (Call v) n s = (STAT_AOK, s1)" and "isa_exec Ret n' s1 = (STAT_AOK, s2)"
  shows "i_reg s2 = i_reg s \<and> i_pc s2 = n"
  using assms
  by (auto simp: Let_def put_r_def fun_eq_iff dest: rd64_wr64 split: option.splits)

lemma isa_call_pc: "isa_exec (Call v) n s = (STAT_AOK, s1) \<Longrightarrow> i_pc s1 = v"
  by (auto simp: Let_def split: option.splits)

fun isa_run :: "nat \<Rightarrow> int \<Rightarrow> stat_t \<Rightarrow> isa \<Rightarrow> int \<times> stat_t \<times> isa" where
  "isa_run 0 step e s = (step, e, s)"
| "isa_run (Suc n) step e s =
     (if e = STAT_AOK then case isa_step s of (e', s') \<Rightarrow> isa_run n (step + 1) e' s'
      else (step, e, s))"

lemma run_loop_rel:
  assumes "sim_ok s" and "run_loop n step e s = Some (step', e', s')"
  shows "isa_run n step e (abs_sim s) = (step', e', abs_sim s') \<and> sim_ok s' \<and>
    len (sim_m s') = len (sim_m s) \<and> step \<le> step' \<and> step' \<le> step + int n \<and>
    (e' = STAT_AOK \<longrightarrow> step' = step + int n)"
  using assms
proof (induction n step e s rule: run_loop.induct)
  case (1 step e sim)
  then show ?case by simp
next
  case (2 n step e sim)
  show ?case
  proof (cases "e = STAT_AOK")
    case False
    then show ?thesis using "2.prems" by simp
  next
    case True
    then obtain st s1 where s1: "nexti sim = Some (st, s1)" "run_loop n (step + 1) st s1 = Some (step', e', s')"
      using "2.prems" by (auto split: bind_splits)
    have r: "nexti_rel sim" by (rule nexti_rel_all) (rule "2.prems")
    then show ?thesis
      using "2.IH" [OF True s1(1) refl] s1 True by (auto simp: nexti_rel_def)
  qed
qed

lemma nexti_error_frame:
  assumes "nexti s = Some (st, s')" and "st \<noteq> STAT_AOK"
  shows "sim_pc s' = sim_pc s \<and> sim_m s' = sim_m s \<and> sim_cc s' = sim_cc s"
  using assms
  by (auto simp: fetch_defs exec_defs Let_def split: acc.splits option.splits itype_t.splits if_splits bind_splits)

section \<open>Loading and comparing memories\<close>

definition long_at :: "mem_t \<Rightarrow> nat \<Rightarrow> long" where
  "long_at m k = le_word (window (data m) (8 * k) 8)"

definition differences :: "mem_t \<Rightarrow> mem_t \<Rightarrow> nat list \<Rightarrow> (int \<times> long \<times> long) list" where
  "differences oldm newm ks =
     map (\<lambda>k. (8 * int k, long_at oldm k, long_at newm k))
       (filter (\<lambda>k. long_at newm k \<noteq> long_at oldm k) ks)"

lemma long_or_0_at:
  assumes "mem_ok m" and "8 * int k + 8 \<le> len m"
  shows "long_or_0 m (word_of_int (8 * int k)) = Some (long_at m k)"
proof -
  have s: "sint (word_of_int (8 * int k) :: long) = 8 * int k"
    by (rule sint_word_of_int_long) (use assms in \<open>auto simp: mem_ok_def\<close>)
  then have "in_range m (word_of_int (8 * int k))"
    using assms unfolding in_range_def by linarith
  moreover have "nat (8 * int k) = 8 * k" by simp
  ultimately show ?thesis
    using assms(1) s by (simp only: long_or_0_def get_long_val_eq long_at_def if_True acc.case)
qed

lemma diff_loop_True:
  assumes "mem_ok oldm" and "mem_ok newm" and "8 * int m \<le> len oldm" and "8 * int m \<le> len newm"
    and "m - j \<le> n" and "j \<le> m"
  shows "diff_loop oldm newm True n (8 * int j) (8 * int m) d
    = Some (d \<or> differences oldm newm [j..<m] \<noteq> [], differences oldm newm [j..<m])"
  using assms(5,6)
proof (induction n arbitrary: j d)
  case 0
  then show ?case by (simp add: differences_def)
next
  case (Suc n)
  show ?case
  proof (cases "j < m")
    case False
    then show ?thesis using Suc.prems by (simp add: differences_def)
  next
    case True
    have l: "long_or_0 oldm (word_of_int (8 * int j)) = Some (long_at oldm j)"
      "long_or_0 newm (word_of_int (8 * int j)) = Some (long_at newm j)"
      using long_or_0_at [OF assms(1), of j] long_or_0_at [OF assms(2), of j] True assms(3,4)
      by simp_all
    have e: "8 * int j + 8 = 8 * int (Suc j)" by simp
    have ih: "diff_loop oldm newm True n (8 * int (Suc j)) (8 * int m) d' =
        Some (d' \<or> differences oldm newm [Suc j..<m] \<noteq> [], differences oldm newm [Suc j..<m])" for d'
      by (rule Suc.IH) (use True Suc.prems in auto)
    have "[j..<m] = j # [Suc j..<m]" using True by (simp add: upt_conv_Cons)
    then show ?thesis
      using True by (simp only: diff_loop.simps l e ih) (auto simp: differences_def)
  qed
qed

lemma diff_mem_differences:
  assumes "mem_ok oldm" and "mem_ok newm" and "len newm = len oldm" and "len oldm = 8 * int m"
  shows "diff_mem oldm newm True
    = Some (differences oldm newm [0..<m] \<noteq> [], differences oldm newm [0..<m])"
  using diff_loop_True [OF assms(1,2), of m 0 "nat (len oldm)" False] assms
  by (simp add: diff_mem_def Let_def)

lemma load_ok:
  assumes "mem_ok m" and "int (length f) < len m"
  shows "load_binfile m f False = (0, m\<lparr>data := f @ drop (length f) (data m)\<rparr>)"
  using assms by (simp add: load_binfile_def Let_def mem_ok_def splice_def)

lemma load_too_large:
  assumes "mem_ok m" and "len m \<le> int (length f)"
  shows "fst (load_binfile m f False) = -1"
  using assms by (simp add: load_binfile_def Let_def mem_ok_def)

section \<open>Statuses that differ from the comment of \<open>nexti\<close>\<close>

text \<open>
  The comment assigns \<open>STAT_INS\<close> to invalid data and stack addresses and to invalid register numbers.  The code
  returns \<open>STAT_ADR\<close> for the former, whatever the instruction, and executes instructions with register 15.
\<close>

lemma data_fault_status:
  assumes "sim_ok s" and "decode (abs_mem (sim_m s)) (sim_pc s) = Inr (i, next)"
    and "data_addr i (abs_sim s) = Some a" and "\<not> in_range (sim_m s) a" and "nexti s = Some (st, s')"
  shows "st = STAT_ADR"
proof -
  have m: "mem_ok (sim_m s)" using assms(1) by (simp add: sim_ok_def)
  have "rd64 (abs_mem (sim_m s)) (sint a) = None" "wr64 (abs_mem (sim_m s)) (sint a) v = None" for v
    using assms(4) by (simp_all add: rd64_abs [OF m] wr64_abs [OF m] set_long_val_eq [OF m])
  moreover have "isa_step (abs_sim s) = (st, abs_sim s')"
    using nexti_rel_all [OF assms(1)] assms(5) by (simp add: nexti_rel_def)
  moreover have "isa_step (abs_sim s) = isa_exec i next (abs_sim s)"
    using assms(2) by (simp add: isa_step_def abs_sim_def)
  moreover have "i_mem (abs_sim s) = abs_mem (sim_m s)" by (simp add: abs_sim_def)
  ultimately show ?thesis using assms(3) by (cases i) (auto simp: Let_def)
qed

lemma invalid_register_executes:
  "map_option fst (nexti ((new_y64sim 64)\<lparr>sim_m := (init_mem 64)\<lparr>data := splice (data (init_mem 64)) 0 [0x20, 0xFF]\<rparr>\<rparr>)) =
     Some STAT_AOK"
  by code_simp

section \<open>The properties\<close>

definition demo_sim :: y64sim_t where
  "demo_sim = (new_y64sim 64)\<lparr>sim_m := (init_mem 64)\<lparr>data := splice (data (init_mem 64)) 0
     (encode (Irmovq 4 64) @ encode (Pushq 4) @ encode (Popq 1) @ encode Halt)\<rparr>\<rparr>"

lemma demo_sim_ok: "sim_ok demo_sim"
  by (simp add: demo_sim_def sim_ok_def new_y64sim_def)
    (simp add: mem_ok_def init_mem_def Let_def BLK_SIZE_def)

text \<open>
  C1. \<open>nexti\<close> implements the abstract machine: from a well-formed state, whenever it returns, its
  status and its state are those of the abstract step, and the state is well formed again with a
  memory of the same size.  The abstract machine reports invalid data and stack addresses as the code does,
  with \<open>STAT_ADR\<close>, and not with \<open>STAT_INS\<close> as the comment of \<open>nexti\<close> says.
\<close>

theorem nexti_refines:
  assumes "sim_ok s" and "nexti s = Some (st, s')"
  shows "isa_step (abs_sim s) = (st, abs_sim s') \<and> sim_ok s' \<and> len (sim_m s') = len (sim_m s)"
  using nexti_rel_all [OF assms(1)] assms(2) by (simp add: nexti_rel_def)

theorem nexti_refines_witness:
  "\<exists>s'. nexti demo_sim = Some (STAT_AOK, s') \<and> isa_step (abs_sim demo_sim) = (STAT_AOK, abs_sim s')"
proof -
  have "map_option fst (nexti demo_sim) = Some STAT_AOK" by code_simp
  then obtain s' where "nexti demo_sim = Some (STAT_AOK, s')" by auto
  then show ?thesis using nexti_refines [OF demo_sim_ok] by blast
qed

text \<open>
  C20. Memory safety, exactly: from a well-formed state \<open>nexti\<close> leaves its memory array if and only
  if the instruction it executes has a data address among the eight whose bound test
  \<open>addr + 8 > m->len\<close> wraps.  Every other address is either inside the array or refused.
\<close>

theorem nexti_faults_iff:
  assumes "sim_ok s"
  shows "nexti s = None \<longleftrightarrow>
    (\<exists>i n a. decode (abs_mem (sim_m s)) (sim_pc s) = Inr (i, n) \<and>
       data_addr i (abs_sim s) = Some a \<and> wraps a)"
proof
  assume "nexti s = None"
  then show "\<exists>i n a. decode (abs_mem (sim_m s)) (sim_pc s) = Inr (i, n) \<and>
       data_addr i (abs_sim s) = Some a \<and> wraps a"
    using nexti_rel_all [OF assms] by (simp add: nexti_rel_def abs_sim_def)
next
  assume "\<exists>i n a. decode (abs_mem (sim_m s)) (sim_pc s) = Inr (i, n) \<and>
       data_addr i (abs_sim s) = Some a \<and> wraps a"
  then obtain i n a where "decode (i_mem (abs_sim s)) (i_pc (abs_sim s)) = Inr (i, n)"
    "data_addr i (abs_sim s) = Some a" "wraps a"
    by (auto simp: abs_sim_def)
  then show "nexti s = None" by (rule nexti_wraps [OF assms])
qed

definition fault_sim :: y64sim_t where
  "fault_sim = (new_y64sim 64)\<lparr>sim_m := (init_mem 64)\<lparr>data := splice (data (init_mem 64)) 0
     (encode (Mrmovq 0 15 (2 ^ 63 - 1)))\<rparr>\<rparr>"

theorem nexti_faults_iff_witness:
  "nexti fault_sim = None \<and>
   (\<exists>i n a. decode (abs_mem (sim_m fault_sim)) (sim_pc fault_sim) = Inr (i, n) \<and>
      data_addr i (abs_sim fault_sim) = Some a \<and> wraps a)"
proof -
  have ok: "sim_ok fault_sim"
    by (simp add: fault_sim_def sim_ok_def new_y64sim_def)
      (simp add: mem_ok_def init_mem_def Let_def BLK_SIZE_def)
  have "(case nexti fault_sim of None \<Rightarrow> True | _ \<Rightarrow> False)" by code_simp
  then have "nexti fault_sim = None" by (simp split: option.splits)
  then show ?thesis using nexti_faults_iff [OF ok] by blast
qed

text \<open>
  C12. The main loop: a run that does not fault follows the abstract machine step for step, keeps
  the state well formed, counts at most \<open>max_steps\<close> steps, and stops before that limit only on a
  status other than \<open>STAT_AOK\<close>.  A run that ends at an invalid data or stack address ends with \<open>STAT_ADR\<close>, as the
  code returns, and not with the \<open>STAT_INS\<close> of the comment of \<open>nexti\<close>.
\<close>

theorem run_sim_refines:
  assumes "sim_ok s" and "run_sim max_steps s = Some (n, e, s')"
  shows "isa_run (nat max_steps) 0 STAT_AOK (abs_sim s) = (n, e, abs_sim s') \<and> sim_ok s' \<and>
    0 \<le> n \<and> n \<le> int (nat max_steps) \<and> (e = STAT_AOK \<longrightarrow> n = int (nat max_steps))"
  using run_loop_rel [OF assms(1) assms(2) [unfolded run_sim_def]] by auto

theorem run_sim_refines_witness:
  "\<exists>s'. run_sim 10 demo_sim = Some (4, STAT_HLT, s') \<and>
     isa_run 10 0 STAT_AOK (abs_sim demo_sim) = (4, STAT_HLT, abs_sim s')"
proof -
  have "map_option (\<lambda>(n, e, _). (n, e)) (run_sim 10 demo_sim) = Some (4, STAT_HLT)" by code_simp
  then obtain s' where "run_sim 10 demo_sim = Some (4, STAT_HLT, s')" by auto
  moreover from this have "isa_run (nat 10) 0 STAT_AOK (abs_sim demo_sim) = (4, STAT_HLT, abs_sim s')"
    using run_sim_refines [OF demo_sim_ok] by blast
  ultimately show ?thesis by auto
qed

text \<open>
  C19. Executing an encoded instruction: where the program counter points at the bytes of an
  instruction, a step that returns is the abstract execution of that instruction, with the program
  counter behind it as the fall-through address.  Invalid data and stack addresses give \<open>STAT_ADR\<close>, as in the
  code, and not the \<open>STAT_INS\<close> of the comment of \<open>nexti\<close>.
\<close>

theorem nexti_executes:
  assumes "sim_ok s" and "wf_instr i" and "holds_at (abs_mem (sim_m s)) (sint (sim_pc s)) (encode i)"
    and "nexti s = Some (st, s')"
  shows "isa_exec i (sim_pc s + of_nat (length (encode i))) (abs_sim s) = (st, abs_sim s')"
proof -
  have "abs_mem (sim_m s) (sint (sim_pc s)) \<noteq> None"
    using assms(3) by (cases i) auto
  then have "0 \<le> sint (sim_pc s)" "sint (sim_pc s) + 10 < 2 ^ 63"
    using assms(1) by (auto simp: abs_mem_def sim_ok_def mem_ok_def split: if_splits)
  with assms(2,3) have "decode (abs_mem (sim_m s)) (sim_pc s)
      = Inr (i, sim_pc s + of_nat (length (encode i)))"
    by (rule decode_encode)
  then show ?thesis
    using nexti_rel_all [OF assms(1)] assms(4) by (simp add: nexti_rel_def isa_step_def abs_sim_def)
qed

theorem nexti_executes_witness:
  "\<exists>s'. nexti demo_sim = Some (STAT_AOK, s') \<and>
     isa_exec (Irmovq 4 64) 10 (abs_sim demo_sim) = (STAT_AOK, abs_sim s')"
proof -
  have "map_option fst (nexti demo_sim) = Some STAT_AOK" by code_simp
  then obtain s' where s': "nexti demo_sim = Some (STAT_AOK, s')" by auto
  have "map (\<lambda>k. abs_mem (sim_m demo_sim) (sint (sim_pc demo_sim) + int k)) [0..<10]
      = map (\<lambda>k. Some (encode (Irmovq 4 64) ! k)) [0..<10]" by code_simp
  then have "\<forall>k \<in> set [0..<10]. abs_mem (sim_m demo_sim) (sint (sim_pc demo_sim) + int k)
      = Some (encode (Irmovq 4 64) ! k)" by (simp only: map_eq_conv)
  then have h: "holds_at (abs_mem (sim_m demo_sim)) (sint (sim_pc demo_sim)) (encode (Irmovq 4 64))"
    unfolding holds_at_def by (simp del: upt_rec_numeral)
  have "sim_pc demo_sim = 0" by (simp add: demo_sim_def new_y64sim_def)
  then show ?thesis
    using nexti_executes [OF demo_sim_ok _ h s'] s' by (simp add: reg_field_def)
qed

text \<open>The decoding of the instruction a simulator state is about to execute.\<close>

definition next_instr :: "y64sim_t \<Rightarrow> stat_t + (instr \<times> long)" where
  "next_instr s = decode (abs_mem (sim_m s)) (sim_pc s)"

lemma nexti_abs_exec:
  assumes "sim_ok s" and "next_instr s = Inr (i, n)" and "nexti s = Some (st, s')"
  shows "isa_exec i n (abs_sim s) = (st, abs_sim s')"
  using nexti_rel_all [OF assms(1)] assms(2,3)
  by (simp add: nexti_rel_def isa_step_def abs_sim_def next_instr_def)

text \<open>
  \<open>pushq\<close> then \<open>popq\<close>: if both instructions succeed, the popped register holds the value
  the pushed one had before, every other register is as before (the stack pointer too), and no
  register but the popped one has changed.
\<close>

lemma pushq_popq:
  assumes "sim_ok s" and "next_instr s = Inr (Pushq ra, n)" and "nexti s = Some (STAT_AOK, s1)"
    and "next_instr s1 = Inr (Popq rb, n')" and "nexti s1 = Some (STAT_AOK, s2)"
    and "0 \<le> rb" and "rb < REG_NONE"
  shows "reg_at (sim_r s2) = (reg_at (sim_r s))(rb := reg_at (sim_r s) ra)"
proof -
  have "sim_ok s1" using nexti_rel_all [OF assms(1)] assms(3) by (simp add: nexti_rel_def)
  then show ?thesis
    using isa_push_pop [OF nexti_abs_exec [OF assms(1-3)] nexti_abs_exec [OF _ assms(4,5)] assms(6,7)]
    by (simp add: abs_sim_def)
qed

definition demo_push :: y64sim_t where
  "demo_push = snd (the (nexti demo_sim))"

lemma demo_push_ok: "sim_ok demo_push"
proof -
  have "map_option fst (nexti demo_sim) = Some STAT_AOK" by code_simp
  then show ?thesis
    using nexti_rel_all [OF demo_sim_ok] by (auto simp: demo_push_def nexti_rel_def)
qed

lemma pushq_popq_witness:
  "\<exists>s1 s2. nexti demo_push = Some (STAT_AOK, s1) \<and> nexti s1 = Some (STAT_AOK, s2) \<and>
     reg_at (sim_r s2) = (reg_at (sim_r demo_push))(1 := reg_at (sim_r demo_push) 4) \<and>
     reg_at (sim_r s2) 1 = 64"
proof -
  have p: "next_instr demo_push = Inr (Pushq 4, 12)" by code_simp
  have v: "reg_at (sim_r demo_push) 4 = 64" by code_simp
  have "map_option (\<lambda>(e, s). (e, next_instr s, map_option fst (nexti s))) (nexti demo_push)
      = Some (STAT_AOK, Inr (Popq 1, 14), Some STAT_AOK)" by code_simp
  then obtain s1 s2 where s: "nexti demo_push = Some (STAT_AOK, s1)"
    "next_instr s1 = Inr (Popq 1, 14)" "nexti s1 = Some (STAT_AOK, s2)" by auto
  have "reg_at (sim_r s2) = (reg_at (sim_r demo_push))(1 := reg_at (sim_r demo_push) 4)"
    using pushq_popq [OF demo_push_ok p s] by (simp add: REG_NONE_def)
  then show ?thesis using s v by auto
qed

text \<open>
  \<open>call\<close> then \<open>ret\<close>: if a \<open>call\<close> succeeds and the instruction at its target is a \<open>ret\<close> that
  succeeds, execution continues behind the call with every register as before.
\<close>

lemma call_ret:
  assumes "sim_ok s" and "next_instr s = Inr (Call v, n)" and "nexti s = Some (STAT_AOK, s1)"
    and "next_instr s1 = Inr (Ret, n')" and "nexti s1 = Some (STAT_AOK, s2)"
  shows "sim_pc s1 = v \<and> sim_pc s2 = n \<and> reg_at (sim_r s2) = reg_at (sim_r s)"
proof -
  have "sim_ok s1" using nexti_rel_all [OF assms(1)] assms(3) by (simp add: nexti_rel_def)
  then have "i_reg (abs_sim s2) = i_reg (abs_sim s) \<and> i_pc (abs_sim s2) = n"
    using isa_call_ret [OF nexti_abs_exec [OF assms(1-3)] nexti_abs_exec [OF _ assms(4,5)]] by blast
  moreover have "i_pc (abs_sim s1) = v"
    by (rule isa_call_pc) (rule nexti_abs_exec [OF assms(1-3)])
  ultimately show ?thesis by (simp add: abs_sim_def)
qed

definition demo_call :: y64sim_t where
  "demo_call = (new_y64sim 64)\<lparr>sim_m := (init_mem 64)\<lparr>data := splice (data (init_mem 64)) 0
     (encode (Call 16) @ replicate 7 0 @ encode Ret)\<rparr>, sim_r := put_reg init_reg REG_RSP 64\<rparr>"

lemma call_ret_witness:
  "\<exists>s1 s2. nexti demo_call = Some (STAT_AOK, s1) \<and> nexti s1 = Some (STAT_AOK, s2) \<and>
     sim_pc s1 = 16 \<and> sim_pc s2 = 9 \<and> reg_at (sim_r s2) = reg_at (sim_r demo_call)"
proof -
  have ok: "sim_ok demo_call"
    by (simp add: demo_call_def sim_ok_def new_y64sim_def)
      (simp add: mem_ok_def init_mem_def Let_def BLK_SIZE_def)
  have p: "next_instr demo_call = Inr (Call 16, 9)" by code_simp
  have "map_option (\<lambda>(e, s). (e, next_instr s, map_option fst (nexti s))) (nexti demo_call)
      = Some (STAT_AOK, Inr (Ret, 17), Some STAT_AOK)" by code_simp
  then obtain s1 s2 where s: "nexti demo_call = Some (STAT_AOK, s1)"
    "next_instr s1 = Inr (Ret, 17)" "nexti s1 = Some (STAT_AOK, s2)" by auto
  then show ?thesis using call_ret [OF ok p s] by blast
qed

text \<open>
  C25. Comparison: after \<open>subq rA, rB\<close> every condition decides the signed comparison of \<open>rB\<close> with
  \<open>rA\<close> that its name says, provided the difference fits in 32 bits.  (The sign flag is taken from
  the low half of the result, so the bound is needed.)
\<close>

theorem subq_compares:
  assumes "- (2 ^ 31) \<le> sint b - sint a" and "sint b - sint a < 2 ^ 31"
  shows "cond_doit (compute_cc A_SUB a b (compute_alu A_SUB a b)) c = cmp_spec c (sint b) (sint a)"
  by (rule cond_doit_subq [OF assms])

theorem subq_compares_witness:
  "cond_doit (compute_cc A_SUB 5 3 (compute_alu A_SUB 5 3)) C_L = cmp_spec C_L 3 5"
  using subq_compares [of 3 5 C_L] by simp

text \<open>
  The condition codes outside that range: the sign flag of a positive 64-bit difference is set
  when bit 31 is, so \<open>jl\<close> is taken although the operand is greater; an \<open>addq\<close> never sets the
  overflow flag, even when the sum overflows; and an \<open>andq\<close> of two positive numbers can set it.
\<close>

lemma condition_codes_wrong:
  "cond_doit (compute_cc A_SUB 0 (2 ^ 31) (compute_alu A_SUB 0 (2 ^ 31))) C_L \<and>
   \<not> cmp_spec C_L (sint (2 ^ 31 :: long)) (sint (0 :: long)) \<and>
   (\<forall>a b. GET_OF (compute_cc A_ADD a b (compute_alu A_ADD a b)) = 0) \<and>
   sint (compute_alu A_ADD (2 ^ 62) (2 ^ 62)) < 0 \<and>
   GET_OF (compute_cc A_AND 1 2 (compute_alu A_AND 1 2)) = 1"
proof (intro conjI allI)
  show "cond_doit (compute_cc A_SUB 0 (2 ^ 31) (compute_alu A_SUB 0 (2 ^ 31))) C_L" by code_simp
  show "\<not> cmp_spec C_L (sint (2 ^ 31 :: long)) (sint (0 :: long))" by code_simp
  show "GET_OF (compute_cc A_ADD a b (compute_alu A_ADD a b)) = 0" for a b
    using addq_OF_clear [of a b] by (simp add: nz_def)
  show "sint (compute_alu A_ADD (2 ^ 62) (2 ^ 62)) < 0" by code_simp
  show "GET_OF (compute_cc A_AND 1 2 (compute_alu A_AND 1 2)) = 1" by code_simp
qed

text \<open>
  The overflow flag of \<open>subq\<close> is the signed overflow of the subtraction, with one exception:
  \<open>0 - INT64_MIN\<close> overflows and does not set it.
\<close>

lemma subq_overflow:
  "nz (GET_OF (compute_cc A_SUB a b (compute_alu A_SUB a b))) \<longleftrightarrow>
     sub_overflows a b \<and> \<not> (b = 0 \<and> sint a = - (2 ^ 63))"
  by (rule sub_OF)

text \<open>
  C26. A status other than \<open>STAT_AOK\<close> leaves the program counter, the memory and the condition codes
  as they were, and of the registers at most the stack pointer has changed.
\<close>

theorem nexti_error_keeps:
  assumes "sim_ok s" and "nexti s = Some (st, s')" and "st \<noteq> STAT_AOK"
  shows "sim_pc s' = sim_pc s \<and> sim_m s' = sim_m s \<and> sim_cc s' = sim_cc s \<and>
    (\<forall>i. i \<noteq> REG_RSP \<longrightarrow> reg_at (sim_r s') i = reg_at (sim_r s) i)"
proof -
  have st: "isa_step (abs_sim s) = (st, abs_sim s')"
    using nexti_rel_all [OF assms(1)] assms(2) by (simp add: nexti_rel_def)
  have "i_reg s1 i = i_reg s0 i" if "isa_exec ins n s0 = (st, s1)" "i \<noteq> REG_RSP" for ins n s0 s1 i
    using that assms(3) by (cases ins) (auto simp: Let_def put_r_def split: option.splits if_splits)
  then have "i_reg (abs_sim s') i = i_reg (abs_sim s) i" if "i \<noteq> REG_RSP" for i
    using st that by (auto simp: isa_step_def split: sum.splits)
  then show ?thesis
    using nexti_error_frame [OF assms(2,3)] by (simp add: abs_sim_def)
qed

theorem nexti_error_keeps_witness:
  "\<exists>s'. nexti (demo_call\<lparr>sim_r := init_reg\<rparr>) = Some (STAT_ADR, s') \<and> sim_pc s' = 0"
proof -
  have ok: "sim_ok (demo_call\<lparr>sim_r := init_reg\<rparr>)"
    by (simp add: demo_call_def sim_ok_def new_y64sim_def)
      (simp add: mem_ok_def init_mem_def Let_def BLK_SIZE_def)
  have "map_option fst (nexti (demo_call\<lparr>sim_r := init_reg\<rparr>)) = Some STAT_ADR" by code_simp
  then obtain s' where s': "nexti (demo_call\<lparr>sim_r := init_reg\<rparr>) = Some (STAT_ADR, s')" by auto
  moreover have "sim_pc (demo_call\<lparr>sim_r := init_reg\<rparr>) = 0"
    by (simp add: demo_call_def new_y64sim_def)
  ultimately show ?thesis using nexti_error_keeps [OF ok s'] by auto
qed

text \<open>
  \<open>diff_mem\<close> with an output stream prints exactly the aligned 8-byte positions at which two
  memories of one size differ, in order and with both values, and returns whether there is one.
\<close>

lemma diff_mem_correct:
  assumes "mem_ok oldm" and "mem_ok newm" and "len newm = len oldm" and "len oldm = 8 * int m"
  shows "diff_mem oldm newm True
    = Some (differences oldm newm [0..<m] \<noteq> [], differences oldm newm [0..<m])"
  by (rule diff_mem_differences [OF assms])

lemma diff_mem_correct_witness:
  "diff_mem (init_mem 16) (init_mem 16) True = Some (False, [])"
proof -
  have l: "len (init_mem 16) = 8 * int 4" by (simp add: init_mem_def Let_def BLK_SIZE_def)
  have "differences (init_mem 16) (init_mem 16) [0..<4] = []" by (simp add: differences_def)
  then show ?thesis using diff_mem_correct [OF _ _ refl l, of] by simp
qed

text \<open>
  Loading an image shorter than the memory succeeds and puts its bytes at address 0 with the
  rest of the memory unchanged; an image that fills the memory or is longer is refused.
\<close>

lemma load_binfile_correct:
  assumes "mem_ok m"
  shows "load_binfile m f False =
    (if int (length f) < len m then (0, m\<lparr>data := f @ drop (length f) (data m)\<rparr>)
     else (-1, m\<lparr>data := take (nat (len m)) f\<rparr>))"
  using assms by (auto simp: load_binfile_def Let_def mem_ok_def splice_def)

lemma load_binfile_correct_witness:
  "load_binfile (init_mem 32) [7, 8] False = (0, (init_mem 32)\<lparr>data := [7, 8] @ replicate 30 0\<rparr>)"
  using load_binfile_correct [of "init_mem 32" "[7, 8]"]
  by (simp add: init_mem_def Let_def BLK_SIZE_def mem_ok_def)

section \<open>Typing\<close>

definition sim_step :: "y64sim_t \<Rightarrow> y64sim_t \<Rightarrow> bool" where
  "sim_step s s' \<longleftrightarrow> (\<exists>st. nexti s = Some (st, s'))"

lemma load_binfile_typed: "mem_ok m \<Longrightarrow> load_binfile m f err = (rc, m') \<Longrightarrow> mem_ok m' \<and> len m' = len m"
  by (auto simp: load_binfile_def Let_def mem_ok_def splice_def split: if_splits)

text \<open>
  C27. Typing of the simulator: whatever file is loaded, whether or not loading succeeds, and however many
  instructions run, the memory keeps its declared length, the register file its 128 bytes.
\<close>

theorem simulator_typed:
  assumes "mem_ok (init_mem n)" and "load_binfile (sim_m (new_y64sim n)) file err = (rc, m)"
    and "sim_step\<^sup>*\<^sup>* ((new_y64sim n)\<lparr>sim_m := m\<rparr>) s"
  shows "sim_ok s \<and> len (sim_m s) = len (init_mem n)"
  using assms(3)
proof (induction rule: rtranclp_induct)
  case base
  have "mem_ok m \<and> len m = len (init_mem n)"
    using load_binfile_typed [OF assms(1), of "file" err rc m] assms(2) by (simp add: new_y64sim_def)
  moreover have "regs_ok (sim_r (new_y64sim n))" by (simp add: new_y64sim_def)
  ultimately show ?case by (simp add: sim_ok_def)
next
  case (step s s')
  then obtain st where "nexti s = Some (st, s')" by (auto simp: sim_step_def)
  from nexti_rel_all [of s] step.IH this show ?case by (simp add: nexti_rel_def)
qed

lemma demo_mem_ok: "mem_ok (init_mem 64)"
  by (simp add: mem_ok_def init_mem_def Let_def BLK_SIZE_def)

theorem simulator_typed_witness:
  "\<exists>s. sim_step ((new_y64sim 64)\<lparr>sim_m := snd (load_binfile (init_mem 64) (encode (Pushq 4)) False)\<rparr>) s \<and> sim_ok s"
proof -
  let ?s = "(new_y64sim 64)\<lparr>sim_m := snd (load_binfile (init_mem 64) (encode (Pushq 4)) False)\<rparr>"
  have "nexti ?s \<noteq> None" by code_simp
  then obtain s' where "sim_step ?s s'" by (auto simp: sim_step_def)
  moreover have "sim_ok s'"
    using simulator_typed [of 64 "encode (Pushq 4)" False "fst (load_binfile (init_mem 64) (encode (Pushq 4)) False)"
        "snd (load_binfile (init_mem 64) (encode (Pushq 4)) False)" s']
      r_into_rtranclp [of sim_step, OF calculation] demo_mem_ok
    by (simp add: new_y64sim_def)
  ultimately show ?thesis by blast
qed

end
