(* ===== verification/Y64AsmParse.thy ===== *)
theory Y64AsmParse
  imports Y64Asm Y64Theorems
begin

text \<open>
  Correctness of the assembler of \<open>lab5/y64asm.c\<close> on programs written as data: a program is a list
  of source lines, \<open>show_src\<close> is its text, and \<open>resolve\<close> gives the instructions it stands for when
  every label is its address.
\<close>

section \<open>Source lines as data and as text\<close>

definition show_reg :: "regid_t \<Rightarrow> string" where
  "show_reg r = fst (Y64Asm.reg_table ! nat r)"

definition show_hex :: "long \<Rightarrow> string" where
  "show_hex v = ''0x'' @ hexdigs 16 (unat v)"

fun cond_suffix :: "cond_t \<Rightarrow> string" where
  "cond_suffix C_YES = []" | "cond_suffix C_LE = ''le''" | "cond_suffix C_L = ''l''"
| "cond_suffix C_E = ''e''" | "cond_suffix C_NE = ''ne''" | "cond_suffix C_GE = ''ge''"
| "cond_suffix C_G = ''g''"

fun mov_name :: "cond_t \<Rightarrow> string" where
  "mov_name C_YES = ''rrmovq''" | "mov_name c = ''cmov'' @ cond_suffix c"

fun jmp_name :: "cond_t \<Rightarrow> string" where
  "jmp_name C_YES = ''jmp''" | "jmp_name c = CHR ''j'' # cond_suffix c"

fun alu_name :: "alu_t \<Rightarrow> string" where
  "alu_name A_ADD = ''addq''" | "alu_name A_SUB = ''subq''" | "alu_name A_AND = ''andq''"
| "alu_name A_XOR = ''xorq''" | "alu_name A_NONE = []"

text \<open>An instruction whose operands are all numbers, or one that names a label.\<close>

datatype sins = Plain instr | Mov_label regid_t string | Jmp_label cond_t string
  | Call_label string | Quad long | Quad_label string

datatype src = Label string | Ins sins

fun mnemonic :: "sins \<Rightarrow> string" where
  "mnemonic (Plain Halt) = ''halt''"
| "mnemonic (Plain Nop) = ''nop''"
| "mnemonic (Plain Ret) = ''ret''"
| "mnemonic (Plain (Rrmovq c ra rb)) = mov_name c"
| "mnemonic (Plain (Irmovq rb v)) = ''irmovq''"
| "mnemonic (Plain (Rmmovq ra rb d)) = ''rmmovq''"
| "mnemonic (Plain (Mrmovq ra rb d)) = ''mrmovq''"
| "mnemonic (Plain (Alu a ra rb)) = alu_name a"
| "mnemonic (Plain (Jmp c v)) = []"
| "mnemonic (Plain (Call v)) = []"
| "mnemonic (Plain (Pushq ra)) = ''pushq''"
| "mnemonic (Plain (Popq ra)) = ''popq''"
| "mnemonic (Mov_label rb l) = ''irmovq''"
| "mnemonic (Jmp_label c l) = jmp_name c"
| "mnemonic (Call_label l) = ''call''"
| "mnemonic (Quad v) = ''.quad''"
| "mnemonic (Quad_label l) = ''.quad''"

fun operands :: "sins \<Rightarrow> string" where
  "operands (Plain (Rrmovq c ra rb)) = CHR '' '' # show_reg ra @ '', '' @ show_reg rb"
| "operands (Plain (Irmovq rb v)) = '' $'' @ show_hex v @ '', '' @ show_reg rb"
| "operands (Plain (Rmmovq ra rb d)) =
     CHR '' '' # show_reg ra @ '', '' @ show_hex d @ ''('' @ show_reg rb @ '')''"
| "operands (Plain (Mrmovq ra rb d)) =
     CHR '' '' # show_hex d @ ''('' @ show_reg rb @ ''), '' @ show_reg ra"
| "operands (Plain (Alu a ra rb)) = CHR '' '' # show_reg ra @ '', '' @ show_reg rb"
| "operands (Plain (Pushq ra)) = CHR '' '' # show_reg ra"
| "operands (Plain (Popq ra)) = CHR '' '' # show_reg ra"
| "operands (Mov_label rb l) = CHR '' '' # l @ '', '' @ show_reg rb"
| "operands (Jmp_label c l) = CHR '' '' # l"
| "operands (Call_label l) = CHR '' '' # l"
| "operands (Quad v) = CHR '' '' # show_hex v"
| "operands (Quad_label l) = CHR '' '' # l"
| "operands (Plain _) = []"

definition show_ins :: "sins \<Rightarrow> string" where
  "show_ins i = mnemonic i @ operands i"

fun show_src :: "src \<Rightarrow> string" where
  "show_src (Label n) = n @ '':''"
| "show_src (Ins i) = CHR '' '' # show_ins i"

definition show_prog :: "src list \<Rightarrow> string" where
  "show_prog p = concat (map (\<lambda>l. show_src l @ [NEWLINE]) p)"

text \<open>What the assembler accepts as a label and as a register, and what can be written.\<close>

definition ident :: "string \<Rightarrow> bool" where
  "ident n \<longleftrightarrow> n \<noteq> [] \<and> isletter (hd n) \<and> list_all word_char n \<and> length n \<le> 400"

definition a_reg :: "regid_t \<Rightarrow> bool" where
  "a_reg r \<longleftrightarrow> 0 \<le> r \<and> r < 15"

fun writable_ins :: "sins \<Rightarrow> bool" where
  "writable_ins (Plain (Rrmovq c ra rb)) = (a_reg ra \<and> a_reg rb)"
| "writable_ins (Plain (Irmovq rb v)) = a_reg rb"
| "writable_ins (Plain (Rmmovq ra rb d)) = (a_reg ra \<and> a_reg rb)"
| "writable_ins (Plain (Mrmovq ra rb d)) = (a_reg ra \<and> a_reg rb)"
| "writable_ins (Plain (Alu a ra rb)) = (a \<noteq> A_NONE \<and> a_reg ra \<and> a_reg rb)"
| "writable_ins (Plain (Pushq ra)) = a_reg ra"
| "writable_ins (Plain (Popq ra)) = a_reg ra"
| "writable_ins (Plain (Jmp c v)) = False"
| "writable_ins (Plain (Call v)) = False"
| "writable_ins (Mov_label rb l) = (a_reg rb \<and> ident l)"
| "writable_ins (Jmp_label c l) = ident l"
| "writable_ins (Call_label l) = ident l"
| "writable_ins (Quad_label l) = ident l"
| "writable_ins _ = True"

fun label_ref :: "sins \<Rightarrow> string option" where
  "label_ref (Mov_label rb l) = Some l"
| "label_ref (Jmp_label c l) = Some l"
| "label_ref (Call_label l) = Some l"
| "label_ref (Quad_label l) = Some l"
| "label_ref _ = None"

text \<open>The bytes of a line when the label it names has address \<open>a\<close>.\<close>

fun code_of :: "long \<Rightarrow> sins \<Rightarrow> byte list" where
  "code_of a (Plain i) = encode i"
| "code_of a (Mov_label rb l) = encode (Irmovq rb a)"
| "code_of a (Jmp_label c l) = encode (Jmp c a)"
| "code_of a (Call_label l) = encode (Call a)"
| "code_of a (Quad v) = le_bytes 8 v"
| "code_of a (Quad_label l) = le_bytes 8 a"

section \<open>Characters\<close>

definition plain :: "char \<Rightarrow> bool" where
  "plain c \<longleftrightarrow> c \<noteq> NEWLINE \<and> c \<noteq> RETURN \<and> c \<noteq> NUL"

lemma word_char_plain: "word_char c \<Longrightarrow> plain c"
  by (auto simp: word_char_def plain_def isletter_def isdigit_def digit_char_def
      NEWLINE_def RETURN_def NUL_def)

lemma isletter_not [simp]:
  "isletter c \<Longrightarrow> \<not> blank c" "isletter c \<Longrightarrow> \<not> isdigit c" "isletter c \<Longrightarrow> word_char c"
  "isletter c \<Longrightarrow> c \<noteq> CHR ''#''" "isletter c \<Longrightarrow> c \<noteq> CHR ''%''" "isletter c \<Longrightarrow> c \<noteq> CHR ''$''"
  "isletter c \<Longrightarrow> \<not> digit_char c"
  by (auto simp: isletter_def isdigit_def blank_def TAB_def word_char_def digit_char_def)

lemma SKIP_BLANK_simps [simp]:
  "SKIP_BLANK [] = []" "SKIP_BLANK (CHR '' '' # s) = SKIP_BLANK s"
  "\<not> blank c \<Longrightarrow> SKIP_BLANK (c # s) = c # s"
  by (simp_all add: SKIP_BLANK_def blank_def)

text \<open>The character that follows a token.\<close>

definition ends :: "(char \<Rightarrow> bool) \<Rightarrow> string \<Rightarrow> bool" where
  "ends p s \<longleftrightarrow> s = [] \<or> \<not> p (hd s)"

lemma takeWhile_token:
  "list_all p t \<Longrightarrow> ends p r \<Longrightarrow> takeWhile p (t @ r) = t \<and> dropWhile p (t @ r) = r"
  by (induction t) (cases r, auto simp: ends_def)

section \<open>Tokens\<close>

lemma show_reg_facts:
  assumes "a_reg r"
  shows "find_register (show_reg r) = Some r" "\<exists>t. show_reg r = CHR ''%'' # t \<and> list_all word_char t"
    "length (show_reg r) \<le> 4"
proof -
  have "list_all (\<lambda>k. find_register (show_reg k) = Some k \<and>
      show_reg k = CHR ''%'' # tl (show_reg k) \<and> list_all word_char (tl (show_reg k)) \<and>
      length (show_reg k) \<le> 4)
      [0, 1, 2, 3, 4, 5, 6, 7, 8, 9, 10, 11, 12, 13, 14]"
    by code_simp
  moreover have "r \<in> set [0, 1, 2, 3, 4, 5, 6, 7, 8, 9, 10, 11, 12, 13, 14]"
    using assms unfolding a_reg_def list.set insert_iff empty_iff by presburger
  ultimately have "find_register (show_reg r) = Some r \<and>
      show_reg r = CHR ''%'' # tl (show_reg r) \<and> list_all word_char (tl (show_reg r)) \<and>
      length (show_reg r) \<le> 4"
    by (auto simp only: list_all_iff)
  then show "find_register (show_reg r) = Some r"
    "\<exists>t. show_reg r = CHR ''%'' # t \<and> list_all word_char t" "length (show_reg r) \<le> 4"
    by blast+
qed

lemma parse_reg_show [simp]:
  assumes "a_reg r" and "ends word_char s"
  shows "parse_reg (show_reg r @ s) = Some (r, s)"
    "parse_reg (CHR '' '' # show_reg r @ s) = Some (r, s)"
proof -
  obtain t where t: "show_reg r = CHR ''%'' # t" "list_all word_char t"
    using show_reg_facts [OF assms(1)] by blast
  have "\<not> blank CHR ''%''" by (simp add: blank_def TAB_def)
  then show "parse_reg (show_reg r @ s) = Some (r, s)"
    "parse_reg (CHR '' '' # show_reg r @ s) = Some (r, s)"
    using takeWhile_token [OF t(2) assms(2)] show_reg_facts(1) [OF assms(1)] t(1)
    by (simp_all add: parse_reg_def)
qed

lemma parse_reg_end [simp]: "a_reg r \<Longrightarrow> parse_reg (CHR '' '' # show_reg r) = Some (r, [])"
  using parse_reg_show(2) [of r "[]"] by (simp add: ends_def)

lemma parse_reg_end' [simp]: "a_reg r \<Longrightarrow> parse_reg (show_reg r) = Some (r, [])"
  using parse_reg_show(1) [of r "[]"] by (simp add: ends_def)

lemma strtoul_hex:
  assumes "\<not> digit_at 16 r"
  shows "strtoul (show_hex v @ r) = (v, r)"
proof -
  have "digit_val 16 (hexchar ((n::nat) mod 16)) = Some (n mod 16)" for n
    by (simp add: digit_val_hexchar)
  have d: "digit_at 16 (hexdigs (Suc k) n @ s)" for k n s
  proof (induction k arbitrary: n s)
    case 0
    then show ?case by (simp add: digit_at_def digit_val_hexchar)
  next
    case (Suc k)
    show ?case using Suc [of "n div 16" "hexchar (n mod 16) # s"] by simp
  qed
  from d [of 15 "unat v" r] have h: "digit_at 16 (hexdigs 16 (unat v) @ r)"
    by (simp only: Suc_numeral add_num_simps)
  have lx: "to_lower CHR ''x'' = CHR ''x''" by code_simp
  have b: "scan_base (CHR ''0'' # CHR ''x'' # hexdigs 16 (unat v) @ r) = (16, hexdigs 16 (unat v) @ r)"
    using h lx by (simp add: scan_base_def)
  have "unat v < 2 ^ LENGTH(64)" "uint v < 2 ^ LENGTH(64)" by (rule unsigned_less)+
  then have lt: "unat v < 2 ^ 64" "uint v < 2 ^ 64" by simp_all
  have acc: "scan_digits 16 a r = (a, r)" for a
    using assms by (cases r) (auto simp: digit_at_def split: option.splits)
  have s: "scan_digits 16 0 (hexdigs 16 (unat v) @ r) = (uint v, r)"
    using lt by (simp add: scan_hexdigs acc)
  have sp: "\<not> isspace CHR ''0''" by (simp add: isspace_def TAB_def NEWLINE_def RETURN_def)
  show ?thesis
    unfolding strtoul_def show_hex_def using b s h sp lt by (simp add: scan_sign_def)
qed

lemma show_hex_digit [simp]: "at digit_char (show_hex v @ r)" "show_hex v \<noteq> []" "\<not> blank (hd (show_hex v))"
  by (simp_all add: show_hex_def digit_char_def isdigit_def blank_def TAB_def)

lemma SKIP_BLANK_hex [simp]: "SKIP_BLANK (show_hex v @ r) = show_hex v @ r"
  by (simp add: show_hex_def blank_def TAB_def)

lemma not_hex_digit [simp]: "\<not> digit_at 16 []" "\<not> digit_at 16 (CHR '','' # s)" "\<not> digit_at 16 (CHR ''('' # s)"
  by (simp_all add: digit_at_def) (code_simp+)

lemma strtoul_hex_end [simp]: "strtoul (show_hex v) = (v, [])"
  using strtoul_hex [of "[]" v] by simp

text \<open>Behind each name its block holds a zero: then the name that is read is the one that was written.\<close>

definition terminated :: "blocks \<Rightarrow> bool" where
  "terminated blk \<longleftrightarrow> (\<forall>p. cstr (drop (length (takeWhile word_char p)) (blk p)) = [])"

lemma name_in_terminated: "terminated blk \<Longrightarrow> name_in (blk p) (takeWhile word_char p) = takeWhile word_char p"
  by (simp add: name_in_def terminated_def)

lemma parse_symbol_ident:
  assumes "ident n" and "ends word_char s" and "terminated blk"
  shows "parse_symbol blk (n @ s) = Some (n, s)" "parse_symbol blk (CHR '' '' # n @ s) = Some (n, s)"
    "parse_imm blk (CHR '' '' # n @ s) = Some (Symbol n, s)"
    "parse_data blk (CHR '' '' # n @ s) = Some (Symbol n, s)"
proof -
  obtain c t where n: "n = c # t" "isletter c" "list_all word_char t"
    using assms(1) by (cases n) (auto simp: ident_def)
  have tw: "takeWhile word_char (n @ s) = n" "dropWhile word_char (n @ s) = s"
    using takeWhile_token [of word_char n s] assms(1,2) by (auto simp: ident_def)
  then have nm: "name_in (blk (n @ s)) n = n" using name_in_terminated [OF assms(3), of "n @ s"] by simp
  show sym: "parse_symbol blk (n @ s) = Some (n, s)"
    using n tw nm by (simp add: parse_symbol_def IS_LETTER_def)
  show "parse_symbol blk (CHR '' '' # n @ s) = Some (n, s)"
    using n tw nm by (simp add: parse_symbol_def IS_LETTER_def)
  show "parse_imm blk (CHR '' '' # n @ s) = Some (Symbol n, s)"
    using n sym by (simp add: parse_imm_def IS_IMM_def IS_LETTER_def)
  show "parse_data blk (CHR '' '' # n @ s) = Some (Symbol n, s)"
    using n sym by (simp add: parse_data_def IS_DIGIT_def IS_LETTER_def)
qed

lemma parse_delim_comma [simp]: "parse_delim (CHR '','' # s) CHR '','' = Some s"
  by (simp add: parse_delim_def blank_def TAB_def)

lemma parse_mem_show:
  assumes "a_reg r"
  shows "parse_mem (show_hex d @ CHR ''('' # show_reg r @ CHR '')'' # s) = Some (d, r, s)"
    "parse_mem (CHR '' '' # show_hex d @ CHR ''('' # show_reg r @ CHR '')'' # s) = Some (d, r, s)"
proof -
  have "ends word_char (CHR '')'' # s)"
    by (simp add: ends_def word_char_def digit_char_def isletter_def isdigit_def)
  then have reg: "parse_reg (show_reg r @ CHR '')'' # s) = Some (r, CHR '')'' # s)"
    using assms by simp
  have "\<not> at (\<lambda>c. c = CHR ''('') (show_hex d @ x)" for x by (simp add: show_hex_def)
  then show 1: "parse_mem (show_hex d @ CHR ''('' # show_reg r @ CHR '')'' # s) = Some (d, r, s)"
    using reg by (simp add: parse_mem_def parse_digit_def IS_DIGIT_def strtoul_hex)
  show "parse_mem (CHR '' '' # show_hex d @ CHR ''('' # show_reg r @ CHR '')'' # s) = Some (d, r, s)"
    using 1 by (simp add: parse_mem_def Let_def)
qed

end
