(* ===== verification/Y64AsmLines.thy ===== *)
theory Y64AsmLines
  imports Y64AsmParse
begin

section \<open>Lines\<close>

definition pad10 :: "byte list \<Rightarrow> byte list" where
  "pad10 bs = bs @ replicate (10 - length bs) 0"

text \<open>The bytes before relocation: a label operand is still 0.\<close>

fun raw_code :: "sins \<Rightarrow> byte list" where
  "raw_code (Quad_label l) = HPACK 12 0 # replicate 7 0"
| "raw_code i = code_of 0 i"

fun table_entry :: "sins \<Rightarrow> instr_t" where
  "table_entry (Plain (Rrmovq c ra rb)) = mk_instr (mov_name c) (length (mov_name c)) I_RRMOVQ (cond_code c) 2"
| "table_entry (Plain (Alu a ra rb)) = mk_instr (alu_name a) 4 I_ALU (alu_code a) 2"
| "table_entry (Plain Halt) = mk_instr ''halt'' 4 I_HALT F_NONE 1"
| "table_entry (Plain Nop) = mk_instr ''nop'' 3 I_NOP F_NONE 1"
| "table_entry (Plain Ret) = mk_instr ''ret'' 3 I_RET F_NONE 1"
| "table_entry (Plain (Irmovq rb v)) = mk_instr ''irmovq'' 6 I_IRMOVQ F_NONE 10"
| "table_entry (Plain (Rmmovq ra rb d)) = mk_instr ''rmmovq'' 6 I_RMMOVQ F_NONE 10"
| "table_entry (Plain (Mrmovq ra rb d)) = mk_instr ''mrmovq'' 6 I_MRMOVQ F_NONE 10"
| "table_entry (Plain (Pushq ra)) = mk_instr ''pushq'' 5 I_PUSHQ F_NONE 2"
| "table_entry (Plain (Popq ra)) = mk_instr ''popq'' 4 I_POPQ F_NONE 2"
| "table_entry (Plain _) = mk_instr [] 0 I_NOP F_NONE 0"
| "table_entry (Mov_label rb l) = mk_instr ''irmovq'' 6 I_IRMOVQ F_NONE 10"
| "table_entry (Jmp_label c l) = mk_instr (jmp_name c) (length (jmp_name c)) I_JMP (cond_code c) 9"
| "table_entry (Call_label l) = mk_instr ''call'' 4 I_CALL F_NONE 9"
| "table_entry (Quad v) = mk_instr ''.quad'' 5 I_DIRECTIVE (dtv_code D_DATA) 8"
| "table_entry (Quad_label l) = mk_instr ''.quad'' 5 I_DIRECTIVE (dtv_code D_DATA) 8"

lemma mnemonic_table:
  assumes "writable_ins i"
  shows "find_instr (mnemonic i) = Some (table_entry i)"
proof -
  have c: "list_all (\<lambda>c. find_instr (mov_name c) = Some (table_entry (Plain (Rrmovq c 0 0))) \<and>
        find_instr (jmp_name c) = Some (table_entry (Jmp_label c []))) conds"
    by code_simp
  then have "find_instr (mov_name c) = Some (table_entry (Plain (Rrmovq c 0 0)))"
    "find_instr (jmp_name c) = Some (table_entry (Jmp_label c []))" for c
    by (cases c; simp add: conds_def)+
  moreover have "list_all (\<lambda>a. find_instr (alu_name a) = Some (table_entry (Plain (Alu a 0 0))))
      [A_ADD, A_SUB, A_AND, A_XOR]" by code_simp
  then have "a \<noteq> A_NONE \<Longrightarrow> find_instr (alu_name a) = Some (table_entry (Plain (Alu a 0 0)))" for a
    by (cases a) simp_all
  moreover have "list_all (\<lambda>i. find_instr (mnemonic i) = Some (table_entry i))
      [Plain Halt, Plain Nop, Plain Ret, Plain (Irmovq 0 0), Plain (Rmmovq 0 0 0), Plain (Mrmovq 0 0 0),
       Plain (Pushq 0), Plain (Popq 0), Mov_label 0 [], Call_label [], Quad 0, Quad_label []]"
    by code_simp
  ultimately show ?thesis
    using assms by (cases i rule: mnemonic.cases) simp_all
qed

definition tok_char :: "char \<Rightarrow> bool" where
  "tok_char c \<longleftrightarrow> isletter c \<or> c = CHR ''.''"

lemma mnemonic_chars:
  assumes "writable_ins i"
  shows "mnemonic i \<noteq> []" "list_all tok_char (mnemonic i)"
    "hd (mnemonic i) = CHR ''.'' \<or> list_all isletter (mnemonic i)"
    "i_len (table_entry i) = length (mnemonic i)"
proof -
  have "mnemonic i \<noteq> [] \<and> list_all tok_char (mnemonic i) \<and>
    (hd (mnemonic i) = CHR ''.'' \<or> list_all isletter (mnemonic i)) \<and>
    i_len (table_entry i) = length (mnemonic i)"
    using assms
    apply (cases i rule: mnemonic.cases)
    apply (simp_all add: tok_char_def isletter_def)
    subgoal for c by (cases c) (simp_all add: tok_char_def isletter_def)
    subgoal for a by (cases a) (simp_all add: tok_char_def isletter_def)
    subgoal for c by (cases c) (simp_all add: tok_char_def isletter_def)
    done
  then show "mnemonic i \<noteq> []" "list_all tok_char (mnemonic i)"
    "hd (mnemonic i) = CHR ''.'' \<or> list_all isletter (mnemonic i)"
    "i_len (table_entry i) = length (mnemonic i)"
    by simp_all
qed

lemma operands_blank:
  "operands i = [] \<or> (\<exists>s. operands i = CHR '' '' # s)"
  by (cases i rule: operands.cases) simp_all

lemma tok_char_not [simp]:
  "tok_char c \<Longrightarrow> \<not> isspace c" "tok_char c \<Longrightarrow> \<not> blank c" "tok_char c \<Longrightarrow> c \<noteq> CHR ''#''"
  by (auto simp: tok_char_def isletter_def isspace_def blank_def TAB_def NEWLINE_def RETURN_def)

lemma parse_instr_show:
  assumes "writable_ins i"
  shows "parse_instr (CHR '' '' # show_ins i) = Some (table_entry i, operands i)"
    "parse_instr (show_ins i) = Some (table_entry i, operands i)"
proof -
  obtain c t where m: "mnemonic i = c # t" "tok_char c"
    using mnemonic_chars(1,2) [OF assms] by (cases "mnemonic i") auto
  have sk: "SKIP_BLANK (show_ins i) = show_ins i" using m by (simp add: show_ins_def)
  have "ends (\<lambda>c. \<not> isspace c) (operands i)"
    using operands_blank [of i] by (auto simp: ends_def isspace_def)
  moreover have "list_all (\<lambda>c. \<not> isspace c) (mnemonic i)"
    using mnemonic_chars(2) [OF assms] by (auto simp: list_all_iff)
  ultimately have "scan_word (show_ins i) = mnemonic i"
    using takeWhile_token [of "\<lambda>c. \<not> isspace c" "mnemonic i" "operands i"] m
    by (simp add: scan_word_def show_ins_def)
  then show "parse_instr (show_ins i) = Some (table_entry i, operands i)"
    using mnemonic_table [OF assms] mnemonic_chars(4) [OF assms] sk
    by (simp add: parse_instr_def show_ins_def)
  then show "parse_instr (CHR '' '' # show_ins i) = Some (table_entry i, operands i)"
    using sk by (simp add: parse_instr_def)
qed

lemma parse_label_show:
  assumes "writable_ins i"
  shows "parse_label blk (show_ins i) = None"
proof -
  obtain c t where m: "mnemonic i = c # t" "tok_char c"
    using mnemonic_chars(1,2) [OF assms] by (cases "mnemonic i") auto
  show ?thesis
  proof (cases "c = CHR ''.''")
    case True
    then show ?thesis using m
      by (simp add: parse_label_def show_ins_def IS_LETTER_def isletter_def)
  next
    case False
    then have "list_all word_char (mnemonic i)"
      using mnemonic_chars(3) [OF assms] m by (auto simp: list_all_iff)
    moreover have "ends word_char (operands i)"
      using operands_blank [of i]
      by (auto simp: ends_def word_char_def isletter_def isdigit_def digit_char_def)
    ultimately have "dropWhile word_char (mnemonic i @ operands i) = operands i"
      using takeWhile_token by blast
    then have "dropWhile word_char (show_ins i) = operands i" by (simp only: show_ins_def)
    moreover have "SKIP_BLANK (show_ins i) = show_ins i" using m by (simp add: show_ins_def)
    ultimately show ?thesis using operands_blank [of i]
      by (auto simp: parse_label_def Let_def)
  qed
qed

definition bin_of :: "long \<Rightarrow> sins \<Rightarrow> bin_t" where
  "bin_of a i = \<lparr>b_addr = a, b_codes = pad10 (raw_code i), b_bytes = length (raw_code i)\<rparr>"

definition line_of :: "long \<Rightarrow> sins \<Rightarrow> line_t" where
  "line_of a i = \<lparr>l_type = TYPE_INS, l_y64bin = bin_of a i, l_y64asm = show_src (Ins i)\<rparr>"

definition relocs :: "nat \<Rightarrow> sins \<Rightarrow> reloc_t list" where
  "relocs k i = (case label_ref i of None \<Rightarrow> [] | Some l \<Rightarrow> [(k, l)])"

lemma le_bytes_0 [simp]: "le_bytes n 0 = replicate n 0"
  by (induction n) simp_all

lemma splice_codes:
  "splice (x # replicate 9 0) (Suc 0) [y] = x # y # replicate 8 0"
  "splice (x # y # replicate 8 0) 2 (le_bytes 8 v) = x # y # le_bytes 8 v"
  "splice (x # replicate 9 0) 2 (le_bytes 8 v) = x # 0 # le_bytes 8 v"
  "splice (x # z # le_bytes 8 v) (Suc 0) [y] = x # y # le_bytes 8 v"
  "splice (x # replicate 9 0) 0 (le_bytes 8 v) = le_bytes 8 v @ [0, 0]"
  by (simp_all add: splice_def numeral_eq_Suc)

lemma itype_of_12 [simp]: "itype_of 12 = Some I_DIRECTIVE"
  by (simp add: itype_of_def itypes_def rd_def)

lemmas line_defs = line_rrmovq_def line_irmovq_def line_rmmovq_def line_mrmovq_def line_alu_def
  line_jmp_def line_pushq_def line_data_def line_directive_def set_code_def pack_regs_def
  reloc_here_def add_reloc_def

lemma parse_imm_hex [simp]:
  "parse_imm blk (CHR '' '' # CHR ''$'' # show_hex v @ CHR '','' # s) = Some (Digit v, CHR '','' # s)"
  by (simp add: parse_imm_def IS_IMM_def IS_DIGIT_def blank_def TAB_def strtoul_hex)

lemma parse_data_hex [simp]:
  "parse_data blk (CHR '' '' # show_hex v) = Some (Digit v, [])"
  using SKIP_BLANK_hex [of v "[]"] show_hex_digit(1) [of v "[]"]
  by (simp add: parse_data_def IS_DIGIT_def)

lemma line_operands_show:
  assumes "writable_ins i" and "terminated blk \<or> label_ref i = None"
    and "line = (new_line (show_src (Ins i)))\<lparr>l_type := TYPE_INS,
           l_y64bin := \<lparr>b_addr = a, b_codes = pad10 [i_code (table_entry i)], b_bytes = length (raw_code i)\<rparr>\<rparr>"
  shows "line_operands (table_entry i) blk st line (operands i) =
    Some (st\<lparr>a_reltab := a_reltab st @ relocs (length (a_lines st)) i\<rparr>, line_of a i, Some [])"
proof -
  have e: "ends word_char (CHR '','' # s)" "ends word_char []" for s
    by (simp_all add: ends_def word_char_def digit_char_def isletter_def isdigit_def)
  have sy: "terminated blk \<Longrightarrow> ident l \<Longrightarrow> parse_symbol blk (CHR '' '' # l) = Some (l, [])"
    "terminated blk \<Longrightarrow> ident l \<Longrightarrow> parse_data blk (CHR '' '' # l) = Some (Symbol l, [])" for l
    using parse_symbol_ident [of l "[]" blk] e by simp_all
  have im: "terminated blk \<Longrightarrow> ident l \<Longrightarrow> parse_imm blk (CHR '' '' # l @ CHR '','' # s) = Some (Symbol l, CHR '','' # s)" for l s
    using parse_symbol_ident(3) [of l "CHR '','' # s" blk] e by simp
  have r: "nat REG_NONE = 15" "replicate 8 (0::byte) @ [0] = replicate 9 0"
    "replicate 7 (0::byte) @ [0, 0] = replicate 9 0" "replicate 2 (0::byte) = [0, 0]"
    by (simp_all add: REG_NONE_def numeral_eq_Suc)
  show ?thesis
    using assms e
    apply (cases i rule: mnemonic.cases)
    apply (simp_all add: line_operands_def F_NONE_def sy line_of_def bin_of_def new_line_def pad10_def relocs_def)
    apply (simp_all add: line_defs sy im e r splice_codes parse_mem_show)
    done
qed


definition after_ins :: "sins \<Rightarrow> asm_t \<Rightarrow> asm_t" where
  "after_ins i st = st\<lparr>a_vmaddr := a_vmaddr st + of_nat (length (raw_code i)),
     a_reltab := a_reltab st @ relocs (length (a_lines st)) i\<rparr>"

lemma entry_bytes: "writable_ins i \<Longrightarrow> i_bytes (table_entry i) = length (raw_code i)"
  by (cases i rule: mnemonic.cases) simp_all

lemma line_instr_show:
  assumes "writable_ins i" and "terminated blk \<or> label_ref i = None"
  shows "line_instr blk st (new_line (show_src (Ins i))) (show_ins i) =
    Some (TYPE_INS, after_ins i st, line_of (a_vmaddr st) i)"
proof -
  have "splice (replicate 10 0) 0 [x] = pad10 [x :: byte]" for x
    by (simp add: splice_def pad10_def numeral_eq_Suc)
  then have l: "set_code 0 [i_code (table_entry i)]
      ((new_line (show_src (Ins i)))\<lparr>l_type := TYPE_INS,
        l_y64bin := (l_y64bin (new_line (show_src (Ins i))))
          \<lparr>b_addr := a_vmaddr st, b_bytes := length (raw_code i)\<rparr>\<rparr>) =
      (new_line (show_src (Ins i)))\<lparr>l_type := TYPE_INS,
        l_y64bin := \<lparr>b_addr = a_vmaddr st, b_codes = pad10 [i_code (table_entry i)],
          b_bytes = length (raw_code i)\<rparr>\<rparr>"
    by (simp add: set_code_def new_line_def)
  show ?thesis
    unfolding line_instr_def parse_instr_show(2) [OF assms(1)] entry_bytes [OF assms(1)] option.case
      prod.case Let_def l line_operands_show [OF assms refl]
    by (simp add: IS_END_def after_ins_def line_of_def)
qed

lemma parse_line_ins:
  assumes "writable_ins i" and "terminated blk \<or> label_ref i = None"
  shows "parse_line blk st (new_line (show_src (Ins i))) =
    Some (TYPE_INS, after_ins i st, line_of (a_vmaddr st) i)"
proof -
  obtain c t where m: "mnemonic i = c # t" "tok_char c"
    using mnemonic_chars(1,2) [OF assms(1)] by (cases "mnemonic i") auto
  then have s: "show_ins i = c # t @ operands i" by (simp add: show_ins_def)
  have "SKIP_BLANK (l_y64asm (new_line (show_src (Ins i)))) = show_ins i"
    using m(2) by (simp add: new_line_def s)
  moreover have "\<not> IS_END (show_ins i)" "\<not> IS_COMMENT (show_ins i)"
    using m(2) by (auto simp: s IS_END_def IS_COMMENT_def)
  ultimately show ?thesis
    unfolding parse_line_def Let_def using parse_label_show [OF assms(1)] line_instr_show [OF assms]
    by simp
qed

definition label_line :: "long \<Rightarrow> string \<Rightarrow> line_t" where
  "label_line a n = \<lparr>l_type = TYPE_INS,
     l_y64bin = \<lparr>b_addr = a, b_codes = replicate 10 0, b_bytes = 0\<rparr>, l_y64asm = show_src (Label n)\<rparr>"

lemma find_symbol_None: "find_symbol st n = None \<longleftrightarrow> n \<notin> fst ` set st"
  by (force simp: find_symbol_def find_None_iff)

lemma set_symbol_addr_new:
  "n \<notin> fst ` set st \<Longrightarrow> set_symbol_addr (st @ [(n, b)]) n a = st @ [(n, a)]"
  by (induction st n a rule: set_symbol_addr.induct) auto

lemma parse_label_ident:
  assumes "ident n" and "terminated blk"
  shows "parse_label blk (n @ '':'') = Some (n, [])" "SKIP_BLANK (n @ '':'') = n @ '':''"
proof -
  obtain c t where n: "n = c # t" "isletter c" "list_all word_char t"
    using assms(1) by (cases n) (auto simp: ident_def)
  have "ends word_char '':''"
    by (simp add: ends_def word_char_def digit_char_def isletter_def isdigit_def)
  then have "takeWhile word_char (n @ '':'') = n" "dropWhile word_char (n @ '':'') = '':''"
    using takeWhile_token [of word_char n "'':''"] assms(1) by (auto simp: ident_def)
  moreover from this have nm: "name_in (blk (n @ '':'')) n = n"
    using name_in_terminated [OF assms(2), of "n @ '':''"] by simp
  moreover show s: "SKIP_BLANK (n @ '':'') = n @ '':''" using n by simp
  moreover have "IS_LETTER (n @ '':'')" using n by (simp add: IS_LETTER_def)
  ultimately show "parse_label blk (n @ '':'') = Some (n, [])"
    unfolding parse_label_def Let_def by (simp add: nm)
qed

lemma parse_line_label:
  assumes "ident n" and "terminated blk" and "n \<notin> fst ` set (a_symtab st)"
  shows "parse_line blk st (new_line (show_src (Label n))) =
    Some (TYPE_INS, st\<lparr>a_symtab := a_symtab st @ [(n, a_vmaddr st)]\<rparr>, label_line (a_vmaddr st) n)"
proof -
  obtain c t where n: "n = c # t" "isletter c" using assms(1) by (cases n) (auto simp: ident_def)
  have "\<not> IS_END (n @ '':'')" "\<not> IS_COMMENT (n @ '':'')"
    using n by (auto simp: IS_END_def IS_COMMENT_def)
  then show ?thesis
    unfolding parse_line_def Let_def
    using parse_label_ident [OF assms(1,2)] assms(3)
    by (simp add: new_line_def add_symbol_def find_symbol_None set_symbol_addr_new IS_END_def
        set_addr_def label_line_def)
qed

section \<open>Whole programs\<close>

text \<open>The lines of a program laid out from \<open>a\<close>, its label table and the references it makes.\<close>

fun src_size :: "src \<Rightarrow> nat" where
  "src_size (Label n) = 0"
| "src_size (Ins i) = length (raw_code i)"

fun lines_at :: "long \<Rightarrow> src list \<Rightarrow> line_t list" where
  "lines_at a [] = []"
| "lines_at a (Label n # p) = label_line a n # lines_at a p"
| "lines_at a (Ins i # p) = line_of a i # lines_at (a + of_nat (length (raw_code i))) p"

fun labels_at :: "long \<Rightarrow> src list \<Rightarrow> symbol_t list" where
  "labels_at a [] = []"
| "labels_at a (Label n # p) = (n, a) # labels_at a p"
| "labels_at a (Ins i # p) = labels_at (a + of_nat (length (raw_code i))) p"

fun refs_at :: "nat \<Rightarrow> src list \<Rightarrow> reloc_t list" where
  "refs_at k [] = []"
| "refs_at k (Label n # p) = refs_at (Suc k) p"
| "refs_at k (Ins i # p) = relocs k i @ refs_at (Suc k) p"

fun writable_src :: "src \<Rightarrow> bool" where
  "writable_src (Label n) = ident n"
| "writable_src (Ins i) = writable_ins i"

definition size_prog :: "src list \<Rightarrow> nat" where
  "size_prog p = sum_list (map src_size p)"

lemma list_all_plain_hex: "list_all plain (hexdigs k n)"
proof -
  have "list_all (\<lambda>d. plain (hexchar d)) [0..<16]" by code_simp
  then have "d < 16 \<Longrightarrow> plain (hexchar d)" for d by (simp only: list_all_iff set_upt) simp
  then show ?thesis by (induction k arbitrary: n) simp_all
qed

lemma length_hexdigs [simp]: "length (hexdigs k n) = k"
  by (induction k arbitrary: n) simp_all

lemma show_hex_plain [simp]: "list_all plain (show_hex v)" "length (show_hex v) = 18"
  using list_all_plain_hex by (simp_all add: show_hex_def plain_def NEWLINE_def RETURN_def NUL_def)

lemma show_reg_plain: "a_reg r \<Longrightarrow> list_all plain (show_reg r)"
proof -
  assume "a_reg r"
  then obtain t where "show_reg r = CHR ''%'' # t" "list_all word_char t"
    using show_reg_facts(2) [of r] by blast
  moreover from this have "list_all plain t" using word_char_plain by (simp add: list_all_iff)
  ultimately show ?thesis by (simp add: plain_def NEWLINE_def RETURN_def NUL_def)
qed

lemma ident_plain: "ident n \<Longrightarrow> list_all plain n"
  using word_char_plain by (auto simp: ident_def list_all_iff)

lemma tok_plain: "tok_char c \<Longrightarrow> plain c"
  using word_char_plain isletter_not(3)
  by (auto simp: tok_char_def) (simp add: plain_def NEWLINE_def RETURN_def NUL_def)

lemma operands_plain:
  assumes "writable_ins i"
  shows "list_all plain (operands i)" "length (operands i) \<le> 460"
proof -
  have p: "plain CHR '' ''" "plain CHR '',''" "plain CHR ''$''" "plain CHR ''(''" "plain CHR '')''"
    by (simp_all add: plain_def NEWLINE_def RETURN_def NUL_def)
  show "list_all plain (operands i)"
    using assms p show_reg_plain ident_plain by (cases i rule: mnemonic.cases) simp_all
  show "length (operands i) \<le> 460"
    using assms
    by (cases i rule: mnemonic.cases)
      (auto simp: ident_def dest!: show_reg_facts(3))
qed

lemma mnemonic_length: "length (mnemonic i) \<le> 6"
proof -
  have "length (mov_name c) \<le> 6" "length (jmp_name c) \<le> 6" for c by (cases c; simp)+
  moreover have "length (alu_name a) \<le> 6" for a by (cases a) simp_all
  ultimately show ?thesis by (cases i rule: mnemonic.cases) simp_all
qed

lemma show_src_plain:
  assumes "writable_src l"
  shows "list_all plain (show_src l)" "length (show_src l) < 510"
proof -
  have p: "plain CHR '' ''" "plain CHR '':''"
    by (simp_all add: plain_def NEWLINE_def RETURN_def NUL_def)
  have "list_all plain (show_src l) \<and> length (show_src l) < 510"
  proof (cases l)
    case (Label n)
    then show ?thesis using assms ident_plain [of n] p by (auto simp: ident_def)
  next
    case (Ins i)
    then have w: "writable_ins i" using assms by simp
    then have "list_all plain (mnemonic i)"
      using mnemonic_chars(2) [OF w] tok_plain by (auto simp: list_all_iff)
    then show ?thesis using operands_plain [OF w] mnemonic_length [of i] p Ins
      by (simp add: show_ins_def)
  qed
  then show "list_all plain (show_src l)" "length (show_src l) < 510" by simp_all
qed

end
