(* ===== verification/Y64AsmProgram.thy ===== *)
theory Y64AsmProgram
  imports Y64AsmLines
begin

text \<open>
  The assembler on whole programs: the three passes composed, and what the simulator then reads
  from the memory that holds the image.
\<close>

fun labels :: "src list \<Rightarrow> string list" where
  "labels [] = []"
| "labels (Label n # p) = n # labels p"
| "labels (Ins i # p) = labels p"

fun refs :: "src list \<Rightarrow> string list" where
  "refs [] = []"
| "refs (Label n # p) = refs p"
| "refs (Ins i # p) = (case label_ref i of None \<Rightarrow> refs p | Some l \<Rightarrow> l # refs p)"

text \<open>A program the assembler is expected to accept: lines that can be written, labels defined once.\<close>

definition well_formed :: "src list \<Rightarrow> bool" where
  "well_formed p \<longleftrightarrow> list_all writable_src p \<and> distinct (labels p) \<and> set (refs p) \<subseteq> set (labels p) \<and>
     size_prog p < 2 ^ 31"

text \<open>Names are used only where the blocks of \<open>malloc\<close> end them.\<close>

definition names_end :: "garbage \<Rightarrow> src list \<Rightarrow> bool" where
  "names_end g p \<longleftrightarrow> (\<forall>n. terminated (held g n)) \<or> (labels p = [] \<and> refs p = [])"

definition addr_of :: "symbol_t list \<Rightarrow> string \<Rightarrow> long" where
  "addr_of symtab l = (case find_symbol symtab l of Some (n, a) \<Rightarrow> a | None \<Rightarrow> 0)"

definition resolved :: "symbol_t list \<Rightarrow> sins \<Rightarrow> byte list" where
  "resolved symtab i = code_of (case label_ref i of Some l \<Rightarrow> addr_of symtab l | None \<Rightarrow> 0) i"

fun src_code :: "symbol_t list \<Rightarrow> src \<Rightarrow> byte list" where
  "src_code symtab (Label n) = []"
| "src_code symtab (Ins i) = resolved symtab i"

definition reference_image :: "src list \<Rightarrow> byte list" where
  "reference_image p = concat (map (src_code (labels_at 0 p)) p)"

fun final_lines :: "symbol_t list \<Rightarrow> long \<Rightarrow> src list \<Rightarrow> line_t list" where
  "final_lines symtab a [] = []"
| "final_lines symtab a (Label n # p) = label_line a n # final_lines symtab a p"
| "final_lines symtab a (Ins i # p) =
     (line_of a i)\<lparr>l_y64bin := (bin_of a i)\<lparr>b_codes := pad10 (resolved symtab i)\<rparr>\<rparr>
       # final_lines symtab (a + of_nat (length (raw_code i))) p"

section \<open>First pass\<close>

lemma strip_line: "list_all plain s \<Longrightarrow> strip_newline (cstr (s @ [NEWLINE])) = s"
proof -
  assume s: "list_all plain s"
  then have "takeWhile (\<lambda>c. c \<noteq> NUL) (s @ [NEWLINE]) = s @ [NEWLINE]"
    by (auto simp: list_all_iff plain_def NEWLINE_def NUL_def)
  moreover have "dropWhile (\<lambda>c. c = NEWLINE \<or> c = RETURN) (rev s) = rev s"
    using s by (cases s rule: rev_cases) (auto simp: plain_def)
  ultimately show ?thesis by (simp add: cstr_def strip_newline_def)
qed

lemma assemble_line:
  assumes "list_all plain s" and "length s < 510" and "s \<noteq> []"
  shows "assemble g st (s @ NEWLINE # rest) =
    (case parse_line (held g (a_lineno st + 1)) (st\<lparr>a_lineno := a_lineno st + 1\<rparr>) (new_line s) of
       None \<Rightarrow> None
     | Some (ty, st2, line) \<Rightarrow>
         if ty = TYPE_ERR then Some (-1, st2\<lparr>a_lines := a_lines st2 @ [line]\<rparr>)
         else assemble g (st2\<lparr>a_lines := a_lines st2 @ [line]\<rparr>) rest)"
proof -
  have "NEWLINE \<notin> set s" using assms(1) by (auto simp: list_all_iff plain_def)
  then have f: "fgets (Suc (MAX_INSLEN - 2)) (s @ NEWLINE # rest) = (s @ [NEWLINE], rest)"
    using assms(2) by (intro fgets_line) (simp_all add: MAX_INSLEN_def)
  obtain c cs where e: "s @ NEWLINE # rest = c # cs" by (cases "s @ NEWLINE # rest") auto
  show ?thesis
    using f strip_line [OF assms(1)] assms(3) unfolding e by (simp add: Let_def split: option.splits)
qed

lemma show_src_nonempty: "show_src l \<noteq> []"
  by (cases l) simp_all

lemma assemble_prog:
  assumes "list_all writable_src p" and "names_end g p"
    and "distinct (labels p)" and "set (labels p) \<inter> fst ` set (a_symtab st) = {}"
  shows "assemble g st (show_prog p) =
    Some (0, st\<lparr>a_lines := a_lines st @ lines_at (a_vmaddr st) p, a_lineno := -1,
      a_vmaddr := a_vmaddr st + of_nat (size_prog p),
      a_symtab := a_symtab st @ labels_at (a_vmaddr st) p,
      a_reltab := a_reltab st @ refs_at (length (a_lines st)) p\<rparr>)"
  using assms
proof (induction p arbitrary: st)
  case Nil
  then show ?case by (simp add: show_prog_def size_prog_def)
next
  case (Cons l p)
  have sp: "show_prog (l # p) = show_src l @ NEWLINE # show_prog p" by (simp add: show_prog_def)
  have w: "writable_src l" using Cons.prems by simp
  show ?case
  proof (cases l)
    case (Label n)
    have fresh: "n \<notin> fst ` set (a_symtab (st\<lparr>a_lineno := a_lineno st + 1\<rparr>))"
      using Cons.prems Label by simp
    show ?thesis
      unfolding sp assemble_line [OF show_src_plain [OF w] show_src_nonempty]
      unfolding Label using parse_line_label [OF _ _ fresh] w Cons Label
      by (auto simp: size_prog_def names_end_def)
  next
    case (Ins i)
    have "terminated (held g (a_lineno st + 1)) \<or> label_ref i = None" and g: "names_end g p"
      using Cons.prems(2) Ins by (auto simp: names_end_def split: option.splits)
    then show ?thesis
      unfolding sp assemble_line [OF show_src_plain [OF w] show_src_nonempty]
      unfolding Ins using parse_line_ins [of i "held g (a_lineno st + 1)" "st\<lparr>a_lineno := a_lineno st + 1\<rparr>"] w Cons Ins g
      by (simp add: size_prog_def after_ins_def add.assoc)
  qed
qed

section \<open>Relocation\<close>

lemma length_encode_0: "length (encode i) \<le> 10" by (cases i) simp_all

lemma length_resolved [simp]: "length (resolved symtab i) = length (raw_code i)"
  unfolding resolved_def by (cases i) simp_all

lemma relocate_bin_of:
  assumes "label_ref i = Some l" and "writable_ins i"
  shows "relocate_bin (bin_of a i) b = (bin_of a i)\<lparr>b_codes := pad10 (code_of b i)\<rparr>"
proof -
  have s: "splice (x # y # replicate 8 0) 2 (le_bytes 8 b) = x # y # le_bytes 8 b"
    "splice (x # replicate 9 0) (Suc 0) (le_bytes 8 b) = x # le_bytes 8 b @ [0]"
    "splice (x # replicate 9 0) 0 (le_bytes 8 b) = le_bytes 8 b @ [0, 0]"
    "replicate 2 (0::byte) = [0, 0]" "replicate 8 (0::byte) @ [0] = replicate 9 0"
    "replicate 7 (0::byte) @ [0, 0] = replicate 9 0" for x y
    by (simp_all add: splice_def numeral_eq_Suc)
  show ?thesis
    using assms by (cases i) (simp_all add: relocate_bin_def bin_of_def pad10_def s)
qed

lemma find_symbol_in:
  "l \<in> fst ` set symtab \<Longrightarrow> find_symbol symtab l = Some (l, addr_of symtab l)"
proof -
  assume "l \<in> fst ` set symtab"
  then have "find_symbol symtab l \<noteq> None" by (simp add: find_symbol_None)
  then obtain n a where f: "find_symbol symtab l = Some (n, a)" by auto
  then have "n = l" by (auto simp: find_symbol_def find_Some_iff)
  then show ?thesis using f by (simp add: addr_of_def)
qed

lemma resolved_plain: "label_ref i = None \<Longrightarrow> resolved symtab i = raw_code i"
  by (cases i) (simp_all add: resolved_def)

lemma relocate_prog:
  assumes "list_all writable_src p" and "set (refs p) \<subseteq> fst ` set symtab"
  shows "relocate_loop symtab (refs_at (length pre) p) (pre @ lines_at a p) =
    (0, pre @ final_lines symtab a p)"
  using assms
proof (induction p arbitrary: pre a)
  case Nil
  then show ?case by simp
next
  case (Cons l p)
  show ?case
  proof (cases l)
    case (Label n)
    then show ?thesis using Cons.IH [of "pre @ [label_line a n]" a] Cons.prems by simp
  next
    case (Ins i)
    let ?a = "a + of_nat (length (raw_code i))"
    let ?line = "(line_of a i)\<lparr>l_y64bin := (bin_of a i)\<lparr>b_codes := pad10 (resolved symtab i)\<rparr>\<rparr>"
    have w: "writable_ins i" using Cons.prems Ins by simp
    show ?thesis
    proof (cases "label_ref i")
      case None
      then have "?line = line_of a i" by (simp add: resolved_plain line_of_def bin_of_def)
      then show ?thesis using Cons.IH [of "pre @ [line_of a i]" ?a] Cons.prems Ins None
        by (simp add: relocs_def)
    next
      case (Some k)
      then have "k \<in> fst ` set symtab" using Cons.prems Ins by simp
      then have f: "find_symbol symtab k = Some (k, addr_of symtab k)" by (rule find_symbol_in)
      have "relocate_bin (bin_of a i) (addr_of symtab k) =
          (bin_of a i)\<lparr>b_codes := pad10 (resolved symtab i)\<rparr>"
        using relocate_bin_of [OF Some w] Some by (simp add: resolved_def)
      then show ?thesis using Cons.IH [of "pre @ [?line]" ?a] Cons.prems Ins Some f
        by (simp add: relocs_def line_of_def)
    qed
  qed
qed

section \<open>The image\<close>

lemma raw_code_bounds: "writable_ins i \<Longrightarrow> 0 < length (raw_code i) \<and> length (raw_code i) \<le> 10"
  by (cases i rule: mnemonic.cases) simp_all

lemma size_Cons: "size_prog (l # p) = src_size l + size_prog p"
  by (simp add: size_prog_def)

lemma sint_small: "k < 2 ^ 31 \<Longrightarrow> sint (of_nat k :: long) = int k"
  using sint_word_of_int_long [of "int k"] by simp

lemma of_nat_long_add: "(of_nat k :: long) + of_nat n = of_nat (k + n)" by simp

lemma image_size_prog:
  assumes "list_all writable_src p" and "k + size_prog p < 2 ^ 31"
  shows "image_size (final_lines symtab (of_nat k) p) (int k) = int (k + size_prog p)"
  using assms
proof (induction p arbitrary: k)
  case Nil
  then show ?case by (simp add: size_prog_def)
next
  case (Cons l p)
  show ?case
  proof (cases l)
    case (Label n)
    then show ?thesis using Cons by (simp add: label_line_def emitted_def size_Cons)
  next
    case (Ins i)
    let ?n = "length (raw_code i)"
    have n: "0 < ?n" using Cons.prems Ins raw_code_bounds [of i] by auto
    have k: "k + ?n < 2 ^ 31" using Cons.prems(2) Ins by (simp add: size_Cons)
    have "ucast (of_nat k + of_nat ?n :: long) = (word_of_int (int (k + ?n)) :: 32 word)"
      unfolding of_nat_long_add using k by (simp add: unsigned_of_nat take_bit_nat_eq_self del: of_nat_add)
    moreover have "sint (word_of_int (int (k + ?n)) :: 32 word) = int (k + ?n)"
      unfolding sint_sbintrunc' using k by (intro signed_take_bit_int_eq_self) simp_all
    ultimately have "sint (ucast (of_nat k + of_nat ?n :: long) :: 32 word) = int (k + ?n)" by simp
    then show ?thesis
      using Cons.IH [of "k + ?n"] Cons.prems Ins n
      by (simp add: line_of_def bin_of_def emitted_def size_Cons)
  qed
qed

lemma splice_end: "splice (pre @ replicate (length ys + m) z) (length pre) ys = pre @ ys @ replicate m z"
  by (simp add: splice_def)

lemma copy_lines_prog:
  assumes "list_all writable_src p" and "length pre + size_prog p < 2 ^ 31"
  shows "copy_lines (final_lines symtab (of_nat (length pre)) p) (pre @ replicate (size_prog p) 0) =
    Some (pre @ concat (map (src_code symtab) p))"
  using assms
proof (induction p arbitrary: pre)
  case Nil
  then show ?case by (simp add: size_prog_def)
next
  case (Cons l p)
  show ?case
  proof (cases l)
    case (Label n)
    then show ?thesis using Cons by (simp add: label_line_def emitted_def size_Cons)
  next
    case (Ins i)
    let ?c = "resolved symtab i"
    have n: "0 < length (raw_code i)" using Cons.prems Ins raw_code_bounds [of i] by auto
    have "length pre < 2 ^ 31" using Cons.prems(2) by simp
    then have a: "sint (of_nat (length pre) :: long) = int (length pre)" by (rule sint_small)
    have t: "take (length (raw_code i)) (pad10 ?c) = ?c" by (simp add: pad10_def)
    show ?thesis
      using Cons.IH [of "pre @ ?c"] Cons.prems Ins n a t
        splice_end [of pre ?c "size_prog p" 0]
      by (simp add: line_of_def bin_of_def emitted_def size_Cons)
  qed
qed

lemma labels_at_fst: "map fst (labels_at a p) = labels p"
  by (induction a p rule: labels_at.induct) simp_all

lemma assemble_text_prog:
  assumes "well_formed p" and "names_end g p"
  shows "assemble_text g (show_prog p) =
    Some (0, \<lparr>a_lines = final_lines (labels_at 0 p) 0 p, a_lineno = -1,
      a_vmaddr = of_nat (size_prog p), a_symtab = labels_at 0 p, a_reltab = refs_at 0 p\<rparr>)"
proof -
  have "set (refs p) \<subseteq> fst ` set (labels_at 0 p)"
    using assms(1) labels_at_fst [of 0 p] by (simp add: well_formed_def flip: set_map)
  then have r: "relocate_loop (labels_at 0 p) (refs_at 0 p) (lines_at 0 p) =
      (0, final_lines (labels_at 0 p) 0 p)"
    using relocate_prog [of p "labels_at 0 p" "[]" 0] assms(1) by (simp add: well_formed_def)
  show ?thesis
    using assemble_prog [of p g init] assms r
    by (simp add: assemble_text_def init_def well_formed_def relocate_def)
qed

lemma binfile_prog:
  assumes "well_formed p"
  shows "binfile \<lparr>a_lines = final_lines (labels_at 0 p) 0 p, a_lineno = -1,
      a_vmaddr = of_nat (size_prog p), a_symtab = labels_at 0 p, a_reltab = refs_at 0 p\<rparr> = Some (reference_image p)"
proof -
  have "image_size (final_lines (labels_at 0 p) 0 p) 0 = int (size_prog p)"
    using image_size_prog [of p 0 "labels_at 0 p"] assms by (simp add: well_formed_def)
  moreover have "copy_lines (final_lines (labels_at 0 p) 0 p) (replicate (size_prog p) 0) = Some (reference_image p)"
    using copy_lines_prog [of p "[]" "labels_at 0 p"] assms by (simp add: well_formed_def reference_image_def)
  ultimately show ?thesis by (simp add: binfile_def)
qed

lemma length_final_lines [simp]: "length (final_lines symtab a p) = length p"
  by (induction symtab a p rule: final_lines.induct) simp_all

lemma final_lines_append:
  "final_lines symtab a (p @ q) = final_lines symtab a p @ final_lines symtab (a + of_nat (size_prog p)) q"
  by (induction symtab a p rule: final_lines.induct) (simp_all add: size_prog_def add.assoc)

text \<open>The assembler gives the line behind \<open>q\<close> the address where the code of \<open>q\<close> ends.\<close>

lemma line_address:
  "b_addr (l_y64bin (final_lines symtab 0 (q @ Ins i # r) ! length q)) = of_nat (size_prog q)"
  by (simp add: final_lines_append nth_append bin_of_def)

section \<open>What the simulator reads\<close>

fun instr_of :: "symbol_t list \<Rightarrow> sins \<Rightarrow> instr option" where
  "instr_of symtab (Plain i) = Some i"
| "instr_of symtab (Mov_label rb l) = Some (Irmovq rb (addr_of symtab l))"
| "instr_of symtab (Jmp_label c l) = Some (Jmp c (addr_of symtab l))"
| "instr_of symtab (Call_label l) = Some (Call (addr_of symtab l))"
| "instr_of symtab _ = None"

lemma resolved_instr: "instr_of symtab i = Some j \<Longrightarrow> resolved symtab i = encode j"
  by (cases i) (auto simp: resolved_def)

lemma instr_of_wf: "writable_ins i \<Longrightarrow> instr_of symtab i = Some j \<Longrightarrow> wf_instr j"
  by (cases i rule: mnemonic.cases) (auto simp: a_reg_def reg_field_def)

lemma length_src_code: "length (concat (map (src_code symtab) p)) = size_prog p"
proof (induction p)
  case (Cons l p)
  then show ?case by (cases l) (simp_all add: size_Cons)
qed (simp add: size_prog_def)

lemma size_append: "size_prog (p @ q) = size_prog p + size_prog q"
  by (simp add: size_prog_def)

lemma labels_at_append: "labels_at a (p @ q) = labels_at a p @ labels_at (a + of_nat (size_prog p)) q"
  by (induction a p rule: labels_at.induct) (simp_all add: size_prog_def add.assoc)

lemma find_append_None: "find P xs = None \<Longrightarrow> find P (xs @ ys) = find P ys"
  by (induction xs) (auto split: if_splits)

lemma addr_of_label:
  assumes "well_formed (q @ Label n # r)"
  shows "addr_of (labels_at 0 (q @ Label n # r)) n = of_nat (size_prog q)"
proof -
  have "distinct (labels (q @ Label n # r))" using assms by (simp add: well_formed_def)
  moreover have "labels (q @ Label n # r) = labels q @ n # labels r"
    by (induction q rule: labels.induct) simp_all
  ultimately have "n \<notin> fst ` set (labels_at 0 q)"
    using labels_at_fst [of 0 q] by (auto simp flip: set_map)
  then have "find (\<lambda>(m, _). m = n) (labels_at 0 q) = None"
    by (force simp: find_None_iff)
  then have "find_symbol (labels_at 0 q @ (n, of_nat (size_prog q)) # r') n = Some (n, of_nat (size_prog q))" for r'
    unfolding find_symbol_def by (simp add: find_append_None)
  then show ?thesis by (simp add: addr_of_def labels_at_append)
qed


lemma abs_mem_image:
  assumes "k < length img" and "int (length img) < len m"
  shows "abs_mem (m\<lparr>data := img @ rest\<rparr>) (int k) = Some (img ! k)"
  using assms by (simp add: abs_mem_def rd_def nth_append)

section \<open>The symbol table\<close>

lemma add_symbol_distinct:
  "distinct (map fst st) \<Longrightarrow> add_symbol st n = Some st' \<Longrightarrow> distinct (map fst st')"
  by (auto simp: add_symbol_def find_symbol_None split: if_splits)

lemma set_symbol_addr_names [simp]: "map fst (set_symbol_addr st n a) = map fst st"
  by (induction st n a rule: set_symbol_addr.induct) auto

lemma rrmovq_symtab: "line_rrmovq st line s = (st', r) \<Longrightarrow> a_symtab st' = a_symtab st"
  unfolding line_rrmovq_def by (auto split: option.splits prod.splits if_splits operand.splits)

lemma irmovq_symtab: "line_irmovq blk st line s = (st', r) \<Longrightarrow> a_symtab st' = a_symtab st"
  unfolding line_irmovq_def reloc_here_def by (auto simp: Let_def split: option.splits prod.splits if_splits operand.splits)

lemma rmmovq_symtab: "line_rmmovq st line s = (st', r) \<Longrightarrow> a_symtab st' = a_symtab st"
  unfolding line_rmmovq_def by (auto split: option.splits prod.splits if_splits operand.splits)

lemma mrmovq_symtab: "line_mrmovq st line s = (st', r) \<Longrightarrow> a_symtab st' = a_symtab st"
  unfolding line_mrmovq_def by (auto split: option.splits prod.splits if_splits operand.splits)

lemma alu_symtab: "line_alu st line s = (st', r) \<Longrightarrow> a_symtab st' = a_symtab st"
  unfolding line_alu_def by (auto split: option.splits prod.splits if_splits operand.splits)

lemma jmp_symtab: "line_jmp blk st line s = (st', r) \<Longrightarrow> a_symtab st' = a_symtab st"
  unfolding line_jmp_def reloc_here_def by (auto split: option.splits prod.splits if_splits operand.splits)

lemma pushq_symtab: "line_pushq st line s = (st', r) \<Longrightarrow> a_symtab st' = a_symtab st"
  unfolding line_pushq_def by (auto split: option.splits prod.splits if_splits operand.splits)

lemma pos_symtab: "line_pos st line s = (st', r) \<Longrightarrow> a_symtab st' = a_symtab st"
  unfolding line_pos_def by (auto split: option.splits prod.splits if_splits operand.splits)

lemma align_symtab: "line_align st line s = Some (st', r) \<Longrightarrow> a_symtab st' = a_symtab st"
  unfolding line_align_def by (auto simp: Let_def split: option.splits prod.splits if_splits operand.splits)

lemma data_symtab: "line_data n blk st line s = (st', r) \<Longrightarrow> a_symtab st' = a_symtab st"
  unfolding line_data_def reloc_here_def by (auto split: option.splits prod.splits if_splits operand.splits)

lemmas parser_symtab = rrmovq_symtab irmovq_symtab rmmovq_symtab mrmovq_symtab alu_symtab
  jmp_symtab pushq_symtab pos_symtab align_symtab data_symtab

lemma directive_symtab:
  "line_directive n blk st line s = Some (st', r) \<Longrightarrow> a_symtab st' = a_symtab st"
  by (auto simp: line_directive_def parser_symtab split: if_splits)

lemma line_operands_symtab:
  "line_operands inst blk st line s = Some (st', r) \<Longrightarrow> a_symtab st' = a_symtab st"
  by (auto simp: line_operands_def parser_symtab directive_symtab split: option.splits itype_t.splits)

lemma line_instr_symtab:
  assumes "line_instr blk st line s = Some (ty, st', l')"
  shows "a_symtab st' = a_symtab st"
proof (cases "parse_instr s")
  case None
  then show ?thesis using assms by (simp add: line_instr_def)
next
  case (Some a)
  obtain inst t where a: "a = (inst, t)" by (cases a)
  show ?thesis
    using assms Some a unfolding line_instr_def
    by (force simp: Let_def split: option.splits prod.splits if_splits dest: line_operands_symtab)
qed

lemma parse_line_distinct:
  assumes "parse_line blk st line = Some (ty, st', l')" and "distinct (map fst (a_symtab st))"
  shows "distinct (map fst (a_symtab st'))"
proof -
  let ?t = "SKIP_BLANK (l_y64asm line)"
  show ?thesis
  proof (cases "IS_END ?t \<or> IS_COMMENT ?t")
    case True
    then show ?thesis using assms by (cases "IS_END ?t") (auto simp: parse_line_def)
  next
    case F: False
    show ?thesis
    proof (cases "parse_label blk ?t")
      case None
      then have "line_instr blk st line ?t = Some (ty, st', l')"
        using assms(1) F by (simp add: parse_line_def)
      then show ?thesis using line_instr_symtab assms(2) by metis
    next
      case (Some nt)
      obtain n t1 where nt: "nt = (n, t1)" by (cases nt)
      show ?thesis
      proof (cases "add_symbol (a_symtab st) n")
        case None
        then show ?thesis using assms F Some nt by (simp add: parse_line_def)
      next
        case (Some tab)
        let ?st = "st\<lparr>a_symtab := set_symbol_addr tab n (a_vmaddr st)\<rparr>"
        have d: "distinct (map fst (a_symtab ?st))"
          using add_symbol_distinct [OF assms(2) Some] by simp
        have "a_symtab st' = a_symtab ?st"
        proof (cases "IS_END (SKIP_BLANK t1) \<or> IS_COMMENT (SKIP_BLANK t1)")
          case True
          then show ?thesis using assms(1) F \<open>parse_label blk ?t = Some nt\<close> nt Some
            by (simp add: parse_line_def Let_def)
        next
          case False
          then have "line_instr blk ?st line (SKIP_BLANK t1) = Some (ty, st', l')"
            using assms(1) F \<open>parse_label blk ?t = Some nt\<close> nt Some
            by (simp add: parse_line_def Let_def)
          then show ?thesis by (rule line_instr_symtab)
        qed
        then show ?thesis using d by simp
      qed
    qed
  qed
qed

lemma assemble_distinct:
  "assemble g st s = Some (rc, st') \<Longrightarrow> distinct (map fst (a_symtab st)) \<Longrightarrow>
     distinct (map fst (a_symtab st'))"
  by (induction g st s rule: assemble.induct)
    (auto simp: Let_def split: option.splits prod.splits if_splits dest: parse_line_distinct)

lemma relocate_loop_rc:
  "fst (relocate_loop symtab rel ls) = (if snd ` set rel \<subseteq> fst ` set symtab then 0 else -1)"
proof (induction symtab rel ls rule: relocate_loop.induct)
  case (2 symtab k name rs ls)
  show ?case
  proof (cases "find_symbol symtab name")
    case None
    then show ?thesis using find_symbol_None [of symtab name] by auto
  next
    case (Some na)
    then have "name \<in> fst ` set symtab" using find_symbol_None [of symtab name] by simp
    then show ?thesis using 2 Some by (cases na) simp
  qed
qed simp

section \<open>Properties\<close>

text \<open>
  C3. The assembler on programs of label lines, instruction lines and \<open>.quad\<close> lines in the form of \<open>show_prog\<close>,
  with labels that are defined once and before the size of an \<open>int\<close>: the three passes accept the text, and
  the binary file is the concatenation of the encodings with each label replaced by its address.  The names must
  be followed by a zero in the blocks that \<open>malloc\<close> returns for them, unless the program uses no names.
\<close>

theorem assemble_correct:
  assumes "well_formed p" and "names_end g p"
  shows "\<exists>st. assemble_text g (show_prog p) = Some (0, st) \<and> binfile st = Some (reference_image p)"
  using assemble_text_prog [OF assms] binfile_prog [OF assms(1)] by blast

definition sample :: "src list" where
  "sample = [Ins (Mov_label 4 ''stack''), Label ''loop'', Ins (Plain (Alu A_SUB 1 0)),
     Ins (Jmp_label C_NE ''loop''), Ins (Plain (Pushq 0)), Ins (Plain Halt), Label ''stack'', Ins (Quad 7)]"

lemma sample_well_formed: "well_formed sample"
proof -
  have "list_all writable_src sample" by code_simp
  moreover have "distinct (labels sample)" by code_simp
  moreover have "list_all (\<lambda>l. l \<in> set (labels sample)) (refs sample)" by code_simp
  moreover have "size_prog sample < 2 ^ 31" by (simp add: size_prog_def sample_def)
  ultimately show ?thesis by (auto simp: well_formed_def list_all_iff)
qed

definition zeros :: garbage where "zeros = \<lparr>held = \<lambda>n p. [], before = \<lambda>n. NUL\<rparr>"

lemma names_end_zeros: "names_end zeros p"
  by (simp add: names_end_def zeros_def terminated_def cstr_def)

theorem assemble_correct_witness:
  "\<exists>st. assemble_text zeros (show_prog sample) = Some (0, st) \<and> binfile st = Some (reference_image sample)"
  by (rule assemble_correct) (use sample_well_formed names_end_zeros in simp_all)

text \<open>Where a block holds other bytes, a label is entered under a longer name and its uses are not found.\<close>

lemma stale_block:
  "case assemble_text \<lparr>held = \<lambda>n p. (if n = 1 then ''abcdefgh'' else []), before = \<lambda>n. NUL\<rparr>
      (''loop:'' @ NEWLINE # '' jmp loop'' @ [NEWLINE]) of
     None \<Rightarrow> False
   | Some (rc, st) \<Rightarrow> rc = -1 \<and> map fst (a_symtab st) = [''loopefgh'']"
  by code_simp

text \<open>The reference image in the memory of the simulator.\<close>

lemma image_decodes:
  assumes "well_formed (q @ Ins i # r)" and "instr_of (labels_at 0 (q @ Ins i # r)) i = Some j"
    and "mem_ok m" and "int (size_prog (q @ Ins i # r)) < len m"
  shows "decode (abs_mem (snd (load_binfile m (reference_image (q @ Ins i # r)) False)))
      (of_nat (size_prog q)) = Inr (j, of_nat (size_prog (q @ [Ins i])))"
proof -
  let ?p = "q @ Ins i # r" and ?img = "reference_image (q @ Ins i # r)"
  let ?s = "labels_at 0 ?p"
  have len: "length ?img = size_prog ?p" by (simp only: reference_image_def length_src_code)
  have m: "snd (load_binfile m ?img False) = m\<lparr>data := ?img @ drop (length ?img) (data m)\<rparr>"
    using assms(3,4) len by (simp add: load_binfile_def Let_def mem_ok_def splice_def)
  have small: "size_prog q < 2 ^ 31" using assms(1) by (simp add: well_formed_def size_append)
  have c: "encode j = resolved ?s i" using resolved_instr [OF assms(2)] by simp
  have split: "?img = concat (map (src_code ?s) q) @ encode j @ concat (map (src_code ?s) r)"
    by (simp add: reference_image_def c)
  have "holds_at (abs_mem (snd (load_binfile m ?img False))) (int (size_prog q)) (encode j)"
    unfolding holds_at_def m
  proof (intro allI impI)
    fix k assume k: "k < length (encode j)"
    have i: "?img ! (size_prog q + k) = encode j ! k"
      unfolding split using k by (simp add: nth_append length_src_code)
    have "size_prog q + k < length ?img"
      using k c by (simp add: split length_src_code size_append size_Cons)
    moreover have "int (length ?img) < len m" using assms(4) len by simp
    ultimately have "abs_mem (m\<lparr>data := ?img @ drop (length ?img) (data m)\<rparr>) (int (size_prog q + k)) =
        Some (?img ! (size_prog q + k))"
      by (rule abs_mem_image)
    with i
    show "abs_mem (m\<lparr>data := ?img @ drop (length ?img) (data m)\<rparr>) (int (size_prog q) + int k) =
        Some (encode j ! k)" by simp
  qed
  moreover have "wf_instr j"
    using instr_of_wf [OF _ assms(2)] assms(1) by (simp add: well_formed_def)
  ultimately have "decode (abs_mem (snd (load_binfile m ?img False))) (of_nat (size_prog q)) =
      Inr (j, of_nat (size_prog q) + of_nat (length (encode j)))"
    using sint_small [OF small] small by (intro decode_encode) simp_all
  then show ?thesis using c by (simp add: size_append size_Cons) (simp add: size_prog_def)
qed

text \<open>
  C11. Assembler and simulator agree: for a program as above, at the address that the assembler gives an instruction,
  the memory into which the simulator loaded the binary file decodes to that instruction, label operands
  resolved, and to the address of the next line.
\<close>

theorem assembled_decodes:
  assumes "well_formed (q @ Ins i # r)" and "names_end g (q @ Ins i # r)"
    and "instr_of (labels_at 0 (q @ Ins i # r)) i = Some j"
    and "mem_ok m" and "int (size_prog (q @ Ins i # r)) < len m"
  shows "\<exists>st img a. assemble_text g (show_prog (q @ Ins i # r)) = Some (0, st) \<and> binfile st = Some img \<and>
    a = b_addr (l_y64bin (a_lines st ! length q)) \<and>
    decode (abs_mem (snd (load_binfile m img False))) a = Inr (j, of_nat (size_prog (q @ [Ins i])))"
  using assemble_text_prog [OF assms(1,2)] binfile_prog [OF assms(1)] image_decodes [OF assms(1,3-5)]
    line_address [of "labels_at 0 (q @ Ins i # r)" q i r]
  by (intro exI conjI) (assumption, assumption, rule refl, simp)

theorem assembled_decodes_witness:
  "\<exists>st img. assemble_text zeros (show_prog sample) = Some (0, st) \<and> binfile st = Some img \<and>
    decode (abs_mem (snd (load_binfile (init_mem 64) img False))) (b_addr (l_y64bin (a_lines st ! 3))) = Inr (Jmp C_NE 10, 21)"
proof -
  have s: "sample = take 3 sample @ Ins (Jmp_label C_NE ''loop'') # drop 4 sample" and l: "length (take 3 sample) = 3"
    by (simp_all add: sample_def)
  have z: "size_prog (take 3 sample @ [Ins (Jmp_label C_NE ''loop'')]) = 21" "size_prog sample = 32"
    by (simp_all add: sample_def size_prog_def)
  have i: "instr_of (labels_at 0 sample) (Jmp_label C_NE ''loop'') = Some (Jmp C_NE 10)"
    by (simp add: addr_of_def find_symbol_def sample_def)
  have m: "mem_ok (init_mem 64)" "len (init_mem 64) = 64"
    by (simp_all add: init_mem_def Let_def BLK_SIZE_def mem_ok_def)
  show ?thesis
    using assembled_decodes [of "take 3 sample" "Jmp_label C_NE ''loop''" "drop 4 sample" zeros "Jmp C_NE 10"
        "init_mem 64", folded s, unfolded l] sample_well_formed names_end_zeros i m z by auto
qed

lemma label_address:
  assumes "well_formed (q @ Label n # r)"
  shows "find_symbol (labels_at 0 (q @ Label n # r)) n = Some (n, of_nat (size_prog q))"
proof -
  have "n \<in> fst ` set (labels_at 0 (q @ Label n # r))"
    by (simp add: labels_at_append)
  from find_symbol_in [OF this] show ?thesis by (simp only: addr_of_label [OF assms])
qed

text \<open>
  C28. On every input, accepted or not, the assembler ends (or traps), no label is in its table
  twice, and relocation succeeds exactly when every name that is used is in the table.
\<close>

theorem assembler_tables:
  "case assemble g init s of
     None \<Rightarrow> True
   | Some (rc, st) \<Rightarrow> distinct (map fst (a_symtab st)) \<and>
       fst (relocate st) = (if snd ` set (a_reltab st) \<subseteq> fst ` set (a_symtab st) then 0 else -1)"
proof -
  have "fst (relocate st) = (if snd ` set (a_reltab st) \<subseteq> fst ` set (a_symtab st) then 0 else -1)" for st
    using relocate_loop_rc [of "a_symtab st" "a_reltab st" "a_lines st"]
    by (simp add: relocate_def case_prod_beta Let_def)
  then show ?thesis
    using assemble_distinct [of g init s] by (simp add: init_def split: option.split)
qed

text \<open>
  The size of the image is the end of the last line that emits bytes, not the largest end: when
  \<open>.pos\<close> goes back, an earlier line is copied past the end of the image.
\<close>

lemma pos_back_overflows:
  "case assemble_text zeros ('' .pos 16'' @ NEWLINE # '' .quad 1'' @ NEWLINE # '' .pos 0'' @ NEWLINE # '' halt'' @ [NEWLINE]) of
     None \<Rightarrow> False
   | Some (rc, st) \<Rightarrow> rc = 0 \<and> image_size (a_lines st) 0 = 1 \<and> binfile st = None"
  by code_simp

end
