(* ===== verification/Y64SimMain.thy ===== *)
theory Y64SimMain
  imports Y64Theorems CStrings
begin

text \<open>
  The command line of the simulator: \<open>main\<close> of \<open>lab4/y64sim.c\<close> from its arguments on.  The name of the program
  file is tested by its last four characters; for a shorter name the code reads before the argument, \<open>None\<close> here.
\<close>

text \<open>The exit status of \<open>usage\<close>, or the file and the limit of steps.\<close>

definition sim_arguments :: "string list \<Rightarrow> (int + string \<times> int) option" where
  "sim_arguments argv =
     (if length argv < 2 \<or> 3 < length argv then Some (Inl 0)
      else let max_steps = (if 2 < length argv then atoi (argv ! 2) else MAX_STEP); name = argv ! 1
           in if length name < 4 then None
              else if drop (length name - 4) name \<noteq> ''.bin'' then Some (Inl 0)
              else Some (Inr (name, max_steps)))"

text \<open>\<open>files\<close>: the content of a file that can be opened, and whether reading it fails.\<close>

definition sim_program :: "(string \<Rightarrow> (byte list \<times> bool) option) \<Rightarrow> string list \<Rightarrow>
    (int \<times> (int \<times> stat_t \<times> y64sim_t \<times> (string \<times> long \<times> long) list \<times> (int \<times> long \<times> long) list) option) option"
  where
  "sim_program files argv =
     do {
       a \<leftarrow> sim_arguments argv;
       case a of
         Inl n \<Rightarrow> Some (n, None)
       | Inr (name, max_steps) \<Rightarrow>
           (case files name of None \<Rightarrow> Some (1, None) | Some (f, err) \<Rightarrow> sim_main f err max_steps)
     }"

lemma sim_arguments_bin:
  "sim_arguments [p, stem @ ''.bin''] = Some (Inr (stem @ ''.bin'', MAX_STEP))"
  "sim_arguments [p, stem @ ''.bin'', n] = Some (Inr (stem @ ''.bin'', atoi n))"
  by (simp_all add: sim_arguments_def)

lemma sim_program_no_file: "files (stem @ ''.bin'') = None \<Longrightarrow> sim_program files [p, stem @ ''.bin''] = Some (1, None)"
  by (simp add: sim_program_def sim_arguments_bin)

text \<open>A name of less than four characters is not rejected but read out of bounds.\<close>

lemma short_name: "length name < 4 \<Longrightarrow> sim_program files [p, name] = None"
  by (simp add: sim_program_def sim_arguments_def)

text \<open>
  A run of the program is a run of the abstract machine from the image of the file, of as many steps as asked for at
  most, and ends in a state with a status other than \<open>STAT_AOK\<close> unless the steps are used up.
\<close>

lemma fresh_sim: "sim_ok (new_y64sim MEM_SIZE)" "len (sim_m (new_y64sim MEM_SIZE)) = 8192"
  by (simp_all add: sim_ok_def new_y64sim_def mem_ok_init_mem MEM_SIZE_def) (simp add: init_mem_def Let_def BLK_SIZE_def)

lemma sim_program_refines:
  assumes f: "files (stem @ ''.bin'') = Some (f, False)" and "length f < 8192"
    and run: "sim_program files [p, stem @ ''.bin'', steps] = Some (rc, Some (n, e, s', dr, dm))"
  defines "s \<equiv> (new_y64sim MEM_SIZE)\<lparr>sim_m := (sim_m (new_y64sim MEM_SIZE))
      \<lparr>data := f @ drop (length f) (data (sim_m (new_y64sim MEM_SIZE)))\<rparr>\<rparr>"
  shows "rc = 0 \<and> isa_run (nat (atoi steps)) 0 STAT_AOK (abs_sim s) = (n, e, abs_sim s') \<and> n \<le> int (nat (atoi steps)) \<and>
    (e = STAT_AOK \<longrightarrow> n = int (nat (atoi steps)))"
proof -
  have small: "int (length f) < len (sim_m (new_y64sim MEM_SIZE))" using assms(2) by (simp add: fresh_sim)
  note ok = fresh_sim(1)
  have m: "mem_ok (sim_m (new_y64sim MEM_SIZE))" using ok by (simp add: sim_ok_def)
  have l: "load_binfile (sim_m (new_y64sim MEM_SIZE)) f False = (0, sim_m s)"
    unfolding load_ok [OF m small] by (simp add: s_def)
  have s: "s = (new_y64sim MEM_SIZE)\<lparr>sim_m := sim_m s\<rparr>" by (simp add: s_def)
  have ok_s: "sim_ok s" using ok small unfolding s_def by (auto simp: sim_ok_def mem_ok_def)
  have "sim_main f False (atoi steps) = Some (rc, Some (n, e, s', dr, dm))"
    using run f by (simp add: sim_program_def sim_arguments_bin)
  then have r: "rc = 0 \<and> run_sim (atoi steps) s = Some (n, e, s')"
    using l s by (auto simp: sim_main_def Let_def split: bind_splits prod.splits)
  then show ?thesis
    using run_loop_rel [OF ok_s, of "nat (atoi steps)" 0 STAT_AOK n e s'] by (auto simp: run_sim_def)
qed

end
