(* ===== verification/MemLib.thy ===== *)
theory MemLib
  imports Prelude
begin

text \<open>
  The memory system of \<open>lab7/memlib.c\<close>: a simulated break pointer over one block from \<open>malloc\<close>.

  Memory is a flat array of bytes indexed by 64-bit addresses; pointers are addresses and pointer
  arithmetic wraps.  The C objects are not tracked: an access outside the arena is an access to the
  flat memory, and staying inside is a theorem and not part of the model.  \<open>errno\<close> and messages are
  not modelled.
\<close>

record mem_sys =
  mem :: "addr \<Rightarrow> byte"
  mem_start_brk :: addr
  mem_brk :: addr
  mem_max_addr :: addr

section \<open>Loads and stores\<close>

definition bytes_at :: "(addr \<Rightarrow> byte) \<Rightarrow> addr \<Rightarrow> nat \<Rightarrow> byte list" where
  "bytes_at m p n = map (\<lambda>k. m (p + of_nat k)) [0..<n]"

primrec store_bytes :: "(addr \<Rightarrow> byte) \<Rightarrow> addr \<Rightarrow> byte list \<Rightarrow> addr \<Rightarrow> byte" where
  "store_bytes m p [] = m"
| "store_bytes m p (b # bs) = (store_bytes m (p + 1) bs)(p := b)"

definition memcpy :: "(addr \<Rightarrow> byte) \<Rightarrow> addr \<Rightarrow> addr \<Rightarrow> long \<Rightarrow> addr \<Rightarrow> byte" where
  "memcpy m dst src n = (\<lambda>a. if a - dst < n then m (src + (a - dst)) else m a)"

definition load32 :: "(addr \<Rightarrow> byte) \<Rightarrow> addr \<Rightarrow> 32 word" where
  "load32 m p = le_word (bytes_at m p 4)"

definition load64 :: "(addr \<Rightarrow> byte) \<Rightarrow> addr \<Rightarrow> 64 word" where
  "load64 m p = le_word (bytes_at m p 8)"

definition store32 :: "(addr \<Rightarrow> byte) \<Rightarrow> addr \<Rightarrow> 32 word \<Rightarrow> addr \<Rightarrow> byte" where
  "store32 m p v = store_bytes m p (le_bytes 4 v)"

definition store64 :: "(addr \<Rightarrow> byte) \<Rightarrow> addr \<Rightarrow> 64 word \<Rightarrow> addr \<Rightarrow> byte" where
  "store64 m p v = store_bytes m p (le_bytes 8 v)"

section \<open>The break\<close>

definition MAX_HEAP :: addr where "MAX_HEAP = 20971520"

definition NULL :: addr where "NULL = 0"

text \<open>
  \<open>base\<close> is what \<open>malloc(MAX_HEAP)\<close> returned and \<open>m\<close> the memory then; \<open>None\<close> is \<open>exit(1)\<close>.
\<close>

definition mem_init :: "addr \<Rightarrow> (addr \<Rightarrow> byte) \<Rightarrow> mem_sys option" where
  "mem_init base m =
     (if base = NULL then None
      else Some \<lparr>mem = m, mem_start_brk = base, mem_brk = base, mem_max_addr = base + MAX_HEAP\<rparr>)"

definition mem_reset_brk :: "'a mem_sys_scheme \<Rightarrow> 'a mem_sys_scheme" where
  "mem_reset_brk st = st\<lparr>mem_brk := mem_start_brk st\<rparr>"

text \<open>\<open>incr\<close> is an \<open>int\<close>; the result is the old break, or -1.\<close>

definition mem_sbrk :: "32 word \<Rightarrow> 'a mem_sys_scheme \<Rightarrow> addr \<times> 'a mem_sys_scheme" where
  "mem_sbrk incr st =
     (let old_brk = mem_brk st
      in if sint incr < 0 \<or> mem_max_addr st < mem_brk st + scast incr then (-1, st)
         else (old_brk, st\<lparr>mem_brk := mem_brk st + scast incr\<rparr>))"

definition mem_heap_lo :: "'a mem_sys_scheme \<Rightarrow> addr" where
  "mem_heap_lo st = mem_start_brk st"

definition mem_heap_hi :: "'a mem_sys_scheme \<Rightarrow> addr" where
  "mem_heap_hi st = mem_brk st - 1"

definition mem_heapsize :: "'a mem_sys_scheme \<Rightarrow> long" where
  "mem_heapsize st = mem_brk st - mem_start_brk st"

section \<open>Lemmas on memory\<close>

text \<open>Two ranges of bytes that do not meet and do not wrap.\<close>

definition apart :: "addr \<Rightarrow> nat \<Rightarrow> addr \<Rightarrow> nat \<Rightarrow> bool" where
  "apart p n q k \<longleftrightarrow> unat p + n \<le> unat q \<and> unat q + k \<le> 2 ^ 64 \<or>
     unat q + k \<le> unat p \<and> unat p + n \<le> 2 ^ 64"

lemma apart_sym: "apart p n q k \<longleftrightarrow> apart q k p n"
  by (auto simp: apart_def)

lemma unat_offset: "unat (p :: addr) + i < 2 ^ 64 \<Longrightarrow> unat (p + of_nat i) = unat p + i"
proof -
  assume a: "unat p + i < 2 ^ 64"
  then have "unat (of_nat i :: addr) = i" by (simp add: unat_of_nat)
  then show ?thesis using a by (simp add: unat_word_ariths)
qed

lemma apart_neq:
  assumes "apart p n q k" and "i < n" and "j < k"
  shows "p + of_nat i \<noteq> q + of_nat j"
proof -
  have "unat q < 2 ^ 64" "unat p < 2 ^ 64" using unsigned_less [of q] unsigned_less [of p] by simp_all
  then have "unat (p + of_nat i) = unat p + i" "unat (q + of_nat j) = unat q + j"
    using assms by (auto simp: apart_def intro!: unat_offset)
  then have "unat (p + of_nat i) \<noteq> unat (q + of_nat j)"
    using assms by (auto simp: apart_def)
  then show ?thesis by auto
qed

lemma store_bytes_other:
  "(\<And>i. i < length bs \<Longrightarrow> a \<noteq> p + of_nat i) \<Longrightarrow> store_bytes m p bs a = m a"
proof (induction bs arbitrary: p)
  case (Cons b bs)
  have "a \<noteq> p" using Cons.prems [of 0] by simp
  moreover have "store_bytes m (p + 1) bs a = m a"
  proof (rule Cons.IH)
    fix i assume "i < length bs"
    then show "a \<noteq> p + 1 + of_nat i" using Cons.prems [of "Suc i"] by (simp add: add.assoc)
  qed
  ultimately show ?case by simp
qed simp

lemma store_bytes_same:
  "length bs \<le> 8 \<Longrightarrow> k < length bs \<Longrightarrow> store_bytes m p bs (p + of_nat k) = bs ! k"
proof (induction bs arbitrary: p k)
  case (Cons b bs)
  show ?case
  proof (cases k)
    case 0
    then show ?thesis by simp
  next
    case (Suc j)
    have "(of_nat (Suc j) :: addr) \<noteq> 0"
    proof
      assume "(of_nat (Suc j) :: addr) = 0"
      then have "unat (of_nat (Suc j) :: addr) = 0" by simp
      moreover have "unat (of_nat (Suc j) :: addr) = Suc j"
        using Cons.prems Suc by (simp add: unat_of_nat del: of_nat_Suc)
      ultimately show False by simp
    qed
    then have "p + of_nat (Suc j) \<noteq> p" by (metis add_cancel_left_right)
    moreover have "store_bytes m (p + 1) bs (p + 1 + of_nat j) = bs ! j"
      using Cons.prems Suc by (intro Cons.IH) simp_all
    ultimately show ?thesis using Suc by (simp add: add.assoc)
  qed
qed simp

lemma bytes_at_store_same:
  "length bs \<le> 8 \<Longrightarrow> bytes_at (store_bytes m p bs) p (length bs) = bs"
  by (rule nth_equalityI) (simp_all add: bytes_at_def store_bytes_same)

lemma bytes_at_store_other:
  "apart p (length bs) q n \<Longrightarrow> bytes_at (store_bytes m p bs) q n = bytes_at m q n"
  unfolding bytes_at_def
  by (rule map_cong [OF refl], rule store_bytes_other) (use apart_neq in fastforce)

named_theorems load_store \<open>what a load reads after a store\<close>

lemma load_store_same [load_store, simp]:
  "load32 (store32 m p v) p = v" "load64 (store64 m p w) p = w"
  using bytes_at_store_same [of "le_bytes 4 v" m p] bytes_at_store_same [of "le_bytes 8 w" m p]
  by (simp_all add: load32_def store32_def load64_def store64_def)

lemma load_store_other [load_store]:
  "apart p 4 q 4 \<Longrightarrow> load32 (store32 m p v) q = load32 m q"
  "apart p 8 q 4 \<Longrightarrow> load32 (store64 m p w) q = load32 m q"
  "apart p 4 q 8 \<Longrightarrow> load64 (store32 m p v) q = load64 m q"
  "apart p 8 q 8 \<Longrightarrow> load64 (store64 m p w) q = load64 m q"
  by (simp_all add: load32_def store32_def load64_def store64_def bytes_at_store_other)

lemma mem_sbrk_ok:
  assumes "mem_sbrk incr st = (p, st')" and "p \<noteq> -1"
  shows "p = mem_brk st" "mem_brk st' = p + scast incr" "0 \<le> sint incr" "mem_brk st' \<le> mem_max_addr st"
    "mem st' = mem st" "mem_start_brk st' = mem_start_brk st" "mem_max_addr st' = mem_max_addr st"
  using assms by (auto simp: mem_sbrk_def Let_def split: if_splits)

end
