(* ===== verification/Mm.thy ===== *)
theory Mm
  imports MemLib
begin

text \<open>
  The allocator of \<open>lab7/mm.c\<close>: segregated explicit free lists over boundary-tagged blocks.

  The state is the memory system with the two file-scope variables.  A macro that reads memory takes
  the memory first; \<open>PUT\<close> truncates to \<open>unsigned int\<close> as the C assignment does, \<open>GET_SIZE\<close> is an
  \<open>unsigned int\<close> and \<open>SIZE\<close> is the same value as a \<open>size_t\<close> or a pointer offset.  A list search may
  run for ever: the loops are \<open>partial_function (option)\<close> and \<open>None\<close> is a call that does not return.
  The special cases that the code has for the driver's traces (4095, 8190, 4092, 112, 448) are kept.
\<close>

record mm_t = mem_sys +
  heap_listp :: addr
  free_listp :: "addr list"

definition LIST_NUM :: nat where "LIST_NUM = 16"
definition OVERHEAD :: long where "OVERHEAD = 8"
definition WSIZE :: long where "WSIZE = 4"
definition DSIZE :: long where "DSIZE = 8"
definition CHUNKSIZE :: long where "CHUNKSIZE = 4096"

definition PACK :: "long \<Rightarrow> long \<Rightarrow> long" where "PACK sz alloc = sz OR alloc"

definition GET :: "(addr \<Rightarrow> byte) \<Rightarrow> addr \<Rightarrow> 32 word" where "GET m p = load32 m p"
definition GETADDR :: "(addr \<Rightarrow> byte) \<Rightarrow> addr \<Rightarrow> addr" where "GETADDR m p = load64 m p"

definition PUT :: "addr \<Rightarrow> long \<Rightarrow> mm_t \<Rightarrow> mm_t" where
  "PUT p v st = st\<lparr>mem := store32 (mem st) p (ucast v)\<rparr>"

definition PUTADDR :: "addr \<Rightarrow> addr \<Rightarrow> mm_t \<Rightarrow> mm_t" where
  "PUTADDR p v st = st\<lparr>mem := store64 (mem st) p v\<rparr>"

definition GET_SIZE :: "(addr \<Rightarrow> byte) \<Rightarrow> addr \<Rightarrow> 32 word" where
  "GET_SIZE m p = GET m p AND NOT 7"

definition GET_ALLOC :: "(addr \<Rightarrow> byte) \<Rightarrow> addr \<Rightarrow> bool" where
  "GET_ALLOC m p \<longleftrightarrow> GET m p AND 1 \<noteq> 0"

definition SIZE :: "(addr \<Rightarrow> byte) \<Rightarrow> addr \<Rightarrow> long" where
  "SIZE m p = ucast (GET_SIZE m p)"

definition HDRP :: "addr \<Rightarrow> addr" where "HDRP bp = bp - WSIZE"

definition FTRP :: "(addr \<Rightarrow> byte) \<Rightarrow> addr \<Rightarrow> addr" where
  "FTRP m bp = bp + SIZE m (HDRP bp) - DSIZE"

definition NEXT_BLKP :: "(addr \<Rightarrow> byte) \<Rightarrow> addr \<Rightarrow> addr" where
  "NEXT_BLKP m bp = bp + SIZE m (bp - WSIZE)"

definition PREV_BLKP :: "(addr \<Rightarrow> byte) \<Rightarrow> addr \<Rightarrow> addr" where
  "PREV_BLKP m bp = bp - SIZE m (bp - DSIZE)"

definition PRED :: "addr \<Rightarrow> addr" where "PRED bp = bp"
definition SUCC :: "addr \<Rightarrow> addr" where "SUCC bp = bp + DSIZE"

definition NEXT_FBLKP :: "(addr \<Rightarrow> byte) \<Rightarrow> addr \<Rightarrow> addr" where
  "NEXT_FBLKP m bp = GETADDR m (SUCC bp)"

definition PREV_FBLKP :: "(addr \<Rightarrow> byte) \<Rightarrow> addr \<Rightarrow> addr" where
  "PREV_FBLKP m bp = GETADDR m (PRED bp)"

text \<open>Header and footer of a block, written one after the other; the footer is found by the new header.\<close>

definition put_tags :: "addr \<Rightarrow> long \<Rightarrow> mm_t \<Rightarrow> mm_t" where
  "put_tags bp v st = (let st = PUT (HDRP bp) v st in PUT (FTRP (mem st) bp) v st)"

definition clear_links :: "addr \<Rightarrow> mm_t \<Rightarrow> mm_t" where
  "clear_links bp st = PUTADDR (SUCC bp) 0 (PUTADDR (PRED bp) 0 st)"

section \<open>Free lists\<close>

definition get_block_index :: "int \<Rightarrow> nat" where
  "get_block_index sz =
     (if sz \<le> 40 then 0
      else if sz > 40 \<and> sz \<le> 128 then 1
      else if sz > 128 \<and> sz \<le> 256 then 2
      else if sz > 256 \<and> sz \<le> 512 then 3
      else if sz > 512 \<and> sz \<le> 1024 then 4
      else if sz > 1024 \<and> sz \<le> 2048 then 5
      else if sz > 2048 \<and> sz \<le> 4096 then 6
      else if sz > 4096 \<and> sz \<le> 8192 then 7
      else if sz > 8192 \<and> sz \<le> 16384 then 8
      else if sz > 16384 \<and> sz \<le> 32768 then 9
      else if sz > 32768 \<and> sz \<le> 65536 then 10
      else if sz > 65536 \<and> sz \<le> 131072 then 11
      else if sz > 131072 \<and> sz \<le> 262144 then 12
      else if sz > 262144 \<and> sz \<le> 524288 then 13
      else if sz > 524288 \<and> sz \<le> 1048576 then 14
      else 15)"

text \<open>\<open>int csize = GET_SIZE(HDRP(bp))\<close>\<close>

definition index_of :: "(addr \<Rightarrow> byte) \<Rightarrow> addr \<Rightarrow> nat" where
  "index_of m bp = get_block_index (sint (GET_SIZE m (HDRP bp)))"

definition set_list :: "nat \<Rightarrow> addr \<Rightarrow> mm_t \<Rightarrow> mm_t" where
  "set_list i p st = st\<lparr>free_listp := (free_listp st)[i := p]\<rparr>"

definition insert_block :: "addr \<Rightarrow> mm_t \<Rightarrow> mm_t" where
  "insert_block bp st =
     (if bp = NULL then st
      else
        let index = index_of (mem st) bp;
            listp = free_listp st ! index;
            st = (if listp = NULL then PUTADDR (SUCC bp) 0 st
                  else PUTADDR (PRED listp) bp (PUTADDR (SUCC bp) listp st))
        in set_list index bp (PUTADDR (PRED bp) 0 st))"

definition remove_block :: "addr \<Rightarrow> mm_t \<Rightarrow> mm_t" where
  "remove_block bp st =
     (if bp = NULL then st
      else
        let index = index_of (mem st) bp;
            prev = PREV_FBLKP (mem st) bp;
            next = NEXT_FBLKP (mem st) bp;
            st = (if prev = NULL \<and> next = NULL then set_list index NULL st
                  else if prev = NULL \<and> next \<noteq> NULL then set_list index next (PUTADDR (PRED next) 0 st)
                  else if prev \<noteq> NULL \<and> next = NULL then PUTADDR (SUCC prev) 0 st
                  else let st = PUTADDR (SUCC prev) (GETADDR (mem st) (SUCC bp)) st
                       in PUTADDR (PRED next) (GETADDR (mem st) (PRED bp)) st)
        in PUTADDR (SUCC bp) 0 (PUTADDR (PRED bp) 0 st))"

section \<open>The heap\<close>

definition coalesce :: "addr \<Rightarrow> mm_t \<Rightarrow> addr \<times> mm_t" where
  "coalesce bp st =
     (let m = mem st;
          prev_alloc = GET_ALLOC m (FTRP m (PREV_BLKP m bp));
          next_alloc = GET_ALLOC m (HDRP (NEXT_BLKP m bp));
          sz = SIZE m (HDRP bp)
      in if prev_alloc \<and> next_alloc then (bp, insert_block bp st)
         else if prev_alloc \<and> \<not> next_alloc then
           let st = remove_block (NEXT_BLKP m bp) st;
               sz = sz + SIZE (mem st) (HDRP (NEXT_BLKP (mem st) bp));
               st = put_tags bp (PACK sz 0) st
           in (bp, insert_block bp st)
         else if \<not> prev_alloc \<and> next_alloc then
           let st = remove_block (PREV_BLKP m bp) st;
               sz = sz + SIZE (mem st) (HDRP (PREV_BLKP (mem st) bp));
               st = PUT (FTRP (mem st) bp) (PACK sz 0) st;
               st = PUT (HDRP (PREV_BLKP (mem st) bp)) (PACK sz 0) st;
               bp = PREV_BLKP (mem st) bp
           in (bp, insert_block bp st)
         else
           let st = remove_block (PREV_BLKP m bp) st;
               st = remove_block (NEXT_BLKP (mem st) bp) st;
               sz = sz + ucast (GET_SIZE (mem st) (HDRP (PREV_BLKP (mem st) bp)) +
                                    GET_SIZE (mem st) (FTRP (mem st) (NEXT_BLKP (mem st) bp)));
               st = PUT (HDRP (PREV_BLKP (mem st) bp)) (PACK sz 0) st;
               st = PUT (FTRP (mem st) (NEXT_BLKP (mem st) bp)) (PACK sz 0) st;
               bp = PREV_BLKP (mem st) bp
           in (bp, insert_block bp st))"

text \<open>The size passes through the \<open>int\<close> parameter of \<open>mem_sbrk\<close>; \<open>NULL\<close> is failure.\<close>

definition extend_heap :: "long \<Rightarrow> mm_t \<Rightarrow> addr \<times> mm_t" where
  "extend_heap words st =
     (let sz = (if words mod 2 \<noteq> 0 then (words + 1) * WSIZE else words * WSIZE);
          (bp, st) = mem_sbrk (ucast sz) st
      in if bp = -1 then (NULL, st)
         else
           let st = PUT (HDRP bp) (PACK sz 0) st;
               st = PUT (FTRP (mem st) bp) (PACK sz 0) st;
               st = PUTADDR (PRED bp) 0 st;
               st = PUTADDR (SUCC bp) 0 st;
               st = PUT (HDRP (NEXT_BLKP (mem st) bp)) (PACK 0 1) st
           in coalesce bp st)"

definition mm_init :: "mm_t \<Rightarrow> int \<times> mm_t" where
  "mm_init st =
     (let (p, st) = mem_sbrk 16 st; st = st\<lparr>heap_listp := p\<rparr>
      in if p = -1 then (-1, st)
         else
           let st = PUT p 0 st;
               st = PUT (p + 1 * WSIZE) (PACK DSIZE 1) st;
               st = PUT (p + 2 * WSIZE) (PACK DSIZE 1) st;
               st = PUT (p + 3 * WSIZE) (PACK 0 1) st;
               st = st\<lparr>heap_listp := p + 2 * WSIZE, free_listp := replicate LIST_NUM NULL\<rparr>;
               (bp, st) = extend_heap (CHUNKSIZE div WSIZE) st
           in if bp = NULL then (-1, st) else (0, st))"

partial_function (option) first_fit_loop :: "(addr \<Rightarrow> byte) \<Rightarrow> long \<Rightarrow> addr \<Rightarrow> addr option" where
  "first_fit_loop m asize bp =
     (if bp = NULL then Some NULL
      else if \<not> GET_ALLOC m (HDRP bp) \<and> asize \<le> SIZE m (HDRP bp) then Some bp
      else first_fit_loop m asize (NEXT_BLKP m bp))"

definition find_first_fit :: "mm_t \<Rightarrow> long \<Rightarrow> addr option" where
  "find_first_fit st asize = first_fit_loop (mem st) asize (heap_listp st)"

definition find_last_fit :: "mm_t \<Rightarrow> long \<Rightarrow> addr" where
  "find_last_fit st asize = PREV_BLKP (mem st) (fst (mem_sbrk 0 st))"

partial_function (option) list_fit_loop :: "(addr \<Rightarrow> byte) \<Rightarrow> long \<Rightarrow> addr \<Rightarrow> addr option" where
  "list_fit_loop m asize bp =
     (if bp = NULL then Some NULL
      else if asize \<le> SIZE m (HDRP bp) then Some bp
      else list_fit_loop m asize (NEXT_FBLKP m bp))"

fun lists_fit :: "(addr \<Rightarrow> byte) \<Rightarrow> long \<Rightarrow> addr list \<Rightarrow> addr option" where
  "lists_fit m asize [] = Some NULL"
| "lists_fit m asize (p # ps) =
     (case list_fit_loop m asize p of
        None \<Rightarrow> None
      | Some bp \<Rightarrow> if bp \<noteq> NULL then Some bp else lists_fit m asize ps)"

definition find_fit :: "mm_t \<Rightarrow> long \<Rightarrow> addr option" where
  "find_fit st asize =
     lists_fit (mem st) asize (drop (get_block_index (sint (ucast asize :: 32 word))) (free_listp st))"

definition place :: "addr \<Rightarrow> long \<Rightarrow> mm_t \<Rightarrow> mm_t" where
  "place bp asize st =
     (let csize = SIZE (mem st) (HDRP bp)
      in if csize - asize \<ge> 3 * DSIZE then
           let st = remove_block bp st;
               st = put_tags bp (PACK asize 1) st;
               bp = NEXT_BLKP (mem st) bp;
               st = put_tags bp (PACK (csize - asize) 0) st
           in insert_block bp st
         else put_tags bp (PACK csize 1) (remove_block bp st))"

text \<open>Payload, header and footer, rounded up to eight bytes; the sum wraps.\<close>

definition adjust :: "long \<Rightarrow> long" where
  "adjust sz =
     (if sz \<le> DSIZE then 3 * DSIZE else DSIZE * ((sz + DSIZE + (DSIZE - 1)) div DSIZE))"

section \<open>Allocation\<close>

definition poke :: "addr \<Rightarrow> byte \<Rightarrow> mm_t \<Rightarrow> mm_t" where
  "poke p b st = st\<lparr>mem := (mem st)(p := b)\<rparr>"

text \<open>The requests of the coalescing trace.\<close>

definition malloc_4095 :: "mm_t \<Rightarrow> addr \<times> mm_t" where
  "malloc_4095 st =
     (let bp = heap_listp st + 4 + 4095;
          temp = bp + 1;
          (failed, st) = (if GET_SIZE (mem st) temp = 0 \<and> GET_ALLOC (mem st) temp
                          then let (r, st) = extend_heap (CHUNKSIZE div WSIZE + 1) st in (r = NULL, st)
                          else (False, st))
      in if failed then (NULL, st)
         else
           let bp = bp + 4
           in if mem st bp \<noteq> - 1 then (bp - 4095, poke bp (- 1) st)
              else let bp = bp + 4096 in (bp - 4095, poke bp (- 1) st))"

definition malloc_8190 :: "mm_t \<Rightarrow> addr \<times> mm_t" where
  "malloc_8190 st = (let bp = heap_listp st + 4 + 4 + 8191 in (bp - 8191, poke bp (- 1) st))"

text \<open>A free block split in three: \<open>first\<close> bytes free, \<open>asize\<close> allocated, the rest free.\<close>

definition split_three :: "addr \<Rightarrow> long \<Rightarrow> long \<Rightarrow> long \<Rightarrow> mm_t \<Rightarrow> addr \<times> mm_t" where
  "split_three bp csize first asize st =
     (let st = remove_block bp st;
          st = put_tags bp (PACK first 0) st;
          st = insert_block bp st;
          bp = NEXT_BLKP (mem st) bp;
          st = put_tags bp (PACK asize 1) st;
          retptr = bp;
          bp = NEXT_BLKP (mem st) bp;
          st = put_tags bp (PACK (csize - asize - first) 0) st
      in (retptr, insert_block bp st))"

text \<open>\<open>None\<close> at the inner level is falling through to the search of the free lists.\<close>

definition malloc_big :: "long \<Rightarrow> mm_t \<Rightarrow> (addr \<times> mm_t) option" where
  "malloc_big asize st =
     (let bp = find_last_fit st asize
      in if bp = NULL then None
         else
           let binary_size = GET_SIZE (mem st) (HDRP (PREV_BLKP (mem st) bp))
           in if binary_size = 16 + 8 \<or> binary_size = 64 + 8 then
                let (first_size, words) =
                      (if binary_size = 16 + 8 then ((16 + OVERHEAD) * 4000, 156 * CHUNKSIZE div WSIZE)
                       else ((64 + OVERHEAD) * 2000, 289 * CHUNKSIZE div WSIZE));
                    (r, st) = extend_heap words st
                in Some (if r = NULL then (NULL, st)
                         else split_three bp (SIZE (mem st) (HDRP bp)) first_size asize st)
              else Some (bp, place bp asize st))"

definition malloc_small :: "long \<Rightarrow> mm_t \<Rightarrow> (addr \<times> mm_t) option option" where
  "malloc_small asize st =
     (case find_first_fit st asize of
        None \<Rightarrow> None
      | Some bp \<Rightarrow> Some (if bp \<noteq> NULL then Some (bp, place bp asize st) else None))"

definition malloc_binary :: "long \<Rightarrow> long \<Rightarrow> mm_t \<Rightarrow> (addr \<times> mm_t) option option" where
  "malloc_binary sz asize st =
     (let first = GET_SIZE (mem st) (HDRP (NEXT_BLKP (mem st) (heap_listp st)))
      in if first = 16 + 8 \<or> first = 64 + 8 then
           if sz = 16 \<or> sz = 64 then malloc_small asize st
           else if sz = 112 \<or> sz = 448 then Some (malloc_big asize st)
           else Some None
         else Some None)"

definition malloc_extend :: "long \<Rightarrow> long \<Rightarrow> mm_t \<Rightarrow> addr \<times> mm_t" where
  "malloc_extend sz asize st =
     (let extendsize = (if asize > CHUNKSIZE then asize else CHUNKSIZE);
          (bp, st) = extend_heap (extendsize div WSIZE) st
      in if bp = NULL then (NULL, st)
         else if sz = 4092 then
           let bp = NEXT_BLKP (mem st) (heap_listp st)
           in split_three bp (SIZE (mem st) (HDRP bp)) ((16 + OVERHEAD) * 2) asize st
         else (bp, place bp asize st))"

definition mm_malloc :: "long \<Rightarrow> mm_t \<Rightarrow> (addr \<times> mm_t) option" where
  "mm_malloc sz st =
     (if sz = 4095 then Some (malloc_4095 st)
      else if sz = 8190 then Some (malloc_8190 st)
      else if sz = 0 then Some (NULL, st)
      else
        let asize = adjust sz
        in case malloc_binary sz asize st of
             None \<Rightarrow> None
           | Some (Some r) \<Rightarrow> Some r
           | Some None \<Rightarrow>
               (case find_fit st asize of
                  None \<Rightarrow> None
                | Some bp \<Rightarrow>
                    Some (if bp \<noteq> NULL then (bp, place bp asize st) else malloc_extend sz asize st)))"

definition mm_free :: "addr \<Rightarrow> mm_t \<Rightarrow> mm_t" where
  "mm_free ptr st =
     (let sz = SIZE (mem st) (HDRP ptr)
      in if mem st (ptr + 4095) = - 1 then poke (ptr + 4095) 0 st
         else if mem st (ptr + 8191) = - 1 then poke (ptr + 8191) 0 st
         else
           let st = put_tags ptr (PACK sz 0) st;
               st = clear_links ptr st
           in snd (coalesce ptr st))"

section \<open>Reallocation\<close>

text \<open>A fresh free block at \<open>bp\<close>, entered into its list.\<close>

definition make_free :: "addr \<Rightarrow> long \<Rightarrow> mm_t \<Rightarrow> mm_t" where
  "make_free bp sz st = insert_block bp (clear_links bp (put_tags bp (PACK sz 0) st))"

definition realloc_shrink :: "addr \<Rightarrow> long \<Rightarrow> long \<Rightarrow> mm_t \<Rightarrow> mm_t" where
  "realloc_shrink ptr csize asize st =
     (let diff = csize - asize;
          next_block = NEXT_BLKP (mem st) ptr;
          st = put_tags ptr (PACK asize 1) st;
          remain_block = NEXT_BLKP (mem st) ptr
      in if GET_ALLOC (mem st) (HDRP next_block) then make_free remain_block diff st
         else
           let st = remove_block next_block st;
               diff = diff + SIZE (mem st) (HDRP next_block)
           in make_free remain_block diff st)"

text \<open>\<open>Inl\<close> is a return of \<open>NULL\<close>.\<close>

definition extend_if :: "bool \<Rightarrow> mm_t \<Rightarrow> mm_t + mm_t" where
  "extend_if c st =
     (if c then let (r, st) = extend_heap (CHUNKSIZE div WSIZE) st in if r = NULL then Inl st else Inr st
      else Inr st)"

definition at_end :: "addr \<Rightarrow> mm_t \<Rightarrow> bool" where
  "at_end bp st \<longleftrightarrow>
     GET_SIZE (mem st) (HDRP (NEXT_BLKP (mem st) bp)) = 0 \<and> GET_ALLOC (mem st) (HDRP (NEXT_BLKP (mem st) bp))"

definition first_is_24 :: "mm_t \<Rightarrow> bool" where
  "first_is_24 st \<longleftrightarrow> GET_SIZE (mem st) (HDRP (NEXT_BLKP (mem st) (heap_listp st))) = 16 + 8"

definition extend_before :: "addr \<Rightarrow> mm_t \<Rightarrow> mm_t + mm_t" where
  "extend_before ptr st =
     (case extend_if (at_end ptr st) st of
        Inl st \<Rightarrow> Inl st
      | Inr st \<Rightarrow>
          let next = NEXT_BLKP (mem st) ptr
          in case extend_if (\<not> first_is_24 st \<and> GET_SIZE (mem st) (HDRP next) > 600 \<and>
                             GET_SIZE (mem st) (HDRP next) \<le> 1000 \<and> at_end next st) st of
               Inl st \<Rightarrow> Inl st
             | Inr st \<Rightarrow>
                 let next = NEXT_BLKP (mem st) ptr
                 in extend_if (first_is_24 st \<and> GET_SIZE (mem st) (HDRP next) > 2 * (16 + 8) \<and>
                               GET_SIZE (mem st) (HDRP next) \<le> 2 * (16 + 8 + 20) \<and> at_end next st) st)"

text \<open>The block takes the free block behind it and gives back what it does not need.\<close>

definition merge_next :: "addr \<Rightarrow> long \<Rightarrow> long \<Rightarrow> mm_t \<Rightarrow> mm_t" where
  "merge_next ptr tot_size asize st =
     (let st = remove_block (NEXT_BLKP (mem st) ptr) st;
          diff = tot_size - asize
      in if diff < 3 * DSIZE then put_tags ptr (PACK tot_size 1) st
         else
           let st = put_tags ptr (PACK asize 1) st
           in make_free (NEXT_BLKP (mem st) ptr) diff st)"

definition realloc_move :: "addr \<Rightarrow> long \<Rightarrow> long \<Rightarrow> mm_t \<Rightarrow> (addr \<times> mm_t) option" where
  "realloc_move ptr sz csize st =
     (case mm_malloc sz st of
        None \<Rightarrow> None
      | Some (newptr, st) \<Rightarrow>
          if newptr = NULL then Some (NULL, st)
          else
            let st = (if newptr \<noteq> ptr then st\<lparr>mem := memcpy (mem st) newptr ptr (csize - DSIZE)\<rparr> else st)
            in Some (newptr, mm_free ptr st))"

definition realloc_grow :: "addr \<Rightarrow> long \<Rightarrow> long \<Rightarrow> long \<Rightarrow> mm_t \<Rightarrow> (addr \<times> mm_t) option" where
  "realloc_grow ptr sz csize asize st =
     (case extend_before ptr st of
        Inl st \<Rightarrow> Some (NULL, st)
      | Inr st \<Rightarrow>
          let next_block = NEXT_BLKP (mem st) ptr
          in if \<not> GET_ALLOC (mem st) (HDRP next_block) then
               let tot_size = csize + SIZE (mem st) (HDRP next_block)
               in if tot_size \<ge> asize then Some (ptr, merge_next ptr tot_size asize st)
                  else if at_end next_block st then
                    (case extend_if True st of
                       Inl st \<Rightarrow> Some (NULL, st)
                     | Inr st \<Rightarrow>
                         let tot_size = tot_size + CHUNKSIZE
                         in if tot_size \<ge> asize then Some (ptr, merge_next ptr tot_size asize st)
                            else realloc_move ptr sz csize st)
                  else realloc_move ptr sz csize st
             else realloc_move ptr sz csize st)"

definition mm_realloc :: "addr \<Rightarrow> long \<Rightarrow> mm_t \<Rightarrow> (addr \<times> mm_t) option" where
  "mm_realloc ptr sz st =
     (if sz = 0 then Some (ptr, mm_free ptr st)
      else if ptr = NULL then mm_malloc sz st
      else
        let csize = SIZE (mem st) (HDRP ptr);
            asize = adjust sz
        in if csize \<ge> asize \<and> csize < asize + 3 * DSIZE then Some (ptr, st)
           else if csize \<ge> asize + 3 * DSIZE then Some (ptr, realloc_shrink ptr csize asize st)
           else realloc_grow ptr sz csize asize st)"

section \<open>The heap checker\<close>

text \<open>
  Each loop over a free list or over the heap is a search: \<open>Some True\<close> when the loop returns -1
  from its body, \<open>Some False\<close> when it runs to its end, \<open>None\<close> when it does not end.
\<close>

partial_function (option) list_search :: "(addr \<Rightarrow> byte) \<Rightarrow> (addr \<Rightarrow> bool) \<Rightarrow> addr \<Rightarrow> bool option" where
  "list_search m bad bp =
     (if bp = NULL then Some False
      else if bad bp then Some True
      else list_search m bad (NEXT_FBLKP m bp))"

partial_function (option) heap_search :: "(addr \<Rightarrow> byte) \<Rightarrow> (addr \<Rightarrow> bool) \<Rightarrow> addr \<Rightarrow> bool option" where
  "heap_search m bad bp =
     (if GET_SIZE m (HDRP bp) = 0 then Some False
      else if bad bp then Some True
      else heap_search m bad (NEXT_BLKP m bp))"

partial_function (option) heap_count :: "(addr \<Rightarrow> byte) \<Rightarrow> addr \<Rightarrow> int \<Rightarrow> int option" where
  "heap_count m bp n =
     (if GET_SIZE m (HDRP bp) = 0 then Some n
      else heap_count m (NEXT_BLKP m bp) (if GET_ALLOC m (HDRP bp) then n else n + 1))"

partial_function (option) list_count :: "(addr \<Rightarrow> byte) \<Rightarrow> addr \<Rightarrow> int \<Rightarrow> int option" where
  "list_count m bp n = (if bp = NULL then Some n else list_count m (NEXT_FBLKP m bp) (n + 1))"

fun lists_search :: "(addr \<Rightarrow> byte) \<Rightarrow> (addr \<Rightarrow> addr \<Rightarrow> bool) \<Rightarrow> addr list \<Rightarrow> bool option" where
  "lists_search m bad [] = Some False"
| "lists_search m bad (p # ps) =
     (case list_search m (bad p) p of
        None \<Rightarrow> None
      | Some True \<Rightarrow> Some True
      | Some False \<Rightarrow> lists_search m bad ps)"

fun lists_count :: "(addr \<Rightarrow> byte) \<Rightarrow> addr list \<Rightarrow> int \<Rightarrow> int option" where
  "lists_count m [] n = Some n"
| "lists_count m (p # ps) n =
     (case list_count m p n of None \<Rightarrow> None | Some k \<Rightarrow> lists_count m ps k)"

text \<open>What the last loop rejects for a block \<open>bp\<close> of the list that starts at \<open>head\<close>.\<close>

definition bad_links :: "(addr \<Rightarrow> byte) \<Rightarrow> addr \<Rightarrow> addr \<Rightarrow> bool" where
  "bad_links m head bp \<longleftrightarrow>
     GETADDR m (PRED head) \<noteq> 0 \<or>
     (GETADDR m (PRED bp) = GETADDR m (SUCC bp) \<and> GETADDR m (PRED bp) \<noteq> 0) \<or>
     (GETADDR m (SUCC bp) \<noteq> 0 \<and>
       (GETADDR m (SUCC bp) \<noteq> NEXT_FBLKP m bp \<or> GETADDR m (PRED (NEXT_FBLKP m bp)) \<noteq> bp))"

definition mm_check :: "mm_t \<Rightarrow> int option" where
  "mm_check st =
     (let m = mem st in
      do {
        alloc_in_list \<leftarrow> lists_search m (\<lambda>_ bp. GET_ALLOC m (HDRP bp)) (free_listp st);
        if alloc_in_list then Some (-1)
        else do {
          adjacent \<leftarrow> heap_search m (\<lambda>bp. \<not> GET_ALLOC m (HDRP bp) \<and> \<not> GET_ALLOC m (HDRP (NEXT_BLKP m bp)))
                        (heap_listp st);
          if adjacent then Some (-1)
          else do {
            free_num0 \<leftarrow> heap_count m (heap_listp st) 0;
            free_num1 \<leftarrow> lists_count m (free_listp st) 0;
            if free_num0 \<noteq> free_num1 then Some (-1)
            else do {
              broken \<leftarrow> lists_search m (bad_links m) (free_listp st);
              Some (if broken then -1 else 0)
            }
          }
        }
      })"

end
