(* ===== verification/MmLists.thy ===== *)
theory MmLists
  imports Mm
begin

text \<open>
  The free lists of \<open>lab7/mm.c\<close> against plain lists of block addresses: what \<open>insert_block\<close>,
  \<open>remove_block\<close> and \<open>find_fit\<close> do, and what the allocator promises about sizes.
\<close>

section \<open>Size classes\<close>

definition class_bounds :: "int list" where
  "class_bounds = [40, 128, 256, 512, 1024, 2048, 4096, 8192, 16384, 32768, 65536, 131072, 262144,
     524288, 1048576]"

lemma get_block_index_bound [simp]: "get_block_index n < 16"
  by (simp add: get_block_index_def)

lemma get_block_index_le: "i < 15 \<Longrightarrow> get_block_index n \<le> i \<longleftrightarrow> n \<le> class_bounds ! i"
proof -
  assume "i < 15"
  then have "i \<in> set [0..<15]" by simp
  moreover have "list_all (\<lambda>i. get_block_index n \<le> i \<longleftrightarrow> n \<le> class_bounds ! i) [0..<15]"
    by (simp add: get_block_index_def class_bounds_def upt_rec)
  ultimately show ?thesis by (simp only: list_all_iff)
qed

lemma get_block_index_mono: "m \<le> n \<Longrightarrow> get_block_index m \<le> get_block_index n"
  by (simp add: get_block_index_def)

section \<open>Doubly linked lists in memory\<close>

text \<open>From \<open>p\<close> on, coming from \<open>prev\<close>, memory holds the nodes \<open>xs\<close>, linked both ways.\<close>

fun dll :: "(addr \<Rightarrow> byte) \<Rightarrow> addr \<Rightarrow> addr \<Rightarrow> addr list \<Rightarrow> bool" where
  "dll m prev p [] \<longleftrightarrow> p = NULL"
| "dll m prev p (x # xs) \<longleftrightarrow>
     p = x \<and> x \<noteq> NULL \<and> GETADDR m (PRED x) = prev \<and> dll m x (GETADDR m (SUCC x)) xs"

text \<open>The two links of a node, a node that does not wrap, and nodes that do not overlap.\<close>

definition node_ok :: "addr \<Rightarrow> bool" where
  "node_ok x \<longleftrightarrow> x \<noteq> NULL \<and> unat x + 16 \<le> 2 ^ 64"

definition disj_nodes :: "addr \<Rightarrow> addr \<Rightarrow> bool" where
  "disj_nodes x y \<longleftrightarrow> unat x + 16 \<le> unat y \<or> unat y + 16 \<le> unat x"

fun nodes_ok :: "addr list \<Rightarrow> bool" where
  "nodes_ok [] \<longleftrightarrow> True"
| "nodes_ok (x # xs) \<longleftrightarrow> node_ok x \<and> (\<forall>y \<in> set xs. disj_nodes x y) \<and> nodes_ok xs"

lemma unat_SUCC: "node_ok x \<Longrightarrow> unat (SUCC x) = unat x + 8"
  using unat_offset [of x 8] by (simp add: node_ok_def SUCC_def DSIZE_def)

lemma nodes_apart:
  assumes "node_ok x" and "node_ok y" and "disj_nodes x y"
  shows "apart (PRED x) 8 (PRED y) 8" "apart (SUCC x) 8 (SUCC y) 8"
    "apart (PRED x) 8 (SUCC y) 8" "apart (SUCC x) 8 (PRED y) 8"
  using assms unat_SUCC [of x] unat_SUCC [of y]
  by (auto simp: apart_def PRED_def disj_nodes_def node_ok_def)

lemma node_apart:
  "node_ok x \<Longrightarrow> apart (PRED x) 8 (SUCC x) 8" "node_ok x \<Longrightarrow> apart (SUCC x) 8 (PRED x) 8"
  using unat_SUCC [of x] by (auto simp: apart_def PRED_def node_ok_def)

lemma GETADDR_PUTADDR [simp]: "GETADDR (mem (PUTADDR p v st)) p = v"
  by (simp add: GETADDR_def PUTADDR_def)

lemma GETADDR_PUTADDR_other: "apart p 8 q 8 \<Longrightarrow> GETADDR (mem (PUTADDR p v st)) q = GETADDR (mem st) q"
  by (simp add: GETADDR_def PUTADDR_def load_store_other)

lemma PUTADDR_fields [simp]:
  "free_listp (PUTADDR p v st) = free_listp st" "heap_listp (PUTADDR p v st) = heap_listp st"
  "mem_brk (PUTADDR p v st) = mem_brk st"
  by (simp_all add: PUTADDR_def)

lemma set_list_fields [simp]:
  "mem (set_list i p st) = mem st" "heap_listp (set_list i p st) = heap_listp st"
  "free_listp (set_list i p st) = (free_listp st)[i := p]" "mem_brk (set_list i p st) = mem_brk st"
  by (simp_all add: set_list_def)

lemma dll_cong:
  "(\<And>x. x \<in> set xs \<Longrightarrow> GETADDR m' (PRED x) = GETADDR m (PRED x) \<and> GETADDR m' (SUCC x) = GETADDR m (SUCC x)) \<Longrightarrow>
    dll m' prev p xs = dll m prev p xs"
  by (induction xs arbitrary: prev p) auto

text \<open>A store to a link of a node outside a list leaves the list alone.\<close>

lemma dll_frame [simp]:
  assumes "node_ok b" and "\<forall>y \<in> set xs. disj_nodes b y" and "nodes_ok xs"
  shows "dll (mem (PUTADDR (PRED b) v st)) prev p xs = dll (mem st) prev p xs"
    "dll (mem (PUTADDR (SUCC b) v st)) prev p xs = dll (mem st) prev p xs"
proof -
  have ok: "node_ok x" if "x \<in> set xs" for x using assms(3) that by (induction xs) auto
  show "dll (mem (PUTADDR (PRED b) v st)) prev p xs = dll (mem st) prev p xs"
    "dll (mem (PUTADDR (SUCC b) v st)) prev p xs = dll (mem st) prev p xs"
    by (rule dll_cong, use nodes_apart [OF assms(1) ok] assms(2) in
        \<open>simp add: GETADDR_PUTADDR_other\<close>)+
qed

text \<open>All sixteen lists: \<open>ls ! i\<close> are the blocks of list \<open>i\<close>, and no two blocks overlap.\<close>

definition lists_ok :: "mm_t \<Rightarrow> addr list list \<Rightarrow> bool" where
  "lists_ok st ls \<longleftrightarrow> length (free_listp st) = LIST_NUM \<and> length ls = LIST_NUM \<and>
     (\<forall>i < LIST_NUM. dll (mem st) NULL (free_listp st ! i) (ls ! i)) \<and> nodes_ok (concat ls)"

lemma nodes_ok_append:
  "nodes_ok (xs @ ys) \<longleftrightarrow> nodes_ok xs \<and> nodes_ok ys \<and> (\<forall>x \<in> set xs. \<forall>y \<in> set ys. disj_nodes x y)"
  by (induction xs) auto

lemma disj_nodes_sym: "disj_nodes x y = disj_nodes y x"
  by (auto simp: disj_nodes_def)

lemma dll_head: "dll m prev p xs \<Longrightarrow> p = (case xs of [] \<Rightarrow> NULL | x # _ \<Rightarrow> x)"
  by (cases xs) auto


lemma nodes_ok_mem: "nodes_ok xs \<Longrightarrow> x \<in> set xs \<Longrightarrow> node_ok x"
  by (induction xs) auto

lemma nodes_ok_concat_nth: "nodes_ok (concat ls) \<Longrightarrow> i < length ls \<Longrightarrow> nodes_ok (ls ! i)"
  by (induction ls arbitrary: i) (auto simp: nodes_ok_append nth_Cons split: nat.split)

lemma nodes_ok_concat_disj:
  "nodes_ok (concat ls) \<Longrightarrow> i < length ls \<Longrightarrow> j < length ls \<Longrightarrow> i \<noteq> j \<Longrightarrow> x \<in> set (ls ! i) \<Longrightarrow>
     y \<in> set (ls ! j) \<Longrightarrow> disj_nodes x y"
proof (induction ls arbitrary: i j)
  case (Cons l ls)
  have d: "\<forall>x \<in> set l. \<forall>y \<in> set (concat ls). disj_nodes x y" "nodes_ok (concat ls)"
    using Cons.prems(1) by (simp_all add: nodes_ok_append)
  show ?case
  proof (cases i)
    case 0
    then obtain j' where "j = Suc j'" using Cons.prems by (cases j) auto
    then show ?thesis using Cons.prems 0 d(1) by (auto simp: in_set_conv_nth) (metis nth_mem)
  next
    case (Suc i')
    show ?thesis
    proof (cases j)
      case 0
      then have "disj_nodes y x" using Cons.prems Suc d(1) by (auto simp: in_set_conv_nth) (metis nth_mem)
      then show ?thesis by (simp add: disj_nodes_sym)
    next
      case (Suc j')
      then show ?thesis using Cons d(2) \<open>i = Suc i'\<close> by auto
    qed
  qed
qed simp

lemma nodes_ok_insert:
  "nodes_ok (concat ls) \<Longrightarrow> i < length ls \<Longrightarrow> node_ok b \<Longrightarrow> \<forall>y \<in> set (concat ls). disj_nodes b y \<Longrightarrow>
     nodes_ok (concat (ls[i := b # ls ! i]))"
proof (induction ls arbitrary: i)
  case (Cons l ls)
  show ?case
  proof (cases i)
    case 0
    then show ?thesis using Cons.prems by (auto simp: nodes_ok_append)
  next
    case (Suc i')
    have "set (concat (ls[i' := b # ls ! i'])) \<subseteq> insert b (set (concat ls))"
      using Cons.prems Suc by (auto dest!: set_update_subset_insert [THEN subsetD])
    moreover have "nodes_ok (concat (ls[i' := b # ls ! i']))"
      using Cons.prems Suc by (intro Cons.IH) (simp_all add: nodes_ok_append)
    moreover have "\<forall>x \<in> set l. disj_nodes x b"
      using Cons.prems(4) disj_nodes_sym by auto
    ultimately show ?thesis using Cons.prems(1) Suc by (fastforce simp: nodes_ok_append)
  qed
qed simp

text \<open>\<open>insert_block\<close> puts the block in front of the list of its size class.\<close>

lemma insert_block_lists:
  assumes ok: "lists_ok st ls" and b: "node_ok bp" "\<forall>y \<in> set (concat ls). disj_nodes bp y"
    and i: "i = index_of (mem st) bp"
  shows "lists_ok (insert_block bp st) (ls[i := bp # ls ! i])"
proof -
  have len: "length (free_listp st) = 16" "length ls = 16" and n: "nodes_ok (concat ls)"
    and d: "\<And>j. j < 16 \<Longrightarrow> dll (mem st) NULL (free_listp st ! j) (ls ! j)"
    using ok by (auto simp: lists_ok_def LIST_NUM_def)
  have i16: "i < 16" using i by (simp add: index_of_def)
  have dj: "\<forall>y \<in> set (ls ! j). disj_nodes bp y" and nj: "nodes_ok (ls ! j)" if "j < 16" for j
    using that b(2) len n by (auto intro: nodes_ok_concat_nth)
  let ?p = "free_listp st ! i"
  have bn: "bp \<noteq> NULL" using b(1) by (simp add: node_ok_def)
  have ap: "apart (SUCC bp) 8 (PRED bp) 8" "apart (PRED bp) 8 (SUCC bp) 8"
    using node_apart b(1) by simp_all
  have "dll (mem (insert_block bp st)) NULL (free_listp (insert_block bp st) ! j) (ls[i := bp # ls ! i] ! j)"
    if j: "j < 16" for j
  proof (cases "ls ! i")
    case Nil
    then have "?p = NULL" using d [OF i16] by simp
    then show ?thesis
      using bn i16 j len i Nil d [OF j] dj [OF j] nj [OF j] b(1) ap
      by (cases "j = i") (auto simp: insert_block_def Let_def GETADDR_PUTADDR_other NULL_def)
  next
    case (Cons y ys)
    then have y: "?p = y" "y \<noteq> NULL" "GETADDR (mem st) (PRED y) = NULL" "dll (mem st) y (GETADDR (mem st) (SUCC y)) ys"
      using d [OF i16] by auto
    have yb: "disj_nodes bp y" "disj_nodes y bp" "node_ok y" "\<forall>z \<in> set ys. disj_nodes y z" "nodes_ok ys"
      "\<forall>z \<in> set ys. disj_nodes bp z"
      using dj [OF i16] nj [OF i16] Cons by (auto simp: disj_nodes_sym)
    note aby = nodes_apart [OF b(1) yb(3,1)] nodes_apart [OF yb(3) b(1) yb(2)] node_apart [OF yb(3)]
    show ?thesis
    proof (cases "j = i")
      case True
      then show ?thesis
        using bn i16 len i Cons y yb b(1) ap aby
        by (simp add: insert_block_def Let_def GETADDR_PUTADDR_other NULL_def)
    next
      case False
      have "\<forall>z \<in> set (ls ! j). disj_nodes y z"
        using nodes_ok_concat_disj [OF n, of i j y] False Cons i16 j len by auto
      then show ?thesis
        using False bn i16 j len i y d [OF j] dj [OF j] nj [OF j] b(1) yb(3)
        by (simp add: insert_block_def Let_def)
    qed
  qed
  moreover have "length (free_listp (insert_block bp st)) = 16"
    using len by (simp add: insert_block_def Let_def)
  ultimately show ?thesis
    using nodes_ok_insert [OF n _ b(1,2), of i] i16 len by (simp add: lists_ok_def LIST_NUM_def)
qed


section \<open>Removing a block\<close>

text \<open>A part of a list: from \<open>p\<close>, coming from \<open>prev\<close>, to the node \<open>last\<close> whose successor is \<open>nxt\<close>.\<close>

fun dseg :: "(addr \<Rightarrow> byte) \<Rightarrow> addr \<Rightarrow> addr \<Rightarrow> addr list \<Rightarrow> addr \<Rightarrow> addr \<Rightarrow> bool" where
  "dseg m prev p [] l nxt \<longleftrightarrow> p = nxt \<and> l = prev"
| "dseg m prev p (x # xs) l nxt \<longleftrightarrow>
     p = x \<and> x \<noteq> NULL \<and> GETADDR m (PRED x) = prev \<and> dseg m x (GETADDR m (SUCC x)) xs l nxt"

lemma dll_split:
  "dll m prev p (xs @ ys) \<longleftrightarrow> (\<exists>l n. dseg m prev p xs l n \<and> dll m l n ys)"
  by (induction xs arbitrary: prev p) auto

lemma dseg_snoc:
  "dseg m prev p (xs @ [x]) l nxt \<longleftrightarrow>
     (\<exists>k. dseg m prev p xs k x \<and> x \<noteq> NULL \<and> GETADDR m (PRED x) = k \<and> GETADDR m (SUCC x) = nxt \<and> l = x)"
  by (induction xs arbitrary: prev p) auto

lemma dseg_cong:
  "(\<And>x. x \<in> set xs \<Longrightarrow> GETADDR m' (PRED x) = GETADDR m (PRED x) \<and> GETADDR m' (SUCC x) = GETADDR m (SUCC x)) \<Longrightarrow>
    dseg m' prev p xs l n = dseg m prev p xs l n"
  by (induction xs arbitrary: prev p) auto

lemma dseg_frame [simp]:
  assumes "node_ok b" and "\<forall>y \<in> set xs. disj_nodes b y" and "nodes_ok xs"
  shows "dseg (mem (PUTADDR (PRED b) v st)) prev p xs l n = dseg (mem st) prev p xs l n"
    "dseg (mem (PUTADDR (SUCC b) v st)) prev p xs l n = dseg (mem st) prev p xs l n"
proof -
  have ok: "node_ok x" if "x \<in> set xs" for x using assms(3) that by (rule nodes_ok_mem)
  show "dseg (mem (PUTADDR (PRED b) v st)) prev p xs l n = dseg (mem st) prev p xs l n"
    "dseg (mem (PUTADDR (SUCC b) v st)) prev p xs l n = dseg (mem st) prev p xs l n"
    by (rule dseg_cong, use nodes_apart [OF assms(1) ok] assms(2) in
        \<open>simp add: GETADDR_PUTADDR_other\<close>)+
qed

text \<open>The list that held the block.\<close>

lemma remove_block_list:
  assumes d: "dll (mem st) NULL (free_listp st ! i) (xs @ y # ys)" and n: "nodes_ok (xs @ y # ys)"
    and i: "i = index_of (mem st) y" and len: "i < length (free_listp st)"
  shows "dll (mem (remove_block y st)) NULL (free_listp (remove_block y st) ! i) (xs @ ys)"
proof -
  have y: "node_ok y" "y \<noteq> NULL" using n by (auto simp: nodes_ok_append node_ok_def)
  obtain l where l: "dseg (mem st) NULL (free_listp st ! i) xs l y" "GETADDR (mem st) (PRED y) = l"
      "dll (mem st) y (GETADDR (mem st) (SUCC y)) ys"
    using d by (auto simp: dll_split)
  have ap: "apart (SUCC y) 8 (PRED y) 8" "apart (PRED y) 8 (SUCC y) 8"
    using node_apart y by simp_all
  show ?thesis
  proof (cases xs rule: rev_cases)
    case Nil
    then have x: "l = NULL" "free_listp st ! i = y" using l(1) by auto
    show ?thesis
    proof (cases ys)
      case Nil
      then show ?thesis using x l y i len \<open>xs = []\<close> by (simp add: remove_block_def Let_def PREV_FBLKP_def NEXT_FBLKP_def)
    next
      case (Cons z zs)
      have z: "node_ok z" "disj_nodes z y" "disj_nodes y z" "\<forall>w \<in> set zs. disj_nodes z w"
        "\<forall>w \<in> set zs. disj_nodes y w" "nodes_ok zs"
        using n Cons \<open>xs = []\<close> by (auto simp: disj_nodes_sym)
      note a = nodes_apart [OF z(1) y(1) z(2)] nodes_apart [OF y(1) z(1,3)] node_apart [OF z(1)]
      show ?thesis using x l y i len Cons \<open>xs = []\<close> z a
        by (simp add: remove_block_def Let_def PREV_FBLKP_def NEXT_FBLKP_def GETADDR_PUTADDR_other NULL_def)
    qed
  next
    case (snoc ws x)
    then obtain k where x: "dseg (mem st) NULL (free_listp st ! i) ws k x" "x \<noteq> NULL"
        "GETADDR (mem st) (PRED x) = k" "GETADDR (mem st) (SUCC x) = y" "l = x"
      using l(1) by (auto simp: dseg_snoc)
    have xo: "node_ok x" "disj_nodes x y" "disj_nodes y x" "\<forall>w \<in> set ws. disj_nodes x w"
        "\<forall>w \<in> set ws. disj_nodes y w" "nodes_ok ws" "\<forall>w \<in> set ys. disj_nodes x w"
      using n snoc by (auto simp: nodes_ok_append disj_nodes_sym)
    note b = nodes_apart [OF xo(1) y(1) xo(2)] nodes_apart [OF y(1) xo(1,3)] node_apart [OF xo(1)]
    show ?thesis
    proof (cases ys)
      case Nil
      then show ?thesis using x l y i len snoc xo b
        by (simp add: remove_block_def Let_def PREV_FBLKP_def NEXT_FBLKP_def GETADDR_PUTADDR_other
            dll_split dseg_snoc NULL_def)
    next
      case (Cons z zs)
      have z: "node_ok z" "disj_nodes z y" "disj_nodes y z" "disj_nodes z x" "disj_nodes x z" "\<forall>w \<in> set zs. disj_nodes z w"
        "\<forall>w \<in> set zs. disj_nodes y w" "\<forall>w \<in> set zs. disj_nodes x w" "\<forall>w \<in> set ws. disj_nodes z w" "nodes_ok zs"
        using n snoc Cons by (auto simp: nodes_ok_append disj_nodes_sym)
      note a = nodes_apart [OF z(1) y(1) z(2)] nodes_apart [OF y(1) z(1,3)] node_apart [OF z(1)]
        nodes_apart [OF z(1) xo(1) z(4)] nodes_apart [OF xo(1) z(1,5)]
      show ?thesis using x l y i len snoc Cons xo b z a
        by (simp add: remove_block_def Let_def PREV_FBLKP_def NEXT_FBLKP_def GETADDR_PUTADDR_other
            dll_split dseg_snoc)
    qed
  qed
qed


lemma dll_neighbours:
  assumes "dll m NULL p (xs @ y # ys)"
  shows "PREV_FBLKP m y = (if xs = [] then NULL else last xs)"
    "NEXT_FBLKP m y = (case ys of [] \<Rightarrow> NULL | z # _ \<Rightarrow> z)"
proof -
  obtain l where l: "dseg m NULL p xs l y" "GETADDR m (PRED y) = l" "dll m y (GETADDR m (SUCC y)) ys"
    using assms by (auto simp: dll_split)
  have "l = (if xs = [] then NULL else last xs)"
    using l(1) by (cases xs rule: rev_cases) (auto simp: dseg_snoc)
  then show "PREV_FBLKP m y = (if xs = [] then NULL else last xs)"
    using l(2) by (simp add: PREV_FBLKP_def)
  show "NEXT_FBLKP m y = (case ys of [] \<Rightarrow> NULL | z # _ \<Rightarrow> z)"
    using dll_head [OF l(3)] by (simp add: NEXT_FBLKP_def)
qed

text \<open>Nothing but links of nodes of the list is written.\<close>

lemma remove_block_other:
  assumes d: "dll (mem st) NULL p (xs @ y # ys)" and n: "nodes_ok (xs @ y # ys)"
    and o: "\<forall>x \<in> set (xs @ y # ys). \<forall>z \<in> set zs. disj_nodes x z" "nodes_ok zs"
  shows "dll (mem (remove_block y st)) prev q zs = dll (mem st) prev q zs"
proof -
  have y: "node_ok y" "\<forall>z \<in> set zs. disj_nodes y z" using n o by (auto simp: nodes_ok_append)
  have l: "node_ok (last xs)" "\<forall>z \<in> set zs. disj_nodes (last xs) z" if "xs \<noteq> []"
    using that n o nodes_ok_mem [of xs "last xs"] by (auto simp: nodes_ok_append)
  have h: "node_ok z" "\<forall>w \<in> set zs. disj_nodes z w" if "ys = z # ys'" for z ys'
    using that n o by (auto simp: nodes_ok_append)
  note nb = dll_neighbours [OF d]
  show ?thesis
    using nb y l h o(2)
    by (cases "xs = []"; cases ys) (auto simp: remove_block_def Let_def node_ok_def)
qed

lemma remove_block_listp:
  "j \<noteq> index_of (mem st) y \<Longrightarrow> free_listp (remove_block y st) ! j = free_listp st ! j"
  "length (free_listp (remove_block y st)) = length (free_listp st)"
  by (auto simp: remove_block_def Let_def)

lemma remove1_middle: "y \<notin> set xs \<Longrightarrow> remove1 y (xs @ y # ys) = xs @ ys"
  by (induction xs) auto

lemma nodes_ok_distinct: "nodes_ok xs \<Longrightarrow> distinct xs"
  by (induction xs) (auto simp: disj_nodes_def)

lemma nodes_ok_subset: "nodes_ok xs \<Longrightarrow> set ys \<subseteq> set xs \<Longrightarrow> distinct ys \<Longrightarrow> nodes_ok ys"
proof (induction ys)
  case (Cons y ys)
  have "disj_nodes a b" if "a \<in> set xs" "b \<in> set xs" "a \<noteq> b" for a b
    using Cons.prems(1) that by (induction xs) (auto simp: disj_nodes_sym)
  then have "\<forall>z \<in> set ys. disj_nodes y z" using Cons.prems by auto
  moreover have "node_ok y" using Cons.prems nodes_ok_mem by simp
  ultimately show ?case using Cons by simp
qed simp

lemma distinct_concat_remove:
  "distinct (concat ls) \<Longrightarrow> i < length ls \<Longrightarrow>
     distinct (concat (ls[i := remove1 y (ls ! i)])) \<and>
     set (concat (ls[i := remove1 y (ls ! i)])) \<subseteq> set (concat ls)"
proof (induction ls arbitrary: i)
  case (Cons l ls)
  show ?case
  proof (cases i)
    case 0
    moreover have "set (remove1 y l) \<subseteq> set l" by (rule set_remove1_subset)
    ultimately show ?thesis using Cons.prems by auto
  next
    case (Suc i')
    then have "distinct (concat (ls[i' := remove1 y (ls ! i')]))"
      "set (concat (ls[i' := remove1 y (ls ! i')])) \<subseteq> set (concat ls)"
      using Cons by auto
    then show ?thesis using Cons.prems Suc by auto
  qed
qed simp

lemma remove_block_lists:
  assumes ok: "lists_ok st ls" and i: "i = index_of (mem st) y" and y: "y \<in> set (ls ! i)"
  shows "lists_ok (remove_block y st) (ls[i := remove1 y (ls ! i)])"
proof -
  have len: "length (free_listp st) = 16" "length ls = 16" and n: "nodes_ok (concat ls)"
    and d: "\<And>j. j < 16 \<Longrightarrow> dll (mem st) NULL (free_listp st ! j) (ls ! j)"
    using ok by (auto simp: lists_ok_def LIST_NUM_def)
  have i16: "i < 16" using i by (simp add: index_of_def)
  obtain xs ys where s: "ls ! i = xs @ y # ys" "y \<notin> set xs" using y by (metis split_list_first)
  have ni: "nodes_ok (xs @ y # ys)" using nodes_ok_concat_nth [OF n, of i] i16 len s by simp
  have "dll (mem (remove_block y st)) NULL (free_listp (remove_block y st) ! j)
      (ls[i := remove1 y (ls ! i)] ! j)" if j: "j < 16" for j
  proof (cases "j = i")
    case True
    then show ?thesis
      using remove_block_list [of st i xs y ys] d [OF i16] s ni i i16 len
      by (simp add: remove1_middle)
  next
    case False
    then show ?thesis
      using remove_block_other [of st "free_listp st ! i" xs y ys "ls ! j"] d [OF i16] d [OF j] s ni i
        nodes_ok_concat_disj [OF n, of i j] nodes_ok_concat_nth [OF n, of j] i16 j len
      by (simp add: remove_block_listp)
  qed
  moreover have "nodes_ok (concat (ls[i := remove1 y (ls ! i)]))"
    using distinct_concat_remove [OF nodes_ok_distinct [OF n], of i y] nodes_ok_subset [OF n] i16 len
    by auto
  ultimately show ?thesis using len by (simp add: lists_ok_def LIST_NUM_def remove_block_listp)
qed

section \<open>Searching\<close>

definition fits :: "(addr \<Rightarrow> byte) \<Rightarrow> long \<Rightarrow> addr \<Rightarrow> bool" where
  "fits m asize bp \<longleftrightarrow> asize \<le> SIZE m (HDRP bp)"

definition found :: "addr option \<Rightarrow> addr" where
  "found r = (case r of None \<Rightarrow> NULL | Some b \<Rightarrow> b)"

lemma list_fit_find: "dll m prev p xs \<Longrightarrow> list_fit_loop m asize p = Some (found (find (fits m asize) xs))"
proof (induction xs arbitrary: prev p)
  case Nil
  then show ?case by (subst list_fit_loop.simps) (simp add: found_def)
next
  case (Cons x xs)
  then show ?case by (subst list_fit_loop.simps) (auto simp: fits_def [abs_def] found_def NEXT_FBLKP_def)
qed

lemma find_append: "find Q (as @ bs) = (if find Q as = None then find Q bs else find Q as)"
  by (induction as) auto

lemma lists_fit_find:
  "length ps = length ls \<Longrightarrow> (\<And>j. j < length ls \<Longrightarrow> dll m NULL (ps ! j) (ls ! j)) \<Longrightarrow>
     lists_fit m asize ps = Some (found (find (fits m asize) (concat ls)))"
proof (induction ps arbitrary: ls)
  case Nil
  then show ?case by (simp add: found_def)
next
  case (Cons p ps)
  obtain l ls' where l: "ls = l # ls'" using Cons.prems(1) by (cases ls) auto
  have d: "dll m NULL p l" using Cons.prems(2) [of 0] l by simp
  have "\<And>x. find (fits m asize) l = Some x \<Longrightarrow> x \<noteq> NULL"
  proof -
    fix x assume "find (fits m asize) l = Some x"
    then have "x \<in> set l" by (auto simp: find_Some_iff)
    moreover have "dll m prev p l \<Longrightarrow> x \<in> set l \<Longrightarrow> x \<noteq> NULL" for prev p
      by (induction l arbitrary: prev p) auto
    ultimately show "x \<noteq> NULL" using d by blast
  qed
  moreover have "lists_fit m asize ps = Some (found (find (fits m asize) (concat ls')))"
    using Cons.prems l by (intro Cons.IH) fastforce+
  ultimately show ?case
    using list_fit_find [OF d] l by (auto simp: found_def find_append split: option.splits)
qed

lemma find_fit_find:
  assumes "lists_ok st ls"
  shows "find_fit st asize =
    Some (found (find (fits (mem st) asize)
      (concat (drop (get_block_index (sint (ucast asize :: 32 word))) ls))))"
  unfolding find_fit_def
  by (rule lists_fit_find) (use assms in \<open>simp_all add: lists_ok_def LIST_NUM_def\<close>)

text \<open>A block whose successor is itself, not free or too small, is never left.\<close>

lemma first_fit_stuck:
  assumes "NEXT_BLKP m bp = bp" and "GET_ALLOC m (HDRP bp)" and "bp \<noteq> NULL"
  shows "first_fit_loop m asize bp = None"
proof -
  have "m' = m \<longrightarrow> b \<noteq> bp" if "first_fit_loop m' a b = Some r" for m' a b r
    by (rule first_fit_loop.raw_induct [where P = "\<lambda>m' a b r. m' = m \<longrightarrow> b \<noteq> bp", OF _ that])
      (use assms in \<open>auto split: if_splits\<close>)
  then show ?thesis by (cases "first_fit_loop m asize bp") auto
qed

end
