(* ===== verification/MmHeap.thy ===== *)
theory MmHeap
  imports MmLists
begin

text \<open>
  The heap of \<open>lab7/mm.c\<close> in the order of addresses: what \<open>mm_init\<close> leaves, what the search
  over all blocks finds, and what the heap checker accepts.
\<close>

lemma GET_PUT [simp]: "GET (mem (PUT p v st)) p = ucast v"
  by (simp add: GET_def PUT_def)

lemma unat_plus_numeral:
  "unat (b :: addr) + numeral k < 2 ^ 64 \<Longrightarrow> unat (b + numeral k) = unat b + numeral k"
  using unat_offset [of b "numeral k"] by simp

lemma PUT_fields [simp]:
  "free_listp (PUT p v st) = free_listp st" "heap_listp (PUT p v st) = heap_listp st"
  "mem_brk (PUT p v st) = mem_brk st" "mem_start_brk (PUT p v st) = mem_start_brk st"
  "mem_max_addr (PUT p v st) = mem_max_addr st"
  by (simp_all add: PUT_def)

lemma PUTADDR_fields' [simp]:
  "mem_start_brk (PUTADDR p v st) = mem_start_brk st" "mem_max_addr (PUTADDR p v st) = mem_max_addr st"
  by (simp_all add: PUTADDR_def)

lemma set_list_fields' [simp]:
  "mem_start_brk (set_list i p st) = mem_start_brk st"
  "mem_max_addr (set_list i p st) = mem_max_addr st"
  by (simp_all add: set_list_def)

lemma GET_PUT_other: "apart p 4 q 4 \<Longrightarrow> GET (mem (PUT p v st)) q = GET (mem st) q"
  "apart p 8 q 4 \<Longrightarrow> GET (mem (PUTADDR p w st)) q = GET (mem st) q"
  by (simp_all add: GET_def PUT_def PUTADDR_def load_store_other)

lemma GETADDR_PUT_other: "apart p 4 q 8 \<Longrightarrow> GETADDR (mem (PUT p v st)) q = GETADDR (mem st) q"
  by (simp_all add: GETADDR_def PUT_def load_store_other)

lemma offset_diff: "b + numeral k - numeral l = b + (numeral k - numeral l :: addr)"
  by simp

lemmas addr_simps = unat_plus_numeral offset_diff apart_def

lemmas store_simps = GET_PUT_other GETADDR_PUT_other GETADDR_PUTADDR_other addr_simps

text \<open>A list of tags that memory holds.\<close>

definition tags :: "(addr \<Rightarrow> byte) \<Rightarrow> (addr \<times> 32 word) list \<Rightarrow> bool" where
  "tags m ts \<longleftrightarrow> list_all (\<lambda>(p, v). GET m p = v) ts"

lemma tags_simps [simp]: "tags m []" "tags m ((p, v) # ts) \<longleftrightarrow> GET m p = v \<and> tags m ts"
  by (simp_all add: tags_def)

text \<open>The first block of the heap and its tags after \<open>mm_init\<close> on an empty heap at \<open>b\<close>.\<close>

definition initial_heap :: "addr \<Rightarrow> mm_t \<Rightarrow> bool" where
  "initial_heap b s \<longleftrightarrow> heap_listp s = b + 8 \<and> mem_brk s = b + 4112 \<and>
     tags (mem s) [(b + 4, 9), (b + 8, 9), (b + 12, 4096), (b + 4104, 4096), (b + 4108, 1)] \<and>
     lists_ok s ((replicate 16 [])[6 := [b + 16]])"

lemma empty_lists_ok: "lists_ok (st\<lparr>free_listp := replicate LIST_NUM NULL\<rparr>) (replicate LIST_NUM [])"
  by (simp add: lists_ok_def)

lemma dll_Nil_mem: "length (free_listp s) = LIST_NUM \<Longrightarrow> (\<forall>i < LIST_NUM. free_listp s ! i = NULL) \<Longrightarrow>
    lists_ok s (replicate LIST_NUM [])"
  by (simp add: lists_ok_def)

lemma insert_block_fields [simp]:
  "heap_listp (insert_block bp st) = heap_listp st" "mem_brk (insert_block bp st) = mem_brk st"
  "mem_start_brk (insert_block bp st) = mem_start_brk st" "mem_max_addr (insert_block bp st) = mem_max_addr st"
  by (simp_all add: insert_block_def Let_def)

lemma mem_sbrk_16:
  "b = mem_brk st \<Longrightarrow> b + 16 \<le> mem_max_addr st \<Longrightarrow> mem_sbrk 16 st = (b, st\<lparr>mem_brk := b + 16\<rparr>)"
  by (auto simp: mem_sbrk_def Let_def)

lemma mem_sbrk_4096:
  "b = mem_brk st \<Longrightarrow> b + 4096 \<le> mem_max_addr st \<Longrightarrow> mem_sbrk 4096 st = (b, st\<lparr>mem_brk := b + 4096\<rparr>)"
  by (auto simp: mem_sbrk_def Let_def)

lemma numeral_plus: "numeral k + (b :: addr) = b + numeral k"
  by simp

lemmas tag_eval = SIZE_def GET_SIZE_def GET_ALLOC_def HDRP_def FTRP_def NEXT_BLKP_def PREV_BLKP_def
  WSIZE_def DSIZE_def PACK_def

lemma mm_init_correct:
  assumes b: "unat b + 20971520 < 2 ^ 64" "b \<noteq> NULL"
    and st: "mem_brk st = b" "mem_max_addr st = b + MAX_HEAP"
  shows "fst (mm_init st) = 0" "initial_heap b (snd (mm_init st))"
proof -
  define s0 where "s0 = st\<lparr>mem_brk := b + 16, heap_listp := b\<rparr>"
  define s1 where "s1 = PUT (b + 12) 1 (PUT (b + 8) 9 (PUT (b + 4) 9 (PUT b 0 s0)))"
  define s2 where "s2 = s1\<lparr>heap_listp := b + 8, free_listp := replicate LIST_NUM NULL\<rparr>"
  have u: "unat (b + 16) = unat b + 16" "unat (b + 4112) = unat b + 4112"
    "unat (b + 20971520) = unat b + 20971520"
    using b by (simp_all add: unat_plus_numeral)
  have m1: "unat (-1 :: addr) = 2 ^ 64 - 1"
    by (simp add: unsigned_minus_1_eq_mask mask_eq_exp_minus_1)
  have le: "b + 16 \<le> mem_max_addr st" "b + 4112 \<le> mem_max_addr st"
    unfolding st MAX_HEAP_def word_le_nat_alt u by simp_all
  have "unat b \<noteq> unat (-1 :: addr)" "unat (b + 16) \<noteq> unat (-1 :: addr)" "unat (b + 16) \<noteq> unat NULL"
    using b(1) u m1 by (simp_all add: NULL_def)
  then have ne: "b \<noteq> -1" "b + 16 \<noteq> -1" "b + 16 \<noteq> NULL" by metis+
  have i0: "mm_init st = (let s = s2; (bp, s) = extend_heap (CHUNKSIZE div WSIZE) s
      in if bp = NULL then (-1, s) else (0, s))"
    using st le(1) ne(1)
    by (simp add: mm_init_def mem_sbrk_16 s2_def s1_def s0_def WSIZE_def DSIZE_def PACK_def Let_def)
  define s3 where "s3 = PUT (b + 12) 4096 (s2\<lparr>mem_brk := b + 4112\<rparr>)"
  define s4 where "s4 = PUTADDR (b + 24) 0 (PUTADDR (b + 16) 0 (PUT (b + 4104) 4096 s3))"
  define s5 where "s5 = PUT (b + 4108) 1 s4"
  have t2: "tags (mem s2) [(b + 12, 1), (b + 8, 9), (b + 4, 9)]"
    using b by (simp add: s2_def s1_def store_simps)
  have t3: "tags (mem s3) [(b + 12, 4096), (b + 8, 9), (b + 4, 9)]"
    using b t2 by (simp add: s3_def store_simps)
  have t4: "tags (mem s4) [(b + 12, 4096), (b + 8, 9), (b + 4, 9), (b + 4104, 4096)]"
    using b t3 by (simp add: s4_def store_simps)
  have t5: "tags (mem s5) [(b + 12, 4096), (b + 8, 9), (b + 4, 9), (b + 4104, 4096), (b + 4108, 1)]"
    using b t4 by (simp add: s5_def store_simps)
  have f2: "mem_brk s2 = b + 16" "mem_max_addr s2 = mem_max_addr st"
    by (simp_all add: s2_def s1_def s0_def)
  then have sb: "mem_sbrk 4096 s2 = (b + 16, s2\<lparr>mem_brk := b + 4112\<rparr>)"
    using mem_sbrk_4096 [of "b + 16" s2] le by (simp add: numeral_plus)
  have e: "extend_heap (CHUNKSIZE div WSIZE) s2 = coalesce (b + 16) s5"
    using ne t3 t4
    by (simp add: extend_heap_def sb s5_def s4_def s3_def tag_eval numeral_plus CHUNKSIZE_def
        SUCC_def PRED_def Let_def)
  have c: "coalesce (b + 16) s5 = (b + 16, insert_block (b + 16) s5)"
  proof -
    have "PREV_BLKP (mem s5) (b + 16) = b + 8" "NEXT_BLKP (mem s5) (b + 16) = b + 4112"
      using t5 by (simp_all add: tag_eval numeral_plus)
    moreover have "GET_ALLOC (mem s5) (FTRP (mem s5) (b + 8))" "GET_ALLOC (mem s5) (HDRP (b + 4112))"
      using t5 by (simp_all add: tag_eval numeral_plus)
    ultimately show ?thesis by (simp add: coalesce_def)
  qed
  define s6 where "s6 = insert_block (b + 16) s5"
  have n: "node_ok (b + 16)" using b u ne by (simp add: node_ok_def)
  have l5: "lists_ok s5 (replicate LIST_NUM [])"
    by (rule dll_Nil_mem) (simp_all add: s5_def s4_def s3_def s2_def)
  have ix: "index_of (mem s5) (b + 16) = 6"
    using t5 by (simp add: index_of_def tag_eval numeral_plus get_block_index_def)
  have l6: "lists_ok s6 ((replicate 16 [])[6 := [b + 16]])"
    using insert_block_lists [OF l5 n _ ix [symmetric]] by (simp add: s6_def LIST_NUM_def)
  have f: "free_listp s5 = replicate 16 NULL" by (simp add: s5_def s4_def s3_def s2_def LIST_NUM_def)
  have t6: "tags (mem s6) [(b + 4, 9), (b + 8, 9), (b + 12, 4096), (b + 4104, 4096), (b + 4108, 1)]"
    using b t5 ix f
    by (simp add: s6_def insert_block_def Let_def store_simps SUCC_def PRED_def DSIZE_def numeral_plus)
  have r: "mm_init st = (0, s6)" using i0 e c ne by (simp add: s6_def)
  have "heap_listp s6 = b + 8" "mem_brk s6 = b + 4112"
    by (simp_all add: s6_def s5_def s4_def s3_def s2_def)
  then show "fst (mm_init st) = 0" "initial_heap b (snd (mm_init st))"
    using r l6 t6 by (simp_all add: initial_heap_def)
qed


section \<open>The first-fit search over the heap\<close>

text \<open>The blocks from \<open>p\<close> to \<open>e\<close>, in the order of the heap.\<close>

fun walk :: "(addr \<Rightarrow> byte) \<Rightarrow> addr \<Rightarrow> addr list \<Rightarrow> addr \<Rightarrow> bool" where
  "walk m p [] e \<longleftrightarrow> p = e"
| "walk m p (x # xs) e \<longleftrightarrow> p = x \<and> x \<noteq> NULL \<and> walk m (NEXT_BLKP m x) xs e"

lemma first_fit_walk:
  assumes "walk m p xs e" and "e \<noteq> NULL" and "GET m (HDRP e) = 1"
  shows "first_fit_loop m asize p = find (\<lambda>b. \<not> GET_ALLOC m (HDRP b) \<and> fits m asize b) xs"
  using assms(1)
proof (induction xs arbitrary: p)
  case Nil
  have "NEXT_BLKP m e = e" "GET_ALLOC m (HDRP e)"
    using assms(3) by (simp_all add: NEXT_BLKP_def SIZE_def GET_SIZE_def GET_ALLOC_def HDRP_def)
  then show ?case using Nil first_fit_stuck [OF _ _ assms(2)] by simp
next
  case (Cons x xs)
  then show ?case by (subst first_fit_loop.simps) (auto simp: fits_def)
qed

lemma initial_walk:
  assumes "initial_heap b s" and "unat b + 20971520 < 2 ^ 64" and "b \<noteq> NULL"
  shows "walk (mem s) (heap_listp s) [b + 8, b + 16] (b + 4112)"
    "GET (mem s) (HDRP (b + 4112)) = 1" "b + 4112 \<noteq> NULL"
proof -
  have u: "unat (b + 8) = unat b + 8" "unat (b + 16) = unat b + 16" "unat (b + 4112) = unat b + 4112"
    using assms by (simp_all add: unat_plus_numeral)
  then have ne: "b + 8 \<noteq> NULL" "b + 16 \<noteq> NULL" "b + 4112 \<noteq> NULL"
    by (auto simp: NULL_def)
  then show "walk (mem s) (heap_listp s) [b + 8, b + 16] (b + 4112)" "b + 4112 \<noteq> NULL"
    using assms(1) by (simp_all add: initial_heap_def tag_eval numeral_plus)
  show "GET (mem s) (HDRP (b + 4112)) = 1"
    using assms(1) by (simp add: initial_heap_def tag_eval numeral_plus)
qed



section \<open>The heap checker\<close>

text \<open>A free list by its \<open>SUCC\<close> links alone, which the loops of the checker follow.\<close>

fun chain :: "(addr \<Rightarrow> byte) \<Rightarrow> addr \<Rightarrow> addr list \<Rightarrow> bool" where
  "chain m p [] \<longleftrightarrow> p = NULL"
| "chain m p (x # xs) \<longleftrightarrow> p = x \<and> x \<noteq> NULL \<and> chain m (GETADDR m (SUCC x)) xs"

lemma chain_dll: "dll m prev p xs \<Longrightarrow> chain m p xs"
  by (induction m prev p xs rule: dll.induct) auto

lemma chain_nonnull: "chain m p xs \<Longrightarrow> \<forall>y \<in> set xs. y \<noteq> NULL"
  by (induction m p xs rule: chain.induct) auto

lemma chain_unique: "chain m p xs \<Longrightarrow> chain m p ys \<Longrightarrow> xs = ys"
proof (induction xs arbitrary: p ys)
  case Nil
  then show ?case by (cases ys) auto
next
  case (Cons x xs)
  then show ?case by (cases ys) auto
qed

lemma chain_append: "chain m p (xs @ x # ys) \<Longrightarrow> chain m x (x # ys)"
  by (induction xs arbitrary: p) auto

lemma chain_distinct: "chain m p xs \<Longrightarrow> distinct xs"
proof (rule ccontr)
  assume c: "chain m p xs" and "\<not> distinct xs"
  then obtain as x bs cs where s: "xs = as @ [x] @ bs @ [x] @ cs" using not_distinct_decomp by blast
  have "chain m x (x # bs @ x # cs)" using c s chain_append [of m p as x "bs @ x # cs"] by simp
  moreover have "chain m x (x # cs)" using c s chain_append [of m p "as @ x # bs" x cs] by simp
  ultimately have "x # bs @ x # cs = x # cs" by (rule chain_unique)
  then have "length (x # bs @ x # cs) = length (x # cs)" by (rule arg_cong)
  then show False by simp
qed

lemma list_search_chain: "chain m p xs \<Longrightarrow> list_search m bad p = Some (list_ex bad xs)"
proof (induction xs arbitrary: p)
  case Nil
  then show ?case by (subst list_search.simps) simp
next
  case (Cons x xs)
  then show ?case by (subst list_search.simps) (auto simp: NEXT_FBLKP_def)
qed

lemma list_count_chain: "chain m p xs \<Longrightarrow> list_count m p n = Some (n + int (length xs))"
proof (induction xs arbitrary: p n)
  case Nil
  then show ?case by (subst list_count.simps) simp
next
  case (Cons x xs)
  then have "list_count m (GETADDR m (SUCC x)) (n + 1) = Some (n + 1 + int (length xs))"
    by (intro Cons.IH) auto
  then show ?case using Cons.prems by (subst list_count.simps) (simp add: NEXT_FBLKP_def)
qed

lemma lists_search_chain:
  "length ps = length ls \<Longrightarrow> (\<And>j. j < length ls \<Longrightarrow> chain m (ps ! j) (ls ! j)) \<Longrightarrow>
     lists_search m bad ps = Some (\<exists>j < length ls. list_ex (bad (ps ! j)) (ls ! j))"
proof (induction ps arbitrary: ls)
  case Nil
  then show ?case by simp
next
  case (Cons p ps)
  obtain l ls' where l: "ls = l # ls'" using Cons.prems(1) by (cases ls) auto
  have "chain m p l" using Cons.prems(2) [of 0] l by simp
  moreover have "lists_search m bad ps = Some (\<exists>j < length ls'. list_ex (bad (ps ! j)) (ls' ! j))"
    using Cons.prems l by (intro Cons.IH) fastforce+
  ultimately show ?case
    using l by (auto simp: list_search_chain Ex_less_Suc2 split: bool.split)
qed

lemma lists_count_chain:
  "length ps = length ls \<Longrightarrow> (\<And>j. j < length ls \<Longrightarrow> chain m (ps ! j) (ls ! j)) \<Longrightarrow>
     lists_count m ps n = Some (n + int (length (concat ls)))"
proof (induction ps arbitrary: ls n)
  case Nil
  then show ?case by simp
next
  case (Cons p ps)
  obtain l ls' where l: "ls = l # ls'" using Cons.prems(1) by (cases ls) auto
  have "chain m p l" using Cons.prems(2) [of 0] l by simp
  moreover have "lists_count m ps k = Some (k + int (length (concat ls')))" for k
    using Cons.prems l by (intro Cons.IH) fastforce+
  ultimately show ?case using l by (simp add: list_count_chain)
qed

lemma heap_search_walk:
  "walk m p xs e \<Longrightarrow> GET m (HDRP e) = 1 \<Longrightarrow> \<forall>x \<in> set xs. GET_SIZE m (HDRP x) \<noteq> 0 \<Longrightarrow>
     heap_search m bad p = Some (list_ex bad xs)"
proof (induction xs arbitrary: p)
  case Nil
  then show ?case by (subst heap_search.simps) (simp add: GET_SIZE_def)
next
  case (Cons x xs)
  then show ?case by (subst heap_search.simps) auto
qed

lemma heap_count_walk:
  "walk m p xs e \<Longrightarrow> GET m (HDRP e) = 1 \<Longrightarrow> \<forall>x \<in> set xs. GET_SIZE m (HDRP x) \<noteq> 0 \<Longrightarrow>
     heap_count m p n = Some (n + int (length (filter (\<lambda>x. \<not> GET_ALLOC m (HDRP x)) xs)))"
proof (induction xs arbitrary: p n)
  case Nil
  then show ?case by (subst heap_count.simps) (simp add: GET_SIZE_def)
next
  case (Cons x xs)
  then show ?case by (subst heap_count.simps) simp
qed

text \<open>The last test of the checker accepts exactly the lists whose \<open>PRED\<close> links lead back.\<close>

lemma dll_not_bad:
  assumes d: "dll m NULL p xs" and x: "x \<in> set xs"
  shows "\<not> bad_links m p x"
proof -
  obtain as bs where s: "xs = as @ x # bs" using x by (auto simp: in_set_conv_decomp)
  have dist: "distinct xs" using chain_distinct [OF chain_dll [OF d]] .
  have nn: "\<forall>y \<in> set xs. y \<noteq> NULL" using chain_nonnull [OF chain_dll [OF d]] .
  have p: "GETADDR m (PRED p) = NULL" using d s by (cases as) auto
  note nb = dll_neighbours [OF d [unfolded s]]
  have "GETADDR m (PRED x) \<noteq> GETADDR m (SUCC x)" if "GETADDR m (PRED x) \<noteq> 0"
  proof -
    have "as \<noteq> []" "GETADDR m (PRED x) = last as"
      using that nb(1) by (auto simp: PREV_FBLKP_def NULL_def split: if_splits)
    moreover have "last as \<notin> set bs" "last as \<noteq> NULL"
      using \<open>as \<noteq> []\<close> dist nn s by (auto dest: last_in_set)
    ultimately show ?thesis using nb(2) by (auto simp: NEXT_FBLKP_def split: list.splits)
  qed
  moreover have "GETADDR m (PRED (NEXT_FBLKP m x)) = x" if sz: "GETADDR m (SUCC x) \<noteq> 0"
  proof -
    obtain z cs where z: "bs = z # cs" "NEXT_FBLKP m x = z"
      using sz nb(2) by (cases bs) (simp_all add: NEXT_FBLKP_def NULL_def)
    have "dll m NULL p ((as @ [x]) @ z # cs)" using d s z by simp
    from dll_neighbours(1) [OF this] show ?thesis using z by (simp add: PREV_FBLKP_def)
  qed
  ultimately show ?thesis using p
    by (cases "GETADDR m (SUCC x) = 0") (auto simp: bad_links_def NEXT_FBLKP_def NULL_def)
qed

lemma chain_linked:
  "chain m p xs \<Longrightarrow> (xs \<noteq> [] \<Longrightarrow> GETADDR m (PRED p) = prev) \<Longrightarrow>
     (\<And>x. x \<in> set xs \<Longrightarrow> GETADDR m (SUCC x) \<noteq> 0 \<Longrightarrow> GETADDR m (PRED (GETADDR m (SUCC x))) = x) \<Longrightarrow> dll m prev p xs"
proof (induction xs arbitrary: p prev)
  case (Cons x xs)
  have "dll m x (GETADDR m (SUCC x)) xs"
  proof (rule Cons.IH)
    show "chain m (GETADDR m (SUCC x)) xs" using Cons.prems(1) by simp
    show "GETADDR m (PRED (GETADDR m (SUCC x))) = x" if "xs \<noteq> []"
      using that Cons.prems(1) Cons.prems(3) [of x] by (cases xs) (auto simp: NULL_def)
  qed (use Cons.prems(3) in simp)
  then show ?case using Cons.prems(1,2) by simp
qed simp

lemma dll_iff_links: "chain m p xs \<Longrightarrow> dll m NULL p xs \<longleftrightarrow> \<not> list_ex (bad_links m p) xs"
proof
  assume c: "chain m p xs" and b: "\<not> list_ex (bad_links m p) xs"
  show "dll m NULL p xs"
    by (rule chain_linked [OF c]) (use b in \<open>auto simp: list_ex_iff bad_links_def NEXT_FBLKP_def NULL_def neq_Nil_conv\<close>)
qed (auto simp: list_ex_iff dest: dll_not_bad)

text \<open>What the checker decides on a heap whose lists and blocks have an end.\<close>

lemma mm_check_decides:
  assumes len: "length (free_listp st) = length ls"
    and chains: "\<forall>j < length ls. chain (mem st) (free_listp st ! j) (ls ! j)"
    and w: "walk (mem st) (heap_listp st) bs e" "GET (mem st) (HDRP e) = 1"
      "\<forall>x \<in> set bs. GET_SIZE (mem st) (HDRP x) \<noteq> 0"
  shows "mm_check st = Some
    (if (\<exists>x \<in> set (concat ls). GET_ALLOC (mem st) (HDRP x)) \<or>
        (\<exists>x \<in> set bs. \<not> GET_ALLOC (mem st) (HDRP x) \<and>
           \<not> GET_ALLOC (mem st) (HDRP (NEXT_BLKP (mem st) x))) \<or>
        length (filter (\<lambda>x. \<not> GET_ALLOC (mem st) (HDRP x)) bs) \<noteq> length (concat ls) \<or>
        (\<exists>j < length ls. \<not> dll (mem st) NULL (free_listp st ! j) (ls ! j))
     then -1 else 0)"
proof -
  let ?m = "mem st"
  have ch: "chain ?m (free_listp st ! j) (ls ! j)" if "j < length ls" for j using chains that by blast
  have b: "lists_search ?m (bad_links ?m) (free_listp st) =
      Some (\<exists>j < length ls. \<not> dll ?m NULL (free_listp st ! j) (ls ! j))"
    using lists_search_chain [OF len ch, of "bad_links ?m"] dll_iff_links [OF ch] by auto
  have a: "lists_search ?m (\<lambda>_ bp. GET_ALLOC ?m (HDRP bp)) (free_listp st) =
      Some (\<exists>x \<in> set (concat ls). GET_ALLOC ?m (HDRP x))"
    using lists_search_chain [OF len ch, of "\<lambda>_ bp. GET_ALLOC ?m (HDRP bp)"]
    by (auto simp: list_ex_iff in_set_conv_nth Bex_def)
  have c: "lists_count ?m (free_listp st) 0 = Some (int (length (concat ls)))"
    using lists_count_chain [OF len ch, of 0] by simp
  show ?thesis
    unfolding mm_check_def Let_def a b c heap_search_walk [OF w] heap_count_walk [OF w]
    by (auto simp: list_ex_iff simp del: length_concat)
qed

lemma mm_check_eq:
  assumes ok: "lists_ok st ls" and w: "walk (mem st) (heap_listp st) bs e" "GET (mem st) (HDRP e) = 1"
    "\<forall>x \<in> set bs. GET_SIZE (mem st) (HDRP x) \<noteq> 0"
  shows "mm_check st = Some
    (if (\<exists>x \<in> set (concat ls). GET_ALLOC (mem st) (HDRP x)) \<or>
        (\<exists>x \<in> set bs. \<not> GET_ALLOC (mem st) (HDRP x) \<and>
           \<not> GET_ALLOC (mem st) (HDRP (NEXT_BLKP (mem st) x))) \<or>
        length (filter (\<lambda>x. \<not> GET_ALLOC (mem st) (HDRP x)) bs) \<noteq> length (concat ls)
     then -1 else 0)"
proof -
  have len: "length (free_listp st) = length ls"
    and d: "\<And>j. j < length ls \<Longrightarrow> dll (mem st) NULL (free_listp st ! j) (ls ! j)"
    using ok by (auto simp: lists_ok_def)
  have ch: "\<forall>j < length ls. chain (mem st) (free_listp st ! j) (ls ! j)" using chain_dll [OF d] by blast
  have "\<not> (\<exists>j < length ls. \<not> dll (mem st) NULL (free_listp st ! j) (ls ! j))" using d by blast
  then show ?thesis unfolding mm_check_decides [OF len ch w] by auto
qed

section \<open>The initial heap\<close>

lemma initial_check:
  assumes "initial_heap b s" and "unat b + 20971520 < 2 ^ 64" and "b \<noteq> NULL"
  shows "mm_check s = Some 0"
proof -
  have l: "lists_ok s ((replicate 16 [])[6 := [b + 16]])"
    and t: "tags (mem s) [(b + 4, 9), (b + 8, 9), (b + 12, 4096), (b + 4104, 4096), (b + 4108, 1)]"
    using assms(1) by (simp_all add: initial_heap_def)
  have c: "concat ((replicate 16 [])[6 := [b + 16]]) = [b + 16]"
    by (simp add: numeral_eq_Suc)
  have z: "\<forall>x \<in> set [b + 8, b + 16]. GET_SIZE (mem s) (HDRP x) \<noteq> 0"
    using t by (simp add: tag_eval numeral_plus)
  have "\<not> GET_ALLOC (mem s) (HDRP (b + 16))" "GET_ALLOC (mem s) (HDRP (b + 8))"
    "GET_ALLOC (mem s) (HDRP (NEXT_BLKP (mem s) (b + 16)))"
    using t by (simp_all add: tag_eval numeral_plus)
  then show ?thesis
    unfolding mm_check_eq [OF l initial_walk(1,2) [OF assms] z] c by simp
qed

lemma concat_drop_update:
  "k \<le> i \<Longrightarrow> i < n \<Longrightarrow> concat (drop k ((replicate n [])[i := xs])) = xs"
proof (induction n arbitrary: k i)
  case (Suc n)
  show ?case
  proof (cases i)
    case 0
    then show ?thesis using Suc.prems by simp
  next
    case (Suc j)
    then show ?thesis using Suc.IH [of "k - 1" j] Suc.prems by (cases k) simp_all
  qed
qed simp

lemma initial_find_fit:
  assumes "initial_heap b s" and "asize \<le> 4096"
  shows "find_fit s asize = Some (b + 16)"
proof -
  have t: "GET (mem s) (b + 12) = 4096" and l: "lists_ok s ((replicate 16 [])[6 := [b + 16]])"
    using assms(1) by (simp_all add: initial_heap_def)
  have "fits (mem s) asize (b + 16)"
    using t assms(2) by (simp add: fits_def tag_eval numeral_plus)
  moreover have "get_block_index (sint (ucast asize :: 32 word)) \<le> 6"
  proof -
    have "uint asize \<le> 4096" using assms(2) by (simp add: word_le_def)
    then have "sint (ucast asize :: 32 word) = uint asize"
      using signed_take_bit_int_eq_self [of 31 "uint asize"] uint_nonnegative [of asize]
      by (simp add: sint_uint unsigned_ucast_eq take_bit_int_eq_self)
    then show ?thesis using \<open>uint asize \<le> 4096\<close> get_block_index_le [of 6 "uint asize"]
      by (simp add: class_bounds_def)
  qed
  then have "concat (drop (get_block_index (sint (ucast asize :: 32 word))) ((replicate 16 [])[6 := [b + 16]])) = [b + 16]"
    by (intro concat_drop_update) simp_all
  ultimately show ?thesis using find_fit_find [OF l, of asize] by (simp add: found_def)
qed

end
