(* ===== verification/MmTheorems.thy ===== *)
theory MmTheorems
  imports MmHeap
begin

text \<open>
  The properties of the allocator: size classes and adjusted sizes, the free lists as a refinement of
  plain lists, the heap that \<open>mm_init\<close> leaves, the searches and the checker.
\<close>

text \<open>A heap to evaluate on: \<open>mm_init\<close> over an arena of zeros at 4096.\<close>

definition arena :: mm_t where
  "arena = \<lparr>mem = (\<lambda>_. 0), mem_start_brk = 4096, mem_brk = 4096, mem_max_addr = 4096 + MAX_HEAP,
     heap_listp = NULL, free_listp = []\<rparr>"

definition demo_heap :: mm_t where "demo_heap = snd (mm_init arena)"

definition demo_lists :: "addr list list" where
  "demo_lists = (replicate 16 [])[6 := [4112]]"

lemma demo_initial: "initial_heap 4096 demo_heap"
  unfolding demo_heap_def by (rule mm_init_correct) (simp_all add: arena_def NULL_def)

lemma demo_heap_lists: "lists_ok demo_heap demo_lists"
  using demo_initial by (simp add: initial_heap_def demo_lists_def)

lemma demo_concat: "k \<le> 6 \<Longrightarrow> concat (drop k demo_lists) = [4112]"
  using concat_drop_update [of k 6 16 "[4112]"] by (simp add: demo_lists_def)

lemma demo_index: "index_of (mem demo_heap) 4112 = 6"
  using demo_initial
  by (simp add: initial_heap_def index_of_def tag_eval get_block_index_def)

section \<open>Sizes\<close>

lemma class_bounds_length: "length class_bounds = 15"
  by (simp add: class_bounds_def)

text \<open>
  \<open>get_block_index\<close> is always an index of the array of lists, and class \<open>i\<close> holds exactly the
  sizes above bound \<open>i - 1\<close> up to bound \<open>i\<close>.
\<close>

lemma size_classes:
  "get_block_index n < LIST_NUM \<and>
   map (\<lambda>i. get_block_index n \<le> i) [0..<15] = map (\<lambda>b. n \<le> b) class_bounds"
proof -
  have "map (\<lambda>i. get_block_index n \<le> i) [0..<15] = map (\<lambda>b. n \<le> b) class_bounds"
    by (rule nth_equalityI) (simp_all add: get_block_index_le class_bounds_length)
  then show ?thesis by (simp add: LIST_NUM_def)
qed

lemma unat_adjust:
  assumes "unat sz + 15 < 2 ^ 64"
  shows "unat (adjust sz) = (if unat sz \<le> 8 then 24 else 8 * ((unat sz + 15) div 8))"
proof -
  have s: "unat (sz + 8 + 7) = unat sz + 15"
    using assms unat_plus_numeral [of sz "num.Bit1 (num.Bit1 (num.Bit1 num.One))"]
    by (simp add: add.assoc)
  have "unat (8 * ((sz + 8 + 7) div 8) :: long) = 8 * ((unat sz + 15) div 8)"
    using assms s by (simp add: unat_word_ariths unat_div add.assoc)
  then show ?thesis
    by (simp add: adjust_def DSIZE_def word_le_nat_alt)
qed

text \<open>
  The size a request is adjusted to is a multiple of eight, at least 24, and leaves room for the
  request beside header and footer, for every request but the fifteen largest \<open>size_t\<close> values.
\<close>

lemma adjust_correct:
  assumes "unat sz + 15 < 2 ^ 64"
  shows "unat (adjust sz) mod 8 = 0 \<and> 24 \<le> unat (adjust sz) \<and> unat sz + 8 \<le> unat (adjust sz) \<and>
    unat (adjust sz) \<le> max 24 (unat sz + 15)"
  using unat_adjust [OF assms] by auto

lemma adjust_correct_witness: "unat (adjust 100) mod 8 = 0 \<and> 24 \<le> unat (adjust 100) \<and>
    unat (100 :: long) + 8 \<le> unat (adjust 100) \<and> unat (adjust 100) \<le> max 24 (unat (100 :: long) + 15)"
  by (rule adjust_correct) simp

text \<open>For the largest requests the adjustment wraps: the block looked for has at most eight bytes.\<close>

lemma adjust_wraps: "adjust (- 1) = 8 \<and> adjust (- 15) = 0"
  by code_simp

section \<open>Free lists\<close>

text \<open>
  \<open>insert_block\<close> refines consing: when memory represents the sixteen lists, inserting a block
  that overlaps none of them puts it in front of the list of its size class, and memory then
  represents the new lists.
\<close>

lemma insert_block_refines:
  assumes "lists_ok st ls" and "node_ok bp" and "\<forall>y \<in> set (concat ls). disj_nodes bp y"
  shows "lists_ok (insert_block bp st)
    (ls[index_of (mem st) bp := bp # ls ! index_of (mem st) bp])"
  by (rule insert_block_lists [OF assms refl])

lemma insert_block_refines_witness:
  "lists_ok (insert_block 8208 demo_heap)
    (demo_lists[index_of (mem demo_heap) 8208 := 8208 # demo_lists ! index_of (mem demo_heap) 8208])"
  by (rule insert_block_refines [OF demo_heap_lists])
    (use demo_concat [of 0] in \<open>simp_all add: node_ok_def NULL_def disj_nodes_def\<close>)

text \<open>
  C16. \<open>remove_block\<close> refines the removal of the block from the list of its size class, wherever in
  the list it stands.
\<close>

theorem remove_block_refines:
  assumes "lists_ok st ls" and "y \<in> set (ls ! index_of (mem st) y)"
  shows "lists_ok (remove_block y st)
    (ls[index_of (mem st) y := remove1 y (ls ! index_of (mem st) y)])"
  by (rule remove_block_lists [OF assms(1) refl assms(2)])

theorem remove_block_refines_witness:
  "lists_ok (remove_block 4112 demo_heap)
    (demo_lists[6 := remove1 4112 (demo_lists ! 6)])"
  using remove_block_refines [OF demo_heap_lists, of 4112] by (simp add: demo_index demo_lists_def)

text \<open>
  \<open>find_fit\<close> always returns: the first block that is large enough, in the order of the lists from
  the class of the request on, and the null pointer when there is none.
\<close>

lemma find_fit_refines:
  assumes "lists_ok st ls"
  shows "find_fit st asize = Some (found (find (\<lambda>bp. asize \<le> SIZE (mem st) (HDRP bp))
    (concat (drop (get_block_index (sint (ucast asize :: 32 word))) ls))))"
  using find_fit_find [OF assms] by (simp add: fits_def [abs_def])

lemma find_fit_refines_witness: "find_fit demo_heap 24 = Some 4112"
proof -
  have "24 \<le> SIZE (mem demo_heap) (HDRP 4112)"
    using demo_initial by (simp add: initial_heap_def tag_eval)
  then show ?thesis
    using find_fit_refines [OF demo_heap_lists, of 24]
      demo_concat [of 0] by (simp add: get_block_index_def found_def)
qed

section \<open>The heap\<close>

text \<open>
  \<open>mm_init\<close> on an empty heap at \<open>b\<close> succeeds and leaves prologue, one free block of
  \<open>CHUNKSIZE\<close> bytes with header and footer in the list of its class, and the epilogue; the heap
  checker accepts it.
\<close>

lemma mm_init_establishes:
  assumes "unat b + 20971520 < 2 ^ 64" and "b \<noteq> NULL"
    and "mem_brk st = b" and "mem_max_addr st = b + MAX_HEAP"
  shows "fst (mm_init st) = 0 \<and> initial_heap b (snd (mm_init st)) \<and> mm_check (snd (mm_init st)) = Some 0"
  using mm_init_correct [OF assms] initial_check [OF _ assms(1,2)] by blast

lemma mm_init_establishes_witness:
  "fst (mm_init arena) = 0 \<and> initial_heap 4096 (snd (mm_init arena)) \<and>
     mm_check (snd (mm_init arena)) = Some 0"
  by (rule mm_init_establishes) (simp_all add: arena_def NULL_def)

text \<open>
  C17. The checker: on a heap whose free lists end when their \<open>SUCC\<close> links are followed and whose blocks end at the
  epilogue, \<open>mm_check\<close> returns, and it returns 0 exactly when no listed block is allocated, no two neighbours
  are free, as many blocks are listed as are free, and the \<open>PRED\<close> links of every list lead back to its start.
\<close>

theorem mm_check_correct:
  assumes "length (free_listp st) = length ls"
    and "\<forall>j < length ls. chain (mem st) (free_listp st ! j) (ls ! j)"
    and "walk (mem st) (heap_listp st) bs e" and "GET (mem st) (HDRP e) = 1"
    and "\<forall>x \<in> set bs. GET_SIZE (mem st) (HDRP x) \<noteq> 0"
  shows "mm_check st = Some
    (if (\<exists>x \<in> set (concat ls). GET_ALLOC (mem st) (HDRP x)) \<or>
        (\<exists>x \<in> set bs. \<not> GET_ALLOC (mem st) (HDRP x) \<and>
           \<not> GET_ALLOC (mem st) (HDRP (NEXT_BLKP (mem st) x))) \<or>
        length (filter (\<lambda>x. \<not> GET_ALLOC (mem st) (HDRP x)) bs) \<noteq> length (concat ls) \<or>
        (\<exists>j < length ls. \<not> dll (mem st) NULL (free_listp st ! j) (ls ! j))
     then -1 else 0)"
  by (rule mm_check_decides [OF assms])

theorem mm_check_correct_witness:
  "mm_check (demo_heap\<lparr>free_listp := replicate 16 NULL\<rparr>) = Some (-1)"
proof -
  let ?s = "demo_heap\<lparr>free_listp := replicate 16 NULL\<rparr>"
  have l: "length (free_listp ?s) = length (replicate 16 [])"
    "\<forall>j < length (replicate 16 []). chain (mem ?s) (free_listp ?s ! j) (replicate 16 [] ! j)" by simp_all
  have w: "walk (mem ?s) (heap_listp ?s) [4104, 4112] 8208" "GET (mem ?s) (HDRP 8208) = 1"
    using initial_walk [OF demo_initial] by (simp_all add: NULL_def)
  have z: "\<forall>x \<in> set [4104, 4112]. GET_SIZE (mem ?s) (HDRP x) \<noteq> 0"
    using demo_initial by (simp add: initial_heap_def tag_eval)
  have a: "\<not> GET_ALLOC (mem ?s) (HDRP 4112)" "GET_ALLOC (mem ?s) (HDRP 4104)"
    using demo_initial by (simp_all add: initial_heap_def tag_eval)
  show ?thesis
    unfolding mm_check_correct [OF l w z] using a by simp
qed

text \<open>
  The search over all blocks returns the first free block that is large enough; when there is
  none it does not return the null pointer but never ends, because the epilogue is its own successor.
\<close>

lemma find_first_fit_search:
  assumes "walk (mem st) (heap_listp st) bs e" and "e \<noteq> NULL" and "GET (mem st) (HDRP e) = 1"
  shows "find_first_fit st asize =
    find (\<lambda>b. \<not> GET_ALLOC (mem st) (HDRP b) \<and> asize \<le> SIZE (mem st) (HDRP b)) bs"
  using first_fit_walk [OF assms] by (simp add: find_first_fit_def fits_def)

lemma find_first_fit_search_witness:
  "find_first_fit demo_heap 24 = Some 4112 \<and> find_first_fit demo_heap 5000 = None"
proof -
  have w: "walk (mem demo_heap) (heap_listp demo_heap) [4104, 4112] 8208"
    "8208 \<noteq> NULL" "GET (mem demo_heap) (HDRP 8208) = 1"
    using initial_walk [OF demo_initial] by (simp_all add: NULL_def)
  have "\<not> GET_ALLOC (mem demo_heap) (HDRP 4112)" "GET_ALLOC (mem demo_heap) (HDRP 4104)"
    "SIZE (mem demo_heap) (HDRP 4112) = 4096"
    using demo_initial by (simp_all add: initial_heap_def tag_eval)
  then show ?thesis
    unfolding find_first_fit_search [OF w] by simp
qed

lemma load_poke:
  "apart p 1 q 4 \<Longrightarrow> GET (mem (poke p x st)) q = GET (mem st) q"
  "apart p 1 q 8 \<Longrightarrow> GETADDR (mem (poke p x st)) q = GETADDR (mem st) q"
  using bytes_at_store_other [of p "[x]" q 4 "mem st"] bytes_at_store_other [of p "[x]" q 8 "mem st"]
  by (simp_all add: GET_def GETADDR_def load32_def load64_def poke_def)

lemma initial_poke:
  assumes "initial_heap b s" and "unat b + 20971520 < 2 ^ 64"
  shows "initial_heap b (poke (b + 8207) x s)"
proof -
  have "lists_ok (poke (b + 8207) x s) ((replicate 16 [])[6 := [b + 16]])"
  proof -
    have d: "dll (mem s) NULL (free_listp s ! i) (((replicate 16 [])[6 := [b + 16]]) ! i)" if "i < 16" for i
      using that assms(1) by (simp add: initial_heap_def lists_ok_def LIST_NUM_def)
    have "dll (mem (poke (b + 8207) x s)) NULL (free_listp s ! i) (((replicate 16 [])[6 := [b + 16]]) ! i)"
      if "i < 16" for i
      using d [OF that] that assms(2)
      by (subst dll_cong [of _ _ "mem s"])
        (auto simp: nth_list_update load_poke addr_simps PRED_def SUCC_def DSIZE_def add.assoc split: if_splits)
    moreover have "free_listp (poke (b + 8207) x s) = free_listp s" by (simp add: poke_def)
    ultimately show ?thesis using assms(1) by (simp add: initial_heap_def lists_ok_def LIST_NUM_def)
  qed
  then show ?thesis
    using assms by (simp add: initial_heap_def load_poke addr_simps) (simp add: poke_def)
qed

lemma initial_malloc:
  assumes i: "initial_heap b s" and b: "unat b + 20971520 < 2 ^ 64" "b \<noteq> NULL"
  shows "mm_malloc 16 s = Some (b + 16, place (b + 16) (adjust 16) s)"
proof -
  have "GET_SIZE (mem s) (HDRP (NEXT_BLKP (mem s) (heap_listp s))) = 4096"
    using i by (simp add: initial_heap_def tag_eval numeral_plus)
  then have "malloc_binary 16 (adjust 16) s = Some None" by (simp add: malloc_binary_def)
  moreover have "find_fit s (adjust 16) = Some (b + 16)"
    by (rule initial_find_fit [OF i]) (simp add: adjust_def DSIZE_def)
  moreover have "b + 16 \<noteq> NULL"
    using b unat_plus_numeral [of b "num.Bit0 (num.Bit0 (num.Bit0 (num.Bit0 num.One)))"]
    by (auto simp: NULL_def)
  ultimately show ?thesis by (simp add: mm_malloc_def Let_def)
qed

text \<open>
  A request of 8190 bytes right after \<open>mm_init\<close> returns a block that the heap has no room for
  and does not take it from the free list: the next small request returns the same address.
\<close>

lemma malloc_8190_overlaps:
  assumes "initial_heap b s" and "unat b + 20971520 < 2 ^ 64" and "b \<noteq> NULL"
  shows "\<exists>s1 s2. mm_malloc 8190 s = Some (b + 16, s1) \<and> mm_malloc 16 s1 = Some (b + 16, s2) \<and>
    mem_brk s1 < b + 16 + 8190"
proof -
  define s1 where "s1 = poke (b + 8207) (- 1) s"
  have m: "mm_malloc 8190 s = Some (b + 16, s1)"
    using assms(1) by (simp add: mm_malloc_def malloc_8190_def initial_heap_def s1_def numeral_plus)
  have i: "initial_heap b s1" unfolding s1_def by (rule initial_poke [OF assms(1,2)])
  have "mm_malloc 16 s1 = Some (b + 16, place (b + 16) (adjust 16) s1)"
    by (rule initial_malloc [OF i assms(2,3)])
  moreover have "mem_brk s1 < b + 16 + 8190"
  proof -
    have e: "b + 16 + 8190 = b + 8206" by (simp add: add.assoc)
    show ?thesis
      unfolding e word_less_nat_alt using i assms(2) by (simp add: initial_heap_def unat_plus_numeral)
  qed
  ultimately show ?thesis using m by blast
qed

lemma malloc_8190_overlaps_witness:
  "\<exists>s1 s2. mm_malloc 8190 demo_heap = Some (4112, s1) \<and> mm_malloc 16 s1 = Some (4112, s2) \<and>
    mem_brk s1 < 4112 + 8190"
  using malloc_8190_overlaps [OF demo_initial] by (simp add: NULL_def)

end
