(* ===== verification/MmBreak.thy ===== *)
theory MmBreak
  imports Mm
begin

text \<open>
  The allocator of \<open>lab7/mm.c\<close> and the break of \<open>lab7/memlib.c\<close>: no operation moves the heap, makes it
  smaller or larger than \<open>MAX_HEAP\<close>, whatever the contents of the heap and whatever its arguments.
\<close>

section \<open>What writes to memory leaves alone\<close>

definition extent :: "'a mem_sys_scheme \<Rightarrow> addr \<times> addr \<times> addr" where
  "extent st = (mem_start_brk st, mem_brk st, mem_max_addr st)"

lemma extent_writes [simp]:
  "extent (PUT p v st) = extent st" "extent (PUTADDR p v st) = extent st" "extent (put_tags p v st) = extent st"
  "extent (clear_links p st) = extent st" "extent (set_list i p st) = extent st" "extent (poke p b st) = extent st"
  by (simp_all add: extent_def PUT_def PUTADDR_def put_tags_def clear_links_def set_list_def poke_def)

lemma extent_mem [simp]: "extent (st\<lparr>mem := m\<rparr>) = extent st"
  by (simp add: extent_def)

lemma extent_blocks [simp]:
  "extent (insert_block p st) = extent st" "extent (remove_block p st) = extent st"
  "extent (snd (coalesce p st)) = extent st" "extent (place p n st) = extent st" "extent (make_free p n st) = extent st"
proof -
  show i: "extent (insert_block p st) = extent st" for p st by (simp add: insert_block_def Let_def)
  show r: "extent (remove_block p st) = extent st" for p st by (simp add: remove_block_def Let_def)
  show "extent (snd (coalesce p st)) = extent st" by (simp add: coalesce_def Let_def i r)
  show "extent (place p n st) = extent st" by (simp add: place_def Let_def i r)
  show "extent (make_free p n st) = extent st" by (simp add: make_free_def i)
qed

lemma extent_free [simp]: "extent (mm_free p st) = extent st"
  by (simp add: mm_free_def Let_def)

lemma extent_more [simp]:
  "extent (realloc_shrink p c a st) = extent st" "extent (merge_next p t a st) = extent st"
  "extent (snd (split_three p c f a st)) = extent st"
  "extent (snd (malloc_8190 st)) = extent st"
  by (simp_all add: realloc_shrink_def merge_next_def split_three_def malloc_8190_def Let_def)

section \<open>The break\<close>

definition arena_ok :: "'a mem_sys_scheme \<Rightarrow> bool" where
  "arena_ok st \<longleftrightarrow> mem_start_brk st \<le> mem_brk st \<and> mem_brk st \<le> mem_max_addr st \<and>
     unat (mem_max_addr st) + 2 ^ 31 \<le> 2 ^ 64"

definition grown :: "'a mem_sys_scheme \<Rightarrow> 'a mem_sys_scheme \<Rightarrow> bool" where
  "grown st st' \<longleftrightarrow> mem_start_brk st' = mem_start_brk st \<and> mem_max_addr st' = mem_max_addr st \<and>
     mem_brk st \<le> mem_brk st' \<and> mem_brk st' \<le> mem_max_addr st"

lemma grown_arena: "arena_ok st \<Longrightarrow> extent st' = extent st \<Longrightarrow> grown st st'"
  by (simp add: extent_def arena_ok_def grown_def)

lemma grown_cong: "grown st st' \<Longrightarrow> extent t = extent st \<Longrightarrow> extent t' = extent st' \<Longrightarrow> grown t t'"
  by (simp add: extent_def grown_def)

lemma grown_ok: "grown st st' \<Longrightarrow> arena_ok st \<Longrightarrow> arena_ok st'"
  by (auto simp: grown_def arena_ok_def)

lemma grown_trans: "grown st t \<Longrightarrow> grown t u \<Longrightarrow> grown st u"
  by (auto simp: grown_def)

lemma uint_small_word: "0 \<le> k \<Longrightarrow> k < 2 ^ 31 \<Longrightarrow> uint (word_of_int k :: addr) = k"
  by (simp add: uint_word_of_int)

lemma grown_mem_sbrk: "arena_ok st \<Longrightarrow> grown st (snd (mem_sbrk n st))"
proof -
  assume ok: "arena_ok st"
  show ?thesis
  proof (cases "sint n < 0")
    case True
    then show ?thesis using ok by (simp add: mem_sbrk_def grown_def arena_ok_def)
  next
    case False
    have "sint n < 2 ^ 31" using sint_lt [of n] by simp
    then have u: "unat (scast n :: addr) < 2 ^ 31"
      using False uint_small_word [of "sint n"] unfolding scast_eq unat_eq_nat_uint by simp
    have "mem_brk st \<le> mem_brk st + scast n"
      using ok u by (intro word_le_nat_alt [THEN iffD2]) (simp add: arena_ok_def word_le_nat_alt unat_word_ariths)
    then show ?thesis using ok by (auto simp: mem_sbrk_def grown_def arena_ok_def Let_def not_less)
  qed
qed


lemma grown_refl: "arena_ok st \<Longrightarrow> grown st st"
  by (simp add: grown_arena)

lemma grown_extend_heap: "arena_ok st \<Longrightarrow> grown st (snd (extend_heap n st))"
proof -
  assume ok: "arena_ok st"
  obtain bp t where s: "mem_sbrk (ucast (if n mod 2 \<noteq> 0 then (n + 1) * WSIZE else n * WSIZE)) st = (bp, t)" by fastforce
  have "extent (snd (extend_heap n st)) = extent t"
    using s by (simp add: extend_heap_def Let_def split: if_splits)
  then show ?thesis using grown_mem_sbrk [OF ok] s grown_cong [of st t st] by (metis snd_conv)
qed

lemma grown_init: "arena_ok st \<Longrightarrow> grown st (snd (mm_init st))"
proof -
  assume ok: "arena_ok st"
  obtain p t where s: "mem_sbrk 16 st = (p, t)" by fastforce
  let ?t = "t\<lparr>heap_listp := p\<rparr>"
  let ?u = "(PUT (p + 3 * WSIZE) (PACK 0 1) (PUT (p + 2 * WSIZE) (PACK DSIZE 1) (PUT (p + 1 * WSIZE) (PACK DSIZE 1) (PUT p 0 ?t))))
    \<lparr>heap_listp := p + 2 * WSIZE, free_listp := replicate LIST_NUM NULL\<rparr>"
  have t: "grown st t" using grown_mem_sbrk [OF ok, of 16] s by simp
  have a: "extent ?t = extent t" by (simp add: extent_def)
  have u: "extent ?u = extent t" by (simp add: extent_def PUT_def)
  have gu: "grown st ?u" using grown_cong [OF t refl u] .
  then have "grown st (snd (extend_heap (CHUNKSIZE div WSIZE) ?u))"
    using grown_trans grown_extend_heap grown_ok ok by blast
  moreover have "snd (mm_init st) = (if p = - 1 then ?t else snd (extend_heap (CHUNKSIZE div WSIZE) ?u))"
    using s by (simp add: mm_init_def Let_def case_prod_beta)
  ultimately show ?thesis using grown_cong [OF t refl a] by metis
qed

lemma grown_extend_if:
  "arena_ok st \<Longrightarrow> extend_if c st = Inl st' \<Longrightarrow> grown st st'" "arena_ok st \<Longrightarrow> extend_if c st = Inr st' \<Longrightarrow> grown st st'"
  using grown_extend_heap [of st "CHUNKSIZE div WSIZE"] grown_refl
  by (auto simp: extend_if_def split: if_splits prod.splits)

lemma grown_4095: "arena_ok st \<Longrightarrow> grown st (snd (malloc_4095 st))"
proof -
  assume ok: "arena_ok st"
  obtain f t where ft: "(if GET_SIZE (mem st) (heap_listp st + 4 + 4095 + 1) = 0 \<and> GET_ALLOC (mem st) (heap_listp st + 4 + 4095 + 1)
      then let (r, st) = extend_heap (CHUNKSIZE div WSIZE + 1) st in (r = NULL, st) else (False, st)) = (f, t)"
    by fastforce
  then have "grown st t" using grown_extend_heap [OF ok, of "CHUNKSIZE div WSIZE + 1"] grown_refl [OF ok]
    by (auto split: if_splits prod.splits)
  moreover have "extent (snd (malloc_4095 st)) = extent t"
    using ft by (simp add: malloc_4095_def Let_def)
  ultimately show ?thesis using grown_cong by blast
qed

lemma grown_big: "arena_ok st \<Longrightarrow> malloc_big a st = Some (p, st') \<Longrightarrow> grown st st'"
proof -
  assume ok: "arena_ok st" and m: "malloc_big a st = Some (p, st')"
  have e: "grown st (snd (extend_heap w st))" for w by (rule grown_extend_heap [OF ok])
  have "extent st = extent st' \<or> (\<exists>w. extent (snd (extend_heap w st)) = extent st')"
    using m by (auto simp: malloc_big_def Let_def case_prod_beta split: if_splits dest!: arg_cong [of _ _ "\<lambda>x. extent (snd x)"])
  then show ?thesis using e grown_arena [OF ok] grown_cong by metis
qed

lemma grown_extend: "arena_ok st \<Longrightarrow> grown st (snd (malloc_extend n a st))"
proof -
  assume ok: "arena_ok st"
  let ?w = "(if a > CHUNKSIZE then a else CHUNKSIZE) div WSIZE"
  have "extent (snd (malloc_extend n a st)) = extent (snd (extend_heap ?w st))"
    by (simp add: malloc_extend_def Let_def case_prod_beta)
  then show ?thesis using grown_cong grown_extend_heap [OF ok, of ?w] by blast
qed

lemma grown_malloc: "arena_ok st \<Longrightarrow> mm_malloc n st = Some (p, st') \<Longrightarrow> grown st st'"
proof -
  assume ok: "arena_ok st" and m: "mm_malloc n st = Some (p, st')"
  have b: "grown st t" if "malloc_binary n a st = Some (Some (q, t))" for a q t
    using that grown_big [OF ok] grown_arena [OF ok]
    by (auto simp: malloc_binary_def malloc_small_def Let_def split: if_splits option.splits)
  show ?thesis
  proof (cases "n = 4095 \<or> n = 8190 \<or> n = 0")
    case True
    then consider "malloc_4095 st = (p, st')" | "malloc_8190 st = (p, st')" | "st' = st"
      using m by (auto simp: mm_malloc_def)
    then show ?thesis
      using grown_4095 [OF ok] grown_arena [OF ok] extent_more(4) [of st] grown_refl [OF ok] by cases (metis snd_conv)+
  next
    case False
    then have m': "(case malloc_binary n (adjust n) st of None \<Rightarrow> None | Some (Some r) \<Rightarrow> Some r
        | Some None \<Rightarrow> (case find_fit st (adjust n) of None \<Rightarrow> None
          | Some bp \<Rightarrow> Some (if bp \<noteq> NULL then (bp, place bp (adjust n) st) else malloc_extend n (adjust n) st))) = Some (p, st')"
      using m by (simp add: mm_malloc_def Let_def)
    show ?thesis
    proof (cases "malloc_binary n (adjust n) st")
      case (Some x)
      show ?thesis
      proof (cases x)
        case None
        then obtain bp where "(if bp \<noteq> NULL then (bp, place bp (adjust n) st) else malloc_extend n (adjust n) st) = (p, st')"
          using m' Some by (simp split: option.splits)
        then show ?thesis using grown_arena [OF ok] grown_extend [OF ok, of n "adjust n"] by (simp split: if_splits) (metis extent_blocks(4))
      next
        case (Some y)
        then show ?thesis using m' \<open>malloc_binary n (adjust n) st = Some x\<close> b by simp
      qed
    qed (use m' in simp)
  qed
qed

lemma grown_move: "arena_ok st \<Longrightarrow> realloc_move q n c st = Some (p, st') \<Longrightarrow> grown st st'"
proof -
  assume ok: "arena_ok st" and m: "realloc_move q n c st = Some (p, st')"
  obtain r t where t: "mm_malloc n st = Some (r, t)" using m by (auto simp: realloc_move_def split: option.splits)
  have "extent st' = extent t" using m t by (auto simp: realloc_move_def Let_def split: if_splits)
  then show ?thesis using grown_malloc [OF ok t] grown_cong by blast
qed

lemma extend_if_chain:
  assumes "(case extend_if c st of Inl t \<Rightarrow> Inl t
    | Inr t \<Rightarrow> (case extend_if (c2 t) t of Inl u \<Rightarrow> Inl u | Inr u \<Rightarrow> extend_if (c3 u) u)) = r"
  shows "(\<exists>c t. extend_if c st = Inl t \<and> r = Inl t) \<or>
     (\<exists>c t c'. extend_if c st = Inr t \<and>
        ((\<exists>u. extend_if c' t = Inl u \<and> r = Inl u) \<or> (\<exists>u c''. extend_if c' t = Inr u \<and> extend_if c'' u = r)))"
proof (cases "extend_if c st")
  case (Inl t)
  then show ?thesis using assms by (simp, blast)
next
  case (Inr t)
  then show ?thesis using assms by (cases "extend_if (c2 t) t") (simp, blast)+
qed

lemma extend_before_cases:
  "extend_before q st = r \<Longrightarrow> (\<exists>c t. extend_if c st = Inl t \<and> r = Inl t) \<or>
     (\<exists>c t c'. extend_if c st = Inr t \<and>
        ((\<exists>u. extend_if c' t = Inl u \<and> r = Inl u) \<or> (\<exists>u c''. extend_if c' t = Inr u \<and> extend_if c'' u = r)))"
  unfolding extend_before_def Let_def by (rule extend_if_chain)

lemma grown_before:
  assumes ok: "arena_ok st" and e: "extend_before q st = Inl st' \<or> extend_before q st = Inr st'"
  shows "grown st st'"
proof -
  have i: "grown t u" if "arena_ok t" "extend_if c t = Inl u \<or> extend_if c t = Inr u" for t u c
    using grown_extend_if [OF that(1)] that(2) by blast
  from extend_before_cases [where q = q and st = st, OF refl] consider
      c t where "extend_if c st = Inl t" "extend_before q st = Inl t"
    | c t c' u where "extend_if c st = Inr t" "extend_if c' t = Inl u" "extend_before q st = Inl u"
    | c t c' u c'' where "extend_if c st = Inr t" "extend_if c' t = Inr u" "extend_if c'' u = extend_before q st"
    by blast
  then show ?thesis
  proof cases
    case 1
    then show ?thesis using i [OF ok] e by auto
  next
    case 2
    then have "grown st t" "grown t u" "u = st'" using i [OF ok, of c t] i [of t c' u] grown_ok [OF _ ok] e by auto
    then show ?thesis using grown_trans by blast
  next
    case 3
    then have t: "grown st t" using i [OF ok] by blast
    then have u: "grown t u" using i 3(2) grown_ok ok by blast
    then have "grown u st'" using i [of u c'' st'] 3(3) e grown_ok [OF t ok] grown_ok by metis
    then show ?thesis using t u grown_trans by blast
  qed
qed

lemma grown_grow:
  assumes ok: "arena_ok st" and m: "realloc_grow q n c a st = Some (p, st')"
  shows "grown st st'"
proof (cases "extend_before q st")
  case (Inl t)
  then have "st' = t" using m by (simp add: realloc_grow_def)
  then show ?thesis using grown_before [OF ok] Inl by blast
next
  case (Inr t)
  have t: "grown st t" "arena_ok t" using grown_before [OF ok] Inr grown_ok ok by blast+
  have mv: "grown st u" if "grown st v" "realloc_move q n c v = Some (p', u)" for p' u v
    using grown_move [OF grown_ok [OF that(1) ok] that(2)] grown_trans [OF that(1)] by blast
  have mg: "grown st (merge_next q k a u)" if "grown st u" for k u
    using grown_cong [OF that refl] by simp
  have ei: "grown st u" if "extend_if True t = Inl u \<or> extend_if True t = Inr u" for u
    using grown_extend_if [OF t(2)] that grown_trans [OF t(1)] by blast
  show ?thesis using m Inr mv mg ei t(1)
    by (auto simp: realloc_grow_def Let_def split: if_splits sum.splits)
qed

lemma grown_realloc: "arena_ok st \<Longrightarrow> mm_realloc q n st = Some (p, st') \<Longrightarrow> grown st st'"
  using grown_malloc [of st] grown_grow [of st] grown_arena [of st] grown_refl [of st]
  by (auto simp: mm_realloc_def Let_def split: if_splits)

text \<open>C35. No operation of the allocator moves the start of the heap, gives memory back or takes the break beyond
  \<open>MAX_HEAP\<close>, whatever the heap contains and whatever pointer and size it is called with: \<open>mem_sbrk\<close> refuses
  and the break stays.\<close>

theorem mm_keeps_break:
  assumes "arena_ok st"
  shows "grown st (snd (mm_init st)) \<and> grown st (mm_free p st) \<and>
    pred_option (\<lambda>(q, st'). grown st st') (mm_malloc n st) \<and>
    pred_option (\<lambda>(q, st'). grown st st') (mm_realloc p n st)"
  using grown_init [OF assms] grown_arena [OF assms extent_free] grown_malloc [OF assms] grown_realloc [OF assms]
  by (cases "mm_malloc n st"; cases "mm_realloc p n st") auto

lemma mm_keeps_break_witness:
  "grown \<lparr>mem = (\<lambda>_. 0), mem_start_brk = 4096, mem_brk = 4096, mem_max_addr = 4096 + MAX_HEAP, heap_listp = 0, free_listp = []\<rparr>
     (snd (mm_init \<lparr>mem = (\<lambda>_. 0), mem_start_brk = 4096, mem_brk = 4096, mem_max_addr = 4096 + MAX_HEAP, heap_listp = 0, free_listp = []\<rparr>))"
  using mm_keeps_break [of "\<lparr>mem = (\<lambda>_. 0), mem_start_brk = 4096, mem_brk = 4096, mem_max_addr = 4096 + MAX_HEAP,
    heap_listp = 0, free_listp = []\<rparr>"]
  by (simp add: arena_ok_def MAX_HEAP_def)

end
