(* ===== verification/MDriver.thy ===== *)
theory MDriver
  imports CStrings Mm
begin

text \<open>
  The driver of the malloc lab, \<open>lab7/mdriver.c\<close>: the range list, the trace reader and the functions that
  run a trace against a package.

  The driver calls the package through the fields of a \<open>package\<close>; \<open>mm_package\<close> is \<open>mm.c\<close> on \<open>memlib.c\<close>.
  A run is \<open>None\<close> when the driver does not come to its end: the package does not return, an assertion
  fails, \<open>app_error\<close> ends the process, an array is accessed outside its bounds, or a sum of ints overflows.  Messages are not
  modelled, but their number is: \<open>errors\<close>.
\<close>

definition ALIGNMENT :: addr where "ALIGNMENT = 8"

record 's package =
  reset_brk :: "'s \<Rightarrow> 's"
  pk_init :: "'s \<Rightarrow> int \<times> 's"
  pk_malloc :: "long \<Rightarrow> 's \<Rightarrow> (addr \<times> 's) option"
  pk_realloc :: "addr \<Rightarrow> long \<Rightarrow> 's \<Rightarrow> (addr \<times> 's) option"
  pk_free :: "addr \<Rightarrow> 's \<Rightarrow> 's"
  heap_lo :: "'s \<Rightarrow> addr"
  heap_hi :: "'s \<Rightarrow> addr"
  heapsize :: "'s \<Rightarrow> long"
  memory :: "'s \<Rightarrow> addr \<Rightarrow> byte"
  fill :: "addr \<Rightarrow> byte \<Rightarrow> long \<Rightarrow> 's \<Rightarrow> 's"

definition memset :: "addr \<Rightarrow> byte \<Rightarrow> long \<Rightarrow> (addr \<Rightarrow> byte) \<Rightarrow> addr \<Rightarrow> byte" where
  "memset p b n m = (\<lambda>a. if a - p < n then b else m a)"

definition mm_package :: "mm_t package" where
  "mm_package =
     \<lparr>reset_brk = mem_reset_brk, pk_init = mm_init, pk_malloc = mm_malloc, pk_realloc = mm_realloc,
      pk_free = mm_free, heap_lo = mem_heap_lo, heap_hi = mem_heap_hi, heapsize = mem_heapsize, memory = mem,
      fill = (\<lambda>p b n st. st\<lparr>mem := memset p b n (mem st)\<rparr>)\<rparr>"

section \<open>Traces\<close>

datatype optype = ALLOC | FREE | REALLOC

record traceop =
  optype :: optype
  index :: int
  opsize :: int

record trace_t =
  sugg_heapsize :: int
  num_ids :: int
  num_ops :: int
  weight :: int
  ops :: "traceop list"

text \<open>\<open>fscanf\<close> with one \<open>%s\<close>: the word and the rest of the file.\<close>

definition fscan_word :: "string \<Rightarrow> (string \<times> string) option" where
  "fscan_word s =
     (let s = dropWhile isspace s
      in if s = [] then None else Some (takeWhile (\<lambda>c. \<not> isspace c) s, dropWhile (\<lambda>c. \<not> isspace c) s))"

text \<open>
  The numbers are read into \<open>unsigned\<close> variables and stored as ints.
\<close>

definition stored :: "int \<Rightarrow> int" where
  "stored n = sint (word_of_int n :: 32 word)"

text \<open>
  The loop over the request lines, with room for so many operations and the last values of \<open>index\<close> and
  \<open>size\<close>, which a missing number leaves as they are: \<open>None\<close> when there are more lines than room or when a
  line has an unknown type.  The format of a \<open>f\<close> line is \<open>%ud\<close>, which takes a \<open>d\<close> behind the number.
\<close>

definition scan_index_size :: "int \<Rightarrow> int \<Rightarrow> string \<Rightarrow> int \<times> int \<times> string" where
  "scan_index_size i n s =
     (case fscan_unsigned s of
        None \<Rightarrow> (i, n, dropWhile isspace s)
      | Some (i, s) \<Rightarrow>
          (case fscan_unsigned s of None \<Rightarrow> (i, n, dropWhile isspace s) | Some (n, s) \<Rightarrow> (i, n, s)))"

definition scan_index :: "int \<Rightarrow> string \<Rightarrow> int \<times> string" where
  "scan_index i s =
     (case fscan_unsigned s of
        None \<Rightarrow> (i, dropWhile isspace s)
      | Some (i, s) \<Rightarrow> (i, if take 1 s = ''d'' then tl s else s))"

fun read_ops :: "nat \<Rightarrow> int \<Rightarrow> int \<Rightarrow> string \<Rightarrow> traceop list option" where
  "read_ops room i n s =
     (case fscan_word s of
        None \<Rightarrow> Some []
      | Some (type, s) \<Rightarrow>
          (case room of
             0 \<Rightarrow> None
           | Suc room \<Rightarrow>
               if hd type = CHR ''a'' \<or> hd type = CHR ''r'' then
                 let (i, n, s) = scan_index_size i n s
                 in map_option
                      (Cons \<lparr>optype = (if hd type = CHR ''a'' then ALLOC else REALLOC), index = stored i, opsize = stored n\<rparr>)
                      (read_ops room i n s)
               else if hd type = CHR ''f'' then
                 let (i, s) = scan_index i s
                 in map_option (Cons \<lparr>optype = FREE, index = stored i, opsize = 0\<rparr>) (read_ops room i n s)
               else None))"

declare read_ops.simps [simp del]

text \<open>\<open>max_index\<close> is \<open>unsigned\<close>, as \<open>index\<close> is when it is compared.\<close>

definition max_index :: "traceop list \<Rightarrow> int" where
  "max_index os =
     foldl (\<lambda>m t. if optype t \<noteq> FREE \<and> index t mod 2 ^ 32 > m then index t mod 2 ^ 32 else m) 0 os"

text \<open>
  An allocation of a negative number of elements fails; the two assertions at the end are part of the result.
\<close>

definition read_trace :: "string \<Rightarrow> trace_t option" where
  "read_trace file =
     do { (sugg, s) \<leftarrow> fscan_int file;
          (ids, s) \<leftarrow> fscan_int s;
          (n, s) \<leftarrow> fscan_int s;
          (w, s) \<leftarrow> fscan_int s;
          os \<leftarrow> (if n < 0 \<or> ids < 0 then None else read_ops (nat n) 0 0 s);
          if max_index os = (ids - 1) mod 2 ^ 32 \<and> int (length os) = n
          then Some \<lparr>sugg_heapsize = sugg, num_ids = ids, num_ops = n, weight = w, ops = os\<rparr>
          else None }"

section \<open>The range list\<close>

type_synonym range_t = "addr \<times> addr"

record 's driver =
  sys :: 's
  ranges :: "range_t list"
  blocks :: "addr list"
  block_sizes :: "int list"
  errors :: nat

definition IS_ALIGNED :: "addr \<Rightarrow> bool" where
  "IS_ALIGNED p \<longleftrightarrow> p mod ALIGNMENT = 0"

definition malloc_error :: "'s driver \<Rightarrow> 's driver" where
  "malloc_error d = d\<lparr>errors := errors d + 1\<rparr>"

text \<open>The outcome and the driver; \<open>None\<close> is the failed assertion.\<close>

definition add_range :: "'s package \<Rightarrow> addr \<Rightarrow> int \<Rightarrow> 's driver \<Rightarrow> (bool \<times> 's driver) option" where
  "add_range pk lo n d =
     (let hi = lo + word_of_int n - 1
      in if n \<le> 0 then None
         else if \<not> IS_ALIGNED lo then Some (False, malloc_error d)
         else if lo < heap_lo pk (sys d) \<or> lo > heap_hi pk (sys d) \<or>
                 hi < heap_lo pk (sys d) \<or> hi > heap_hi pk (sys d) then Some (False, malloc_error d)
         else if list_ex (\<lambda>(l, h). lo \<ge> l \<and> lo \<le> h \<or> hi \<ge> l \<and> hi \<le> h) (ranges d)
              then Some (False, malloc_error d)
         else Some (True, d\<lparr>ranges := (lo, hi) # ranges d\<rparr>))"

fun remove_range :: "addr \<Rightarrow> range_t list \<Rightarrow> range_t list" where
  "remove_range lo [] = []"
| "remove_range lo (r # rs) = (if fst r = lo then rs else r # remove_range lo rs)"

definition clear_ranges :: "'s driver \<Rightarrow> 's driver" where
  "clear_ranges d = d\<lparr>ranges := []\<rparr>"

section \<open>Checking a package\<close>

definition size_arg :: "int \<Rightarrow> long" where
  "size_arg n = word_of_int n"

text \<open>Remember region.\<close>

definition remember :: "int \<Rightarrow> addr \<Rightarrow> int \<Rightarrow> 's driver \<Rightarrow> 's driver option" where
  "remember i p n d =
     do { bs \<leftarrow> wr (blocks d) i p;
          ns \<leftarrow> wr (block_sizes d) i n;
          Some (d\<lparr>blocks := bs, block_sizes := ns\<rparr>) }"

text \<open>
  The test of the old payload reads it as \<open>char\<close>, which is signed, and compares with the low byte of
  the index, which is not.
\<close>

definition preserved :: "'s package \<Rightarrow> addr \<Rightarrow> int \<Rightarrow> nat \<Rightarrow> 's \<Rightarrow> bool" where
  "preserved pk p i n s \<longleftrightarrow> list_all (\<lambda>j. sint (memory pk s (p + of_nat j)) = i mod 256) [0..<n]"

definition valid_alloc :: "'s package \<Rightarrow> int \<Rightarrow> int \<Rightarrow> 's driver \<Rightarrow> (bool \<times> 's driver) option" where
  "valid_alloc pk i n d =
     do { (p, s) \<leftarrow> pk_malloc pk (size_arg n) (sys d);
          let d = d\<lparr>sys := s\<rparr>;
          if p = NULL then Some (False, malloc_error d)
          else
            do { (ok, d) \<leftarrow> add_range pk p n d;
                 if \<not> ok then Some (False, d)
                 else
                   do { d \<leftarrow> remember i p n (d\<lparr>sys := fill pk p (word_of_int i) (size_arg n) (sys d)\<rparr>);
                        Some (True, d) } } }"

definition valid_realloc :: "'s package \<Rightarrow> int \<Rightarrow> int \<Rightarrow> 's driver \<Rightarrow> (bool \<times> 's driver) option" where
  "valid_realloc pk i n d =
     do { oldp \<leftarrow> rd (blocks d) i;
          (newp, s) \<leftarrow> pk_realloc pk oldp (size_arg n) (sys d);
          let d = d\<lparr>sys := s\<rparr>;
          if newp = NULL then Some (False, malloc_error d)
          else
            do { (ok, d) \<leftarrow> add_range pk newp n (d\<lparr>ranges := remove_range oldp (ranges d)\<rparr>);
                 if \<not> ok then Some (False, d)
                 else
                   do { oldsize \<leftarrow> rd (block_sizes d) i;
                        if \<not> preserved pk newp i (nat (if n < oldsize then n else oldsize)) (sys d)
                        then Some (False, malloc_error d)
                        else
                          do { d \<leftarrow> remember i newp n
                                 (d\<lparr>sys := fill pk newp (word_of_int i) (size_arg n) (sys d)\<rparr>);
                               Some (True, d) } } } }"

definition valid_free :: "'s package \<Rightarrow> int \<Rightarrow> 's driver \<Rightarrow> (bool \<times> 's driver) option" where
  "valid_free pk i d =
     do { p \<leftarrow> rd (blocks d) i;
          Some (True, d\<lparr>ranges := remove_range p (ranges d), sys := pk_free pk p (sys d)\<rparr>) }"

definition valid_op :: "'s package \<Rightarrow> traceop \<Rightarrow> 's driver \<Rightarrow> (bool \<times> 's driver) option" where
  "valid_op pk t d =
     (case optype t of
        ALLOC \<Rightarrow> valid_alloc pk (index t) (opsize t) d
      | REALLOC \<Rightarrow> valid_realloc pk (index t) (opsize t) d
      | FREE \<Rightarrow> valid_free pk (index t) d)"

fun valid_ops :: "'s package \<Rightarrow> traceop list \<Rightarrow> 's driver \<Rightarrow> (bool \<times> 's driver) option" where
  "valid_ops pk [] d = Some (True, d)"
| "valid_ops pk (t # ts) d =
     do { (ok, d) \<leftarrow> valid_op pk t d;
          if ok then valid_ops pk ts d else Some (False, d) }"

definition eval_mm_valid :: "'s package \<Rightarrow> trace_t \<Rightarrow> 's driver \<Rightarrow> (bool \<times> 's driver) option" where
  "eval_mm_valid pk trace d =
     (let d = clear_ranges (d\<lparr>sys := reset_brk pk (sys d)\<rparr>);
          (r, s) = pk_init pk (sys d);
          d = d\<lparr>sys := s\<rparr>
      in if r < 0 then Some (False, malloc_error d) else valid_ops pk (ops trace) d)"

section \<open>Utilization\<close>

definition util_op :: "'s package \<Rightarrow> traceop \<Rightarrow> int \<times> int \<times> 's driver \<Rightarrow> (int \<times> int \<times> 's driver) option" where
  "util_op pk t = (\<lambda>(total_size, max_total_size, d).
     case optype t of
       ALLOC \<Rightarrow>
         do { (p, s) \<leftarrow> pk_malloc pk (size_arg (opsize t)) (sys d);
              if p = NULL then None
              else
                do { d \<leftarrow> remember (index t) p (opsize t) (d\<lparr>sys := s\<rparr>);
                     total_size \<leftarrow> int_add total_size (opsize t);
                     Some (total_size, if total_size > max_total_size then total_size else max_total_size, d) } }
     | REALLOC \<Rightarrow>
         do { oldsize \<leftarrow> rd (block_sizes d) (index t);
              oldp \<leftarrow> rd (blocks d) (index t);
              (newp, s) \<leftarrow> pk_realloc pk oldp (size_arg (opsize t)) (sys d);
              if newp = NULL then None
              else
                do { d \<leftarrow> remember (index t) newp (opsize t) (d\<lparr>sys := s\<rparr>);
                     diff \<leftarrow> int_add (opsize t) (- oldsize);
                     total_size \<leftarrow> int_add total_size diff;
                     Some (total_size, if total_size > max_total_size then total_size else max_total_size, d) } }
     | FREE \<Rightarrow>
         do { n \<leftarrow> rd (block_sizes d) (index t);
              p \<leftarrow> rd (blocks d) (index t);
              total_size \<leftarrow> int_add total_size (- n);
              Some (total_size, max_total_size, d\<lparr>sys := pk_free pk p (sys d)\<rparr>) })"

fun util_ops :: "'s package \<Rightarrow> traceop list \<Rightarrow> int \<times> int \<times> 's driver \<Rightarrow> (int \<times> int \<times> 's driver) option" where
  "util_ops pk [] u = Some u"
| "util_ops pk (t # ts) u = do { u \<leftarrow> util_op pk t u; util_ops pk ts u }"

text \<open>The quotient that is returned, as its numerator and denominator.\<close>

definition eval_mm_util :: "'s package \<Rightarrow> trace_t \<Rightarrow> 's driver \<Rightarrow> ((int \<times> long) \<times> 's driver) option" where
  "eval_mm_util pk trace d =
     (let (r, s) = pk_init pk (reset_brk pk (sys d))
      in if r < 0 then None
         else
           do { (_, max_total_size, d) \<leftarrow> util_ops pk (ops trace) (0, 0, d\<lparr>sys := s\<rparr>);
                Some ((max_total_size, heapsize pk (sys d)), d) })"

section \<open>Speed\<close>

text \<open>
  The loop that is timed: the requests alone.  For \<open>libc\<close> it is the same loop over another package, and
  checking \<open>libc\<close> is running it to its end.
\<close>

definition speed_op :: "'s package \<Rightarrow> traceop \<Rightarrow> 's driver \<Rightarrow> 's driver option" where
  "speed_op pk t d =
     (case optype t of
        ALLOC \<Rightarrow>
          do { (p, s) \<leftarrow> pk_malloc pk (size_arg (opsize t)) (sys d);
               if p = NULL then None
               else do { bs \<leftarrow> wr (blocks d) (index t) p; Some (d\<lparr>sys := s, blocks := bs\<rparr>) } }
      | REALLOC \<Rightarrow>
          do { oldp \<leftarrow> rd (blocks d) (index t);
               (newp, s) \<leftarrow> pk_realloc pk oldp (size_arg (opsize t)) (sys d);
               if newp = NULL then None
               else do { bs \<leftarrow> wr (blocks d) (index t) newp; Some (d\<lparr>sys := s, blocks := bs\<rparr>) } }
      | FREE \<Rightarrow>
          do { block \<leftarrow> rd (blocks d) (index t); Some (d\<lparr>sys := pk_free pk block (sys d)\<rparr>) })"

fun speed_ops :: "'s package \<Rightarrow> traceop list \<Rightarrow> 's driver \<Rightarrow> 's driver option" where
  "speed_ops pk [] d = Some d"
| "speed_ops pk (t # ts) d = do { d \<leftarrow> speed_op pk t d; speed_ops pk ts d }"

definition eval_mm_speed :: "'s package \<Rightarrow> trace_t \<Rightarrow> 's driver \<Rightarrow> 's driver option" where
  "eval_mm_speed pk trace d =
     (let (r, s) = pk_init pk (reset_brk pk (sys d))
      in if r < 0 then None else speed_ops pk (ops trace) (d\<lparr>sys := s\<rparr>))"

definition eval_libc_speed :: "'s package \<Rightarrow> trace_t \<Rightarrow> 's driver \<Rightarrow> 's driver option" where
  "eval_libc_speed pk trace d = speed_ops pk (ops trace) d"

definition eval_libc_valid :: "'s package \<Rightarrow> trace_t \<Rightarrow> 's driver \<Rightarrow> (bool \<times> 's driver) option" where
  "eval_libc_valid pk trace d = do { d \<leftarrow> speed_ops pk (ops trace) d; Some (True, d) }"

end
