(* ===== verification/MDriverTheorems.thy ===== *)
theory MDriverTheorems
  imports MmTheorems MmBreak MDriver
begin

text \<open>
  Theorems about the driver of the malloc lab, \<open>lab7/mdriver.c\<close>.  \<open>malloc_package\<close> is what the driver needs
  of a package for its range list to mean something; \<open>mm.c\<close> is an interpretation of it.  Then: what a
  positive verdict says, which overlaps and which correct blocks the driver does not tell apart, that the
  trace reader reads back the traces, and what the utilization is.
\<close>

section \<open>What the driver needs of a package\<close>

definition grows :: "'s package \<Rightarrow> 's \<Rightarrow> 's \<Rightarrow> bool" where
  "grows pk s s' \<longleftrightarrow> heap_lo pk s' = heap_lo pk s \<and> heap_hi pk s \<le> heap_hi pk s'"

locale malloc_package =
  fixes pk :: "'s package" and ok :: "'s \<Rightarrow> bool"
  assumes reset: "ok s \<Longrightarrow> ok (reset_brk pk s)"
    and init: "ok s \<Longrightarrow> ok (snd (pk_init pk s)) \<and> grows pk s (snd (pk_init pk s))"
    and malloc: "ok s \<Longrightarrow> pk_malloc pk n s = Some (p, s') \<Longrightarrow> ok s' \<and> grows pk s s'"
    and realloc: "ok s \<Longrightarrow> pk_realloc pk q n s = Some (p, s') \<Longrightarrow> ok s' \<and> grows pk s s'"
    and free: "ok s \<Longrightarrow> ok (pk_free pk p s) \<and> grows pk s (pk_free pk p s)"
    and fills: "ok s \<Longrightarrow> ok (fill pk p b n s) \<and> grows pk s (fill pk p b n s)"
    and room: "ok s \<Longrightarrow> unat (heap_hi pk s) + 2 ^ 31 \<le> 2 ^ 64"

text \<open>A payload is aligned and lies in the heap.\<close>

definition good_range :: "'s package \<Rightarrow> 's \<Rightarrow> range_t \<Rightarrow> bool" where
  "good_range pk s = (\<lambda>(l, h). IS_ALIGNED l \<and> heap_lo pk s \<le> l \<and> l \<le> h \<and> h \<le> heap_hi pk s)"

definition inside :: "addr \<Rightarrow> range_t \<Rightarrow> bool" where
  "inside a = (\<lambda>(l, h). l \<le> a \<and> a \<le> h)"

text \<open>No range starts or ends inside one behind it in the list, that is, inside an older one.\<close>

fun no_ends_inside :: "range_t list \<Rightarrow> bool" where
  "no_ends_inside [] = True"
| "no_ends_inside (r # rs) = ((\<forall>q \<in> set rs. \<not> inside (fst r) q \<and> \<not> inside (snd r) q) \<and> no_ends_inside rs)"

lemma no_ends_inside_remove: "no_ends_inside rs \<Longrightarrow> no_ends_inside (remove_range lo rs)"
proof (induction rs)
  case (Cons r rs)
  have "set (remove_range lo rs) \<subseteq> set rs" by (induction rs) auto
  then show ?case using Cons by auto
qed simp

lemma set_remove_range: "set (remove_range lo rs) \<subseteq> set rs"
  by (induction rs) auto

lemma starts_distinct:
  "no_ends_inside rs \<Longrightarrow> (\<And>r. r \<in> set rs \<Longrightarrow> fst r \<le> snd r) \<Longrightarrow> distinct (map fst rs)"
  by (induction rs) (force simp: inside_def)+

lemma remove_range_map:
  "distinct (map (\<lambda>i. fst (f i)) ids) \<Longrightarrow> i \<in> set ids \<Longrightarrow>
     remove_range (fst (f i)) (map f ids) = map f (remove1 i ids)"
  by (induction ids) (auto simp: image_iff)

lemma good_range_grows: "good_range pk s r \<Longrightarrow> grows pk s s' \<Longrightarrow> good_range pk s' r"
  by (auto simp: good_range_def grows_def)

lemma add_range_True:
  assumes "add_range pk lo n d = Some (True, d')" and "n < 2 ^ 31" and "unat (heap_hi pk (sys d)) + 2 ^ 31 \<le> 2 ^ 64"
  shows "d' = d\<lparr>ranges := (lo, lo + word_of_int n - 1) # ranges d\<rparr> \<and> 0 < n \<and>
    good_range pk (sys d) (lo, lo + word_of_int n - 1) \<and>
    (\<forall>q \<in> set (ranges d). \<not> inside lo q \<and> \<not> inside (lo + word_of_int n - 1) q)"
proof -
  let ?hi = "lo + word_of_int n - 1"
  have a: "0 < n" "IS_ALIGNED lo" "heap_lo pk (sys d) \<le> lo" "lo \<le> heap_hi pk (sys d)" "heap_lo pk (sys d) \<le> ?hi"
      "?hi \<le> heap_hi pk (sys d)" "d' = d\<lparr>ranges := (lo, ?hi) # ranges d\<rparr>"
      "\<forall>q \<in> set (ranges d). \<not> inside lo q \<and> \<not> inside ?hi q"
    using assms(1) by (auto simp: add_range_def Let_def list_ex_iff inside_def not_less split: if_splits)
  have "?hi = lo + of_nat (nat n - 1)" using a(1) by (simp add: of_nat_diff)
  moreover have "unat lo + (nat n - 1) < 2 ^ 64"
    using a(1,4) assms(2,3) by (simp add: word_le_nat_alt)
  ultimately have "unat ?hi = unat lo + (nat n - 1)" using unat_offset by metis
  then have "lo \<le> ?hi" by (simp add: word_le_nat_alt)
  then show ?thesis using a by (simp add: good_range_def)
qed

section \<open>Well-formed traces\<close>

fun live_after :: "int set \<Rightarrow> traceop \<Rightarrow> int set" where
  "live_after live t = (if optype t = FREE then live - {index t} else insert (index t) live)"

fun trace_ok :: "int set \<Rightarrow> traceop list \<Rightarrow> bool" where
  "trace_ok live [] = True"
| "trace_ok live (t # ts) =
     ((index t \<in> live \<longleftrightarrow> optype t \<noteq> ALLOC) \<and> opsize t < 2 ^ 31 \<and> trace_ok (live_after live t) ts)"

definition live_ids :: "traceop list \<Rightarrow> int set" where
  "live_ids ts = foldl live_after {} ts"

definition payload :: "'s driver \<Rightarrow> int \<Rightarrow> range_t" where
  "payload d i = (blocks d ! nat i, blocks d ! nat i + word_of_int (block_sizes d ! nat i) - 1)"

text \<open>
  The payloads of the identifiers \<open>ids\<close>, the newest first, are aligned, in the heap, and none starts or
  ends inside an older one.
\<close>

definition payloads_ok :: "'s package \<Rightarrow> 's driver \<Rightarrow> int list \<Rightarrow> bool" where
  "payloads_ok pk d ids \<longleftrightarrow> distinct ids \<and> list_all (good_range pk (sys d)) (map (payload d) ids) \<and>
     no_ends_inside (map (payload d) ids)"

definition owns :: "'s package \<Rightarrow> ('s \<Rightarrow> bool) \<Rightarrow> int list \<Rightarrow> 's driver \<Rightarrow> bool" where
  "owns pk ok ids d \<longleftrightarrow> ok (sys d) \<and> length (block_sizes d) = length (blocks d) \<and>
     set ids \<subseteq> {0..<int (length (blocks d))} \<and> ranges d = map (payload d) ids \<and> payloads_ok pk d ids"

lemma payload_fields [simp]:
  "payload (d\<lparr>sys := s\<rparr>) = payload d" "payload (d\<lparr>ranges := rs\<rparr>) = payload d"
  by (simp_all add: payload_def fun_eq_iff)

lemma owns_sys: "owns pk ok ids d \<Longrightarrow> ok s \<Longrightarrow> grows pk (sys d) s \<Longrightarrow> owns pk ok ids (d\<lparr>sys := s\<rparr>)"
  using good_range_grows [of pk "sys d" _ s] by (auto simp: owns_def payloads_ok_def list_all_iff)

lemma owns_remove:
  assumes o: "owns pk ok ids d" and i: "i \<in> set ids"
  shows "owns pk ok (remove1 i ids) (d\<lparr>ranges := remove_range (blocks d ! nat i) (ranges d)\<rparr>)"
proof -
  have p: "distinct ids" "list_all (good_range pk (sys d)) (map (payload d) ids)" "no_ends_inside (map (payload d) ids)"
    "ranges d = map (payload d) ids"
    using o by (simp_all add: owns_def payloads_ok_def)
  have "distinct (map fst (map (payload d) ids))"
    using p(2) by (intro starts_distinct [OF p(3)]) (auto simp: list_all_iff good_range_def)
  then have r: "remove_range (fst (payload d i)) (map (payload d) ids) = map (payload d) (remove1 i ids)"
    by (intro remove_range_map [OF _ i]) (simp add: comp_def)
  have "no_ends_inside (map (payload d) (remove1 i ids))" using no_ends_inside_remove [OF p(3)] r by metis
  moreover have "fst (payload d i) = blocks d ! nat i" by (simp add: payload_def)
  ultimately show ?thesis
    using o r p(1,2,4) set_remove1_subset [of i ids]
    by (auto simp: owns_def payloads_ok_def list_all_iff)
qed

lemma remember_payload:
  assumes "remember i p n d = Some d'"
  shows "payload d' i = (p, p + word_of_int n - 1)" "0 \<le> j \<Longrightarrow> j \<noteq> i \<Longrightarrow> payload d' j = payload d j"
    "sys d' = sys d" "ranges d' = ranges d" "length (blocks d') = length (blocks d)"
    "length (block_sizes d') = length (block_sizes d)" "0 \<le> i" "i < int (length (blocks d))"
  using assms by (auto simp: remember_def wr_def payload_def nth_list_update split: bind_splits if_splits)

lemma owns_add:
  assumes o: "owns pk ok ids d" and i: "i \<notin> set ids"
    and n: "n < 2 ^ 31" "unat (heap_hi pk (sys d)) + 2 ^ 31 \<le> 2 ^ 64"
    and add: "add_range pk p n d = Some (True, d1)"
    and g: "ok s" "grows pk (sys d) s"
    and r: "remember i p n (d1\<lparr>sys := s\<rparr>) = Some d'"
  shows "owns pk ok (i # ids) d'"
proof -
  note a = add_range_True [OF add n]
  note m = remember_payload [OF r]
  have pl: "payload d' j = payload d j" if "j \<in> set ids" for j
  proof -
    have "0 \<le> j" "j \<noteq> i" using that i o by (auto simp: owns_def)
    then show ?thesis using m(2) [of j] a by simp
  qed
  have mp: "map (payload d') (i # ids) = (p, p + word_of_int n - 1) # ranges d"
    using m(1) pl o by (simp add: owns_def)
  have "payloads_ok pk d' (i # ids)"
    unfolding payloads_ok_def mp using o i a g(2) m(3) good_range_grows [of pk "sys d" _ s]
    by (auto simp: owns_def payloads_ok_def list_all_iff)
  moreover have "ranges d' = map (payload d') (i # ids)" unfolding mp using m(4) a by simp
  ultimately show ?thesis using m(3,5,6,7,8) a o g(1) by (auto simp: owns_def)
qed

context malloc_package begin

lemma valid_alloc_owns:
  assumes o: "owns pk ok ids d" and v: "valid_alloc pk i n d = Some (True, d')"
    and i: "i \<notin> set ids" and n: "n < 2 ^ 31"
  shows "owns pk ok (i # ids) d'"
proof -
  obtain p s where m: "pk_malloc pk (size_arg n) (sys d) = Some (p, s)" "p \<noteq> NULL"
    using v by (auto simp: valid_alloc_def Let_def split: bind_splits if_splits)
  then obtain d1 where a: "add_range pk p n (d\<lparr>sys := s\<rparr>) = Some (True, d1)"
      and r: "remember i p n (d1\<lparr>sys := fill pk p (word_of_int i) (size_arg n) (sys d1)\<rparr>) = Some d'"
    using v by (auto simp: valid_alloc_def Let_def split: bind_splits if_splits)
  have s: "ok s" "grows pk (sys d) s" using malloc [OF _ m(1)] o by (auto simp: owns_def)
  have o1: "owns pk ok ids (d\<lparr>sys := s\<rparr>)" by (rule owns_sys [OF o s])
  have "sys d1 = s" using add_range_True [OF a n] room [OF s(1)] by simp
  then show ?thesis using owns_add [OF o1 i n _ a _ _ r] room [OF s(1)] fills [OF s(1)] by simp
qed

lemma valid_realloc_owns:
  assumes o: "owns pk ok ids d" and v: "valid_realloc pk i n d = Some (True, d')"
    and i: "i \<in> set ids" and n: "n < 2 ^ 31"
  shows "owns pk ok (i # remove1 i ids) d'"
proof -
  obtain q p s where m: "rd (blocks d) i = Some q" "pk_realloc pk q (size_arg n) (sys d) = Some (p, s)" "p \<noteq> NULL"
    using v by (auto simp: valid_realloc_def Let_def split: bind_splits if_splits)
  let ?d = "d\<lparr>sys := s, ranges := remove_range q (ranges d)\<rparr>"
  obtain d1 where a: "add_range pk p n ?d = Some (True, d1)"
      and r: "remember i p n (d1\<lparr>sys := fill pk p (word_of_int i) (size_arg n) (sys d1)\<rparr>) = Some d'"
    using v m by (auto simp: valid_realloc_def Let_def split: bind_splits if_splits)
  have s: "ok s" "grows pk (sys d) s" using realloc [OF _ m(2)] o by (auto simp: owns_def)
  have q: "q = blocks d ! nat i" using m(1) by (auto simp: rd_def split: if_splits)
  have o1: "owns pk ok (remove1 i ids) ?d" using owns_remove [OF owns_sys [OF o s] i] q by simp
  have "i \<notin> set (remove1 i ids)" using o by (auto simp: owns_def payloads_ok_def)
  moreover have "sys d1 = s" using add_range_True [OF a n] room [OF s(1)] by simp
  ultimately show ?thesis using owns_add [OF o1 _ n _ a _ _ r] room [OF s(1)] fills [OF s(1)] by simp
qed

lemma valid_free_owns:
  assumes o: "owns pk ok ids d" and v: "valid_free pk i d = Some (True, d')" and i: "i \<in> set ids"
  shows "owns pk ok (remove1 i ids) d'"
proof -
  obtain q where q: "rd (blocks d) i = Some q" and
      d': "d' = d\<lparr>ranges := remove_range q (ranges d), sys := pk_free pk q (sys d)\<rparr>"
    using v by (auto simp: valid_free_def split: bind_splits)
  have "q = blocks d ! nat i" using q by (auto simp: rd_def split: if_splits)
  then have r: "owns pk ok (remove1 i ids) (d\<lparr>ranges := remove_range q (ranges d)\<rparr>)" using owns_remove [OF o i] by simp
  have "ok (sys d)" using o by (simp add: owns_def)
  then have "ok (pk_free pk q (sys d))" "grows pk (sys d) (pk_free pk q (sys d))" using free by blast+
  then show ?thesis using owns_sys [OF r] unfolding d' by simp
qed

lemma valid_ops_owns:
  "owns pk ok ids d \<Longrightarrow> valid_ops pk ts d = Some (True, d') \<Longrightarrow> trace_ok (set ids) ts \<Longrightarrow>
     \<exists>ids'. set ids' = foldl live_after (set ids) ts \<and> owns pk ok ids' d'"
proof (induction ts arbitrary: ids d)
  case (Cons t ts)
  obtain d1 where v: "valid_op pk t d = Some (True, d1)" "valid_ops pk ts d1 = Some (True, d')"
    using Cons.prems(2) by (auto split: bind_splits if_splits)
  have t: "index t \<in> set ids \<longleftrightarrow> optype t \<noteq> ALLOC" "opsize t < 2 ^ 31" "trace_ok (live_after (set ids) t) ts"
    using Cons.prems(3) by auto
  have di: "distinct ids" using Cons.prems(1) by (simp add: owns_def payloads_ok_def)
  obtain ids1 where i: "set ids1 = live_after (set ids) t" "owns pk ok ids1 d1"
  proof (cases "optype t")
    case ALLOC
    then show ?thesis using that [of "index t # ids"] valid_alloc_owns [OF Cons.prems(1)] v(1) t by (simp add: valid_op_def)
  next
    case FREE
    then show ?thesis using that [of "remove1 (index t) ids"] valid_free_owns [OF Cons.prems(1)] v(1) t di
      by (simp add: valid_op_def)
  next
    case REALLOC
    then show ?thesis using that [of "index t # remove1 (index t) ids"] valid_realloc_owns [OF Cons.prems(1)] v(1) t di
      by (simp add: valid_op_def insert_absorb)
  qed
  have "trace_ok (set ids1) ts" using t(3) i(1) by (simp del: live_after.simps)
  from Cons.IH [OF i(2) v(2) this] show ?case using i(1) by (simp del: live_after.simps)
qed auto

lemma eval_mm_valid_owns:
  assumes "ok (sys d)" and "length (block_sizes d) = length (blocks d)"
    and "eval_mm_valid pk trace d = Some (True, d')" and "trace_ok {} (ops trace)"
  shows "\<exists>ids. set ids = live_ids (ops trace) \<and> owns pk ok ids d'"
proof -
  let ?s = "snd (pk_init pk (reset_brk pk (sys d)))"
  let ?d = "(clear_ranges (d\<lparr>sys := reset_brk pk (sys d)\<rparr>))\<lparr>sys := ?s\<rparr>"
  have "owns pk ok [] ?d"
    using assms(2) init [OF reset [OF assms(1)]]
    by (simp add: owns_def payloads_ok_def clear_ranges_def)
  moreover have "valid_ops pk (ops trace) ?d = Some (True, d')"
    using assms(3) by (simp add: eval_mm_valid_def Let_def case_prod_beta clear_ranges_def split: if_splits)
  ultimately show ?thesis using valid_ops_owns [of "[]" ?d "ops trace" d'] assms(4) by (auto simp: live_ids_def)
qed

end

section \<open>The allocator as a package\<close>

definition mm_ok :: "mm_t \<Rightarrow> bool" where
  "mm_ok st \<longleftrightarrow> arena_ok st \<and> mem_start_brk st \<noteq> NULL"

lemma addr_minus_one: "a \<noteq> 0 \<Longrightarrow> a \<le> b \<Longrightarrow> b \<noteq> 0 \<and> a - 1 \<le> b - (1 :: addr) \<and> b - 1 \<le> b"
proof -
  assume a: "a \<noteq> 0" "a \<le> b"
  then have "0 < unat a" "unat a \<le> unat b" by (simp_all add: word_le_nat_alt unat_gt_0)
  then have b: "b \<noteq> 0" by auto
  then show ?thesis using a by (simp add: word_le_nat_alt unat_minus_one)
qed

lemma mm_grows: "mm_ok st \<Longrightarrow> grown st st' \<Longrightarrow> mm_ok st' \<and> grows mm_package st st'"
proof -
  assume ok: "mm_ok st" and g: "grown st st'"
  have b: "mem_brk st \<noteq> 0" using ok addr_minus_one by (auto simp: mm_ok_def arena_ok_def NULL_def)
  have "mem_brk st \<le> mem_brk st'" using g by (simp add: grown_def)
  then have "mem_brk st - 1 \<le> mem_brk st' - 1" using b addr_minus_one by blast
  then show ?thesis
    using ok g grown_ok [OF g]
    by (simp add: mm_ok_def grows_def mm_package_def mem_heap_lo_def mem_heap_hi_def grown_def)
qed

interpretation mm: malloc_package mm_package mm_ok
proof unfold_locales
  fix s s' :: mm_t and n :: long and p q :: addr and b :: byte
  assume ok: "mm_ok s"
  then have a: "arena_ok s" by (simp add: mm_ok_def)
  show "mm_ok (reset_brk mm_package s)"
    using ok by (auto simp: mm_package_def mm_ok_def arena_ok_def mem_reset_brk_def)
  show "mm_ok (snd (pk_init mm_package s)) \<and> grows mm_package s (snd (pk_init mm_package s))"
    using mm_grows [OF ok grown_init [OF a]] by (simp add: mm_package_def)
  show "pk_malloc mm_package n s = Some (p, s') \<Longrightarrow> mm_ok s' \<and> grows mm_package s s'"
    using mm_grows [OF ok grown_malloc [OF a]] by (simp add: mm_package_def)
  show "pk_realloc mm_package q n s = Some (p, s') \<Longrightarrow> mm_ok s' \<and> grows mm_package s s'"
    using mm_grows [OF ok grown_realloc [OF a]] by (simp add: mm_package_def)
  show "mm_ok (pk_free mm_package p s) \<and> grows mm_package s (pk_free mm_package p s)"
    using mm_grows [OF ok grown_arena [OF a extent_free]] by (simp add: mm_package_def)
  show "mm_ok (fill mm_package p b n s) \<and> grows mm_package s (fill mm_package p b n s)"
    using mm_grows [OF ok grown_arena [OF a extent_mem]] by (simp add: mm_package_def)
  have "mem_brk s - 1 \<le> mem_brk s" using ok a addr_minus_one by (auto simp: arena_ok_def mm_ok_def NULL_def)
  then have "unat (mem_brk s - 1) \<le> unat (mem_max_addr s)" using a by (auto simp: arena_ok_def word_le_nat_alt)
  then show "unat (heap_hi mm_package s) + 2 ^ 31 \<le> 2 ^ 64"
    using a by (simp add: mm_package_def mem_heap_hi_def arena_ok_def)
qed

section \<open>The verdict\<close>

text \<open>C15. When the driver finds \<open>mm.c\<close> valid on a well-formed trace, then the payloads of the blocks that are
  allocated at the end are aligned and lie in the heap, its range list is the list of these payloads, and
  none of them starts or ends inside an older one.\<close>

theorem eval_mm_valid_sound:
  assumes "mm_ok (sys d)" and "length (block_sizes d) = length (blocks d)"
    and "eval_mm_valid mm_package trace d = Some (True, d')" and "trace_ok {} (ops trace)"
  shows "\<exists>ids. set ids = live_ids (ops trace) \<and> ranges d' = map (payload d') ids \<and> payloads_ok mm_package d' ids"
  using mm.eval_mm_valid_owns [OF assms] by (auto simp: owns_def)

definition one_block :: trace_t where
  "one_block = \<lparr>sugg_heapsize = 0, num_ids = 1, num_ops = 1, weight = 0, ops = [\<lparr>optype = ALLOC, index = 0, opsize = 16\<rparr>]\<rparr>"

definition fresh :: "mm_t driver" where
  "fresh = \<lparr>sys = arena, ranges = [], blocks = [NULL], block_sizes = [0], errors = 0\<rparr>"

lemma fresh_valid: "\<exists>d. eval_mm_valid mm_package one_block fresh = Some (True, d)"
proof -
  have z: "mem_reset_brk arena = arena" by (simp add: mem_reset_brk_def arena_def)
  have i: "mm_init arena = (0, demo_heap)"
    unfolding demo_heap_def using mm_init_correct(1) [of 4096 arena]
    by (simp add: arena_def NULL_def prod_eq_iff)
  have m: "mm_malloc 16 demo_heap = Some (4112, place 4112 (adjust 16) demo_heap)"
    using initial_malloc [OF demo_initial] by (simp add: NULL_def)
  have "extent demo_heap = (4096, 8208, 4096 + MAX_HEAP)"
  proof -
    have "mem_brk demo_heap = 8208" using demo_initial by (simp add: initial_heap_def)
    moreover have "grown arena demo_heap"
      using grown_init [of arena] unfolding demo_heap_def by (simp add: arena_def arena_ok_def MAX_HEAP_def)
    ultimately show ?thesis by (simp add: extent_def grown_def arena_def)
  qed
  then have "extent (place 4112 (adjust 16) demo_heap) = (4096, 8208, 4096 + MAX_HEAP)" by simp
  then show ?thesis
    by (simp add: eval_mm_valid_def fresh_def one_block_def mm_package_def clear_ranges_def z i m valid_op_def
      valid_alloc_def size_arg_def NULL_def add_range_def IS_ALIGNED_def ALIGNMENT_def extent_def
      mem_heap_lo_def mem_heap_hi_def remember_def wr_def)
qed

lemma eval_mm_valid_sound_witness:
  "\<exists>d' ids. eval_mm_valid mm_package one_block fresh = Some (True, d') \<and> set ids = {0} \<and> payloads_ok mm_package d' ids"
proof -
  obtain d where d: "eval_mm_valid mm_package one_block fresh = Some (True, d)" using fresh_valid by blast
  have "mm_ok (sys fresh)" by (simp add: fresh_def mm_ok_def arena_ok_def arena_def MAX_HEAP_def NULL_def)
  moreover have "length (block_sizes fresh) = length (blocks fresh)" by (simp add: fresh_def)
  moreover have "trace_ok {} (ops one_block)" by (simp add: one_block_def)
  ultimately obtain ids where "set ids = live_ids (ops one_block)" "payloads_ok mm_package d ids"
    using eval_mm_valid_sound [OF _ _ d] by blast
  then show ?thesis using d by (auto simp: live_ids_def one_block_def)
qed

section \<open>Trace files\<close>

definition op_text :: "traceop \<Rightarrow> string" where
  "op_text t = (case optype t of
       ALLOC \<Rightarrow> ''a '' @ show_int (index t) @ '' '' @ show_int (opsize t)
     | REALLOC \<Rightarrow> ''r '' @ show_int (index t) @ '' '' @ show_int (opsize t)
     | FREE \<Rightarrow> ''f '' @ show_int (index t)) @ [NEWLINE]"

definition trace_text :: "trace_t \<Rightarrow> string" where
  "trace_text t = show_int (sugg_heapsize t) @ [NEWLINE] @ show_int (num_ids t) @ [NEWLINE] @
     show_int (num_ops t) @ [NEWLINE] @ show_int (weight t) @ [NEWLINE] @ concat (map op_text (ops t))"

definition op_ok :: "traceop \<Rightarrow> bool" where
  "op_ok t \<longleftrightarrow> index t \<in> {0..<2 ^ 31} \<and> opsize t \<in> {0..<2 ^ 31} \<and> (optype t = FREE \<longrightarrow> opsize t = 0)"

lemma stored_id: "0 \<le> n \<Longrightarrow> n < 2 ^ 31 \<Longrightarrow> stored n = n"
  by (simp add: stored_def sint_word_of_int_32)

lemma not_isspace [simp]: "\<not> isspace CHR ''a''" "\<not> isspace CHR ''r''" "\<not> isspace CHR ''f''"
  by (simp_all add: isspace_def TAB_def NEWLINE_def RETURN_def)

lemma read_ops_text:
  "list_all op_ok os \<Longrightarrow> isspace c \<Longrightarrow> read_ops (length os) i n (c # concat (map op_text os)) = Some os"
proof (induction os arbitrary: i n c)
  case Nil
  then show ?case by (subst read_ops.simps) (simp add: fscan_word_def)
next
  case (Cons t os)
  have t: "0 \<le> index t" "index t < 2 ^ 31" "0 \<le> opsize t" "opsize t < 2 ^ 31" "optype t = FREE \<Longrightarrow> opsize t = 0"
    using Cons.prems by (simp_all add: op_ok_def)
  then have u: "index t < 2 ^ 32" "opsize t < 2 ^ 32" by simp_all
  let ?r = "concat (map op_text os)"
  have IH: "read_ops (length os) j k (NEWLINE # ?r) = Some os" for j k using Cons.IH Cons.prems by simp
  have nd: "NEWLINE \<noteq> CHR ''d''" by (simp add: NEWLINE_def)
  show ?case
  proof (cases "optype t")
    case ALLOC
    have "scan_index_size i n (CHR '' '' # show_int (index t) @ CHR '' '' # show_int (opsize t) @ NEWLINE # ?r) =
        (index t, opsize t, NEWLINE # ?r)"
      using t u by (simp add: scan_index_size_def fscan_unsigned_show)
    then show ?thesis using Cons.prems(2) ALLOC IH t
      by (subst read_ops.simps) (simp add: fscan_word_def op_text_def stored_id)
  next
    case REALLOC
    have "scan_index_size i n (CHR '' '' # show_int (index t) @ CHR '' '' # show_int (opsize t) @ NEWLINE # ?r) =
        (index t, opsize t, NEWLINE # ?r)"
      using t u by (simp add: scan_index_size_def fscan_unsigned_show)
    then show ?thesis using Cons.prems(2) REALLOC IH t
      by (subst read_ops.simps) (simp add: fscan_word_def op_text_def stored_id)
  next
    case FREE
    have "scan_index i (CHR '' '' # show_int (index t) @ NEWLINE # ?r) = (index t, NEWLINE # ?r)"
      using t u nd by (simp add: scan_index_def fscan_unsigned_show)
    then show ?thesis using Cons.prems(2) FREE IH t
      by (subst read_ops.simps) (simp add: fscan_word_def op_text_def stored_id)
  qed
qed

text \<open>
  C23. The trace reader reads back every trace from the file that lists its header and its requests, when the
  numbers of the trace are ints that are not negative, its header gives the number of its requests, and its
  identifiers are those up to the largest index that is allocated.
\<close>

theorem read_trace_text:
  assumes "list_all op_ok (ops t)" and "num_ops t = int (length (ops t))"
    and "max_index (ops t) = (num_ids t - 1) mod 2 ^ 32"
    and "sugg_heapsize t \<in> {0..<2 ^ 31}" and "num_ids t \<in> {0..<2 ^ 31}" and "weight t \<in> {0..<2 ^ 31}"
    and "num_ops t < 2 ^ 31"
  shows "read_trace (trace_text t) = Some t"
proof -
  have "read_ops (nat (num_ops t)) 0 0 (NEWLINE # concat (map op_text (ops t))) = Some (ops t)"
    using read_ops_text [OF assms(1), of NEWLINE 0 0] assms(2) by simp
  then show ?thesis
    using assms fscan_show [of "sugg_heapsize t" NEWLINE] fscan_show [of "num_ids t" NEWLINE]
      fscan_show [of "weight t" NEWLINE] fscan_show [of "num_ops t" NEWLINE]
    by (simp add: read_trace_def trace_text_def)
qed

definition sample :: trace_t where
  "sample = \<lparr>sugg_heapsize = 20000, num_ids = 2, num_ops = 4, weight = 1, ops =
     [\<lparr>optype = ALLOC, index = 0, opsize = 2040\<rparr>, \<lparr>optype = ALLOC, index = 1, opsize = 48\<rparr>,
      \<lparr>optype = REALLOC, index = 0, opsize = 4072\<rparr>, \<lparr>optype = FREE, index = 1, opsize = 0\<rparr>]\<rparr>"

lemma read_trace_text_witness:
  "read_trace (trace_text sample) = Some sample"
  by (rule read_trace_text) (simp_all add: sample_def op_ok_def max_index_def)

section \<open>What the driver does not see\<close>

text \<open>The test for overlaps looks at the two ends of the new payload: one that encloses an older one passes.\<close>

lemma add_range_misses_enclosing:
  assumes "0 < n" and "IS_ALIGNED lo" and "heap_lo pk (sys d) \<le> lo" and "lo < l" and "l \<le> h"
    and "h < lo + word_of_int n - 1" and "lo + word_of_int n - 1 \<le> heap_hi pk (sys d)" and "ranges d = [(l, h)]"
  shows "map_option fst (add_range pk lo n d) = Some True"
  using assms by (auto simp: add_range_def Let_def not_less)

text \<open>
  A byte read as \<open>char\<close> is less than 128: no block is found preserved when the low byte of its index is not.
\<close>

lemma preserved_signed: "128 \<le> i mod 256 \<Longrightarrow> 0 < n \<Longrightarrow> \<not> preserved pk p i n s"
proof -
  assume i: "128 \<le> i mod 256" and n: "0 < n"
  have "sint (memory pk s (p + of_nat 0)) < 128" using sint_lt [of "memory pk s p"] by simp
  then have "sint (memory pk s (p + of_nat 0)) \<noteq> i mod 256" using i by linarith
  moreover have "0 \<in> set [0..<n]" using n by simp
  ultimately show ?thesis unfolding preserved_def list_all_iff by blast
qed

section \<open>Utilization\<close>

fun sizes_after :: "(int \<Rightarrow> int) \<Rightarrow> traceop \<Rightarrow> int \<Rightarrow> int" where
  "sizes_after f t = (if optype t = FREE then f else f(index t := opsize t))"

text \<open>The sum of the payloads after each operation.\<close>

fun totals :: "int set \<Rightarrow> (int \<Rightarrow> int) \<Rightarrow> traceop list \<Rightarrow> int list" where
  "totals live f [] = []"
| "totals live f (t # ts) =
     (\<Sum>i \<in> live_after live t. sizes_after f t i) # totals (live_after live t) (sizes_after f t) ts"

definition tracks :: "int set \<Rightarrow> (int \<Rightarrow> int) \<Rightarrow> 's driver \<Rightarrow> bool" where
  "tracks live f d \<longleftrightarrow> finite live \<and> (\<forall>i \<in> live. 0 \<le> f i \<and> rd (block_sizes d) i = Some (f i))"

lemma remember_sizes:
  "remember i p n d = Some d' \<Longrightarrow> rd (block_sizes d') j = (if j = i then Some n else rd (block_sizes d) j)"
  by (auto simp: remember_def wr_def rd_def nth_list_update split: bind_splits if_splits)

lemma util_op_total:
  assumes u: "util_op pk t ((\<Sum>i \<in> live. f i), m, d) = Some (tot, m', d')" and k: "tracks live f d"
    and t: "index t \<in> live \<longleftrightarrow> optype t \<noteq> ALLOC" "0 \<le> opsize t" and m: "(\<Sum>i \<in> live. f i) \<le> m"
  shows "tot = (\<Sum>i \<in> live_after live t. sizes_after f t i) \<and> tracks (live_after live t) (sizes_after f t) d' \<and>
    m' = max m tot"
proof (cases "optype t")
  case ALLOC
  then have i: "index t \<notin> live" using t by simp
  obtain p s d1 where "pk_malloc pk (size_arg (opsize t)) (sys d) = Some (p, s)"
      "remember (index t) p (opsize t) (d\<lparr>sys := s\<rparr>) = Some d1" "tot = (\<Sum>i \<in> live. f i) + opsize t" "d' = d1"
      "m' = (if tot > m then tot else m)"
    using u ALLOC by (auto simp: util_op_def Let_def int_add_def split: bind_splits if_splits)
  moreover have "(\<Sum>j \<in> live. (f(index t := opsize t)) j) = (\<Sum>j \<in> live. f j)"
    using i by (intro sum.cong) auto
  ultimately show ?thesis using k i t(2) ALLOC remember_sizes [of "index t" p "opsize t" "d\<lparr>sys := s\<rparr>" d1]
    by (auto simp: tracks_def)
next
  case REALLOC
  then have i: "index t \<in> live" using t by simp
  then have r: "rd (block_sizes d) (index t) = Some (f (index t))" and fin: "finite live" using k by (auto simp: tracks_def)
  obtain p q s d1 where "pk_realloc pk q (size_arg (opsize t)) (sys d) = Some (p, s)"
      "remember (index t) p (opsize t) (d\<lparr>sys := s\<rparr>) = Some d1"
      "tot = (\<Sum>i \<in> live. f i) + (opsize t - f (index t))" "d' = d1"
      "m' = (if tot > m then tot else m)"
    using u REALLOC r by (auto simp: util_op_def Let_def int_add_def split: bind_splits if_splits)
  moreover have "(\<Sum>j \<in> live. (f(index t := opsize t)) j) = opsize t + (\<Sum>j \<in> live - {index t}. f j)"
    using fin i by (subst sum.remove [OF fin i]) (auto intro!: sum.cong)
  moreover have "(\<Sum>j \<in> live. f j) = f (index t) + (\<Sum>j \<in> live - {index t}. f j)" by (rule sum.remove [OF fin i])
  ultimately show ?thesis using k i t(2) REALLOC remember_sizes [of "index t" p "opsize t" "d\<lparr>sys := s\<rparr>" d1]
    by (auto simp: tracks_def insert_absorb)
next
  case FREE
  then have i: "index t \<in> live" using t by simp
  then have r: "rd (block_sizes d) (index t) = Some (f (index t))" and fin: "finite live" using k by (auto simp: tracks_def)
  obtain p where "tot = (\<Sum>i \<in> live. f i) - f (index t)" "d' = d\<lparr>sys := pk_free pk p (sys d)\<rparr>" "m' = m"
    using u FREE r by (auto simp: util_op_def int_add_def split: bind_splits if_splits)
  moreover have "(\<Sum>j \<in> live. f j) = f (index t) + (\<Sum>j \<in> live - {index t}. f j)" by (rule sum.remove [OF fin i])
  moreover have "0 \<le> f (index t)" using k i by (simp add: tracks_def)
  ultimately show ?thesis using k FREE m by (auto simp: tracks_def)
qed

lemma util_ops_total:
  "util_ops pk ts ((\<Sum>i \<in> live. f i), m, d) = Some (tot, m', d') \<Longrightarrow> tracks live f d \<Longrightarrow> trace_ok live ts \<Longrightarrow>
     list_all (\<lambda>t. 0 \<le> opsize t) ts \<Longrightarrow> (\<Sum>i \<in> live. f i) \<le> m \<Longrightarrow> m' = foldl max m (totals live f ts)"
proof (induction ts arbitrary: live f m d)
  case (Cons t ts)
  obtain tot1 m1 d1 where u: "util_op pk t ((\<Sum>i \<in> live. f i), m, d) = Some (tot1, m1, d1)"
      "util_ops pk ts (tot1, m1, d1) = Some (tot, m', d')"
    using Cons.prems(1) by (auto split: bind_splits)
  have p: "index t \<in> live \<longleftrightarrow> optype t \<noteq> ALLOC" "0 \<le> opsize t" "trace_ok (live_after live t) ts" using Cons.prems(3,4) by auto
  note a = util_op_total [OF u(1) Cons.prems(2) p(1,2) Cons.prems(5)]
  have "m' = foldl max m1 (totals (live_after live t) (sizes_after f t) ts)"
    using Cons.IH [where live = "live_after live t" and f = "sizes_after f t" and m = m1 and d = d1] u(2) a p(3) Cons.prems(4) by simp
  then show ?case using a by simp
qed simp

lemma foldl_max: "foldl max (a :: int) xs = Max (set (a # xs))"
proof (induction xs arbitrary: a)
  case (Cons x xs)
  have "Max (insert (max a x) (set xs)) = Max (insert a (insert x (set xs)))"
    by (cases "xs = []") (simp_all add: max.assoc)
  then show ?case using Cons [of "max a x"] by simp
qed simp

text \<open>
  C36. For every package and every trace that allocates an identifier before it is reallocated or freed, and not
  twice, with sizes that are not negative ints: when \<open>eval_mm_util\<close> returns, no request having failed and no sum
  of its ints having overflowed, the utilization is the largest sum of the sizes of the blocks that are allocated
  at one time, as the trace alone determines it, over the size of the heap in the end.
\<close>

theorem eval_mm_util_peak:
  assumes "eval_mm_util pk trace d = Some ((m, h), d')" and "trace_ok {} (ops trace)"
    and "list_all (\<lambda>t. 0 \<le> opsize t) (ops trace)"
  shows "m = Max (set (0 # totals {} (\<lambda>_. 0) (ops trace))) \<and> h = heapsize pk (sys d')"
proof -
  obtain s tot where u: "util_ops pk (ops trace) (0, 0, d\<lparr>sys := s\<rparr>) = Some (tot, m, d')" "h = heapsize pk (sys d')"
    using assms(1) by (auto simp: eval_mm_util_def split: prod.splits if_splits bind_splits)
  have "m = foldl max 0 (totals {} (\<lambda>_. 0) (ops trace))"
    using util_ops_total [where live = "{}" and f = "\<lambda>_. 0" and m = 0 and d = "d\<lparr>sys := s\<rparr>"] u(1) assms(2,3) by (simp add: tracks_def)
  moreover note foldl_max [of 0]
  ultimately show ?thesis using u(2) by simp
qed

lemma eval_mm_util_peak_witness:
  "\<exists>d' h. eval_mm_util mm_package one_block fresh = Some ((16, h), d') \<and>
     16 = Max (set (0 # totals {} (\<lambda>_. 0) (ops one_block)))"
proof -
  have "mem_reset_brk arena = arena" by (simp add: mem_reset_brk_def arena_def)
  moreover have "mm_init arena = (0, demo_heap)"
    unfolding demo_heap_def using mm_init_correct(1) [of 4096 arena]
    by (simp add: arena_def NULL_def prod_eq_iff)
  moreover have "mm_malloc 16 demo_heap = Some (4112, place 4112 (adjust 16) demo_heap)"
    using initial_malloc [OF demo_initial] by (simp add: NULL_def)
  ultimately obtain h d' where e: "eval_mm_util mm_package one_block fresh = Some ((16, h), d')"
    by (simp add: eval_mm_util_def one_block_def fresh_def mm_package_def util_op_def size_arg_def NULL_def remember_def wr_def int_add_def)
  from eval_mm_util_peak [OF this] have "16 = Max (set (0 # totals {} (\<lambda>_. 0) (ops one_block)))"
    by (simp add: one_block_def)
  then show ?thesis using e by blast
qed

end
