(* ===== verification/Timing.thy ===== *)
theory Timing
  imports Prelude Complex_Main "HOL-Library.Multiset"
begin

text \<open>
  The timers of the malloc driver: the cycle counters of \<open>lab7/clock.c\<close>, the interval timers of
  \<open>lab7/ftimer.c\<close> and their selection in \<open>lab7/fsecs.c\<close>.

  A \<open>double\<close> is a real number here.  The count of cycles, an integer of up to 64 bits, is rounded to a double as
  the code does it; the rounding of other arithmetic is not modelled.  The machine is a parameter, a record of what
  the code asks it: the two halves of the cycle counter (\<open>rdtsc\<close>, inline assembly in \<open>access_counter\<close>), the
  user time of \<open>times\<close> in clock ticks, the wall-clock time in seconds and microseconds, \<open>sleep\<close>, and
  what \<open>malloc\<close> gives for a number of integers.  Questions may change the state of the world, as time passes.
\<close>

record 'w machine =
  rdtsc :: "'w \<Rightarrow> (32 word \<times> 32 word) \<times> 'w"
  tms_utime :: "'w \<Rightarrow> int \<times> 'w"
  gettimeofday :: "'w \<Rightarrow> (int \<times> int) \<times> 'w"
  getitimer :: "'w \<Rightarrow> (int \<times> int) \<times> 'w"
  sleep :: "nat \<Rightarrow> 'w \<Rightarrow> 'w"
  malloc_ints :: "nat \<Rightarrow> 'w \<Rightarrow> 32 word list option"

section \<open>Cycle counter\<close>

text \<open>The static variables of \<open>clock.c\<close>.\<close>

record clock =
  cyc_hi :: "32 word"
  cyc_lo :: "32 word"
  cyc_per_tick :: real
  start_tick :: int

definition clock_init :: clock where
  "clock_init = \<lparr>cyc_hi = 0, cyc_lo = 0, cyc_per_tick = 0, start_tick = 0\<rparr>"

definition set_counter :: "32 word \<times> 32 word \<Rightarrow> clock \<Rightarrow> clock" where
  "set_counter r c = c\<lparr>cyc_hi := fst r, cyc_lo := snd r\<rparr>"

definition start_counter :: "'w machine \<Rightarrow> clock \<Rightarrow> 'w \<Rightarrow> clock \<times> 'w" where
  "start_counter M c w = (let (r, w) = rdtsc M w in (set_counter r c, w))"

text \<open>
  A natural number as a double, of 53 significant bits: rounded to the nearest one, and to the even one of two that
  are equally near.  \<open>excess_bits\<close> is how many bits are too many.
\<close>

fun excess_bits :: "nat \<Rightarrow> nat" where
  "excess_bits n = (if n < 2 ^ 53 then 0 else Suc (excess_bits (n div 2)))"

declare excess_bits.simps [simp del]

definition to_double :: "nat \<Rightarrow> real" where
  "to_double n =
     (let u = 2 ^ excess_bits n; q = n div u; r = n mod u
      in of_nat ((if u < 2 * r \<or> 2 * r = u \<and> odd q then q + 1 else q) * u))"

text \<open>
  The subtraction of two double words, with the borrow of the low one.  The high word times 2^32 is a double, so that
  the sum with the low one is rounded once.
\<close>

definition cycles_since :: "clock \<Rightarrow> 32 word \<times> 32 word \<Rightarrow> real" where
  "cycles_since c now =
     (let (ncyc_hi, ncyc_lo) = now;
          lo = ncyc_lo - cyc_lo c;
          borrow = (if lo > ncyc_lo then 1 else 0);
          hi = ncyc_hi - cyc_hi c - borrow
      in to_double (unat hi * 2 ^ 30 * 4 + unat lo))"

definition get_counter :: "'w machine \<Rightarrow> clock \<Rightarrow> 'w \<Rightarrow> real \<times> 'w" where
  "get_counter M c w = (let (now, w) = rdtsc M w in (cycles_since c now, w))"

text \<open>The versions for the Alpha, whose counter has 32 bits.\<close>

definition alpha_start_counter :: "32 word \<Rightarrow> clock \<Rightarrow> clock" where
  "alpha_start_counter counter c = set_counter (0, counter) c"

definition alpha_get_counter :: "32 word \<Rightarrow> clock \<Rightarrow> real" where
  "alpha_get_counter counter c = cycles_since c (0, counter)"

section \<open>Overhead and clock rate\<close>

primrec ovhd_loop :: "'w machine \<Rightarrow> nat \<Rightarrow> real \<Rightarrow> clock \<Rightarrow> 'w \<Rightarrow> real \<times> clock \<times> 'w" where
  "ovhd_loop M 0 r c w = (r, c, w)"
| "ovhd_loop M (Suc i) r c w =
     (let (c, w) = start_counter M c w; (r, w) = get_counter M c w in ovhd_loop M i r c w)"

definition ovhd :: "'w machine \<Rightarrow> clock \<Rightarrow> 'w \<Rightarrow> real \<times> clock \<times> 'w" where
  "ovhd M c w = ovhd_loop M 2 0 c w"

definition mhz_full :: "'w machine \<Rightarrow> nat \<Rightarrow> clock \<Rightarrow> 'w \<Rightarrow> real \<times> clock \<times> 'w" where
  "mhz_full M sleeptime c w =
     (let (c, w) = start_counter M c w;
          w = sleep M sleeptime w;
          (cycles, w) = get_counter M c w
      in (cycles / (1000000 * of_nat sleeptime), c, w))"

definition mhz :: "'w machine \<Rightarrow> clock \<Rightarrow> 'w \<Rightarrow> real \<times> clock \<times> 'w" where
  "mhz M = mhz_full M 2"

section \<open>Timer interrupts\<close>

definition NEVENT :: nat where "NEVENT = 100"
definition THRESHOLD :: real where "THRESHOLD = 1000"
definition RECORDTHRESH :: real where "RECORDTHRESH = 3000"

text \<open>The event of one long gap that a clock tick fell into, and the loop that waits for a hundred of them.\<close>

definition record_event :: "real \<Rightarrow> clock \<Rightarrow> clock" where
  "record_event cpt c =
     (if (cyc_per_tick c = 0 \<or> cyc_per_tick c > cpt) \<and> cpt > RECORDTHRESH then c\<lparr>cyc_per_tick := cpt\<rparr> else c)"

partial_function (option) callibrate_loop ::
  "'w machine \<Rightarrow> nat \<Rightarrow> real \<Rightarrow> int \<Rightarrow> clock \<Rightarrow> 'w \<Rightarrow> (clock \<times> 'w) option"
where
  "callibrate_loop M e oldt oldc c w =
     (if e < NEVENT then
        let (newt, w) = get_counter M c w
        in if newt - oldt \<ge> THRESHOLD then
             let (newc, w) = tms_utime M w
             in if newc > oldc then
                  callibrate_loop M (e + 1) newt newc (record_event ((newt - oldt) / of_int (newc - oldc)) c) w
                else callibrate_loop M e newt oldc c w
           else callibrate_loop M e oldt oldc c w
      else Some (c, w))"

definition callibrate :: "'w machine \<Rightarrow> clock \<Rightarrow> 'w \<Rightarrow> (clock \<times> 'w) option" where
  "callibrate M c w =
     (let (oldc, w) = tms_utime M w;
          (c, w) = start_counter M c w;
          (oldt, w) = get_counter M c w
      in callibrate_loop M 0 oldt oldc c w)"

definition start_comp_counter :: "'w machine \<Rightarrow> clock \<Rightarrow> 'w \<Rightarrow> (clock \<times> 'w) option" where
  "start_comp_counter M c w =
     do {
       (c, w) \<leftarrow> (if cyc_per_tick c = 0 then callibrate M c w else Some (c, w));
       let (t, w) = tms_utime M w;
       Some (start_counter M (c\<lparr>start_tick := t\<rparr>) w)
     }"

definition get_comp_counter :: "'w machine \<Rightarrow> clock \<Rightarrow> 'w \<Rightarrow> real \<times> 'w" where
  "get_comp_counter M c w =
     (let (time, w) = get_counter M c w;
          (t, w) = tms_utime M w;
          ticks = t - start_tick c
      in (time - of_int ticks * cyc_per_tick c, w))"

section \<open>Interval timers\<close>

text \<open>\<open>f(argp)\<close>, \<open>n\<close> times.\<close>

primrec calls :: "('w \<Rightarrow> 'w) \<Rightarrow> nat \<Rightarrow> 'w \<Rightarrow> 'w" where
  "calls f 0 w = w"
| "calls f (Suc n) w = calls f n (f w)"

definition MAX_ETIME :: int where "MAX_ETIME = 86400"

text \<open>
  \<open>init_etime\<close> sets three timers to \<open>MAX_ETIME\<close> seconds, of which only the real one is read again:
  \<open>getitimer\<close> answers what is left of it.
\<close>

definition get_etime :: "int \<times> int \<Rightarrow> real" where
  "get_etime r_curr =
     (let (sec, usec) = r_curr; (first_sec, first_usec) = (MAX_ETIME, 0)
      in of_int (first_sec - sec) + of_int (first_usec - usec) * (1 / 1000000))"

definition ftimer_itimer :: "'w machine \<Rightarrow> ('w \<Rightarrow> 'w) \<Rightarrow> ('w \<Rightarrow> 'w) \<Rightarrow> nat \<Rightarrow> 'w \<Rightarrow> real \<times> 'w" where
  "ftimer_itimer M init_etime f n w =
     (let w = init_etime w;
          (r, w) = getitimer M w;
          start = get_etime r;
          w = calls f n w;
          (r, w) = getitimer M w;
          tmeas = get_etime r - start
      in (tmeas / of_nat n, w))"

definition tod_diff :: "int \<times> int \<Rightarrow> int \<times> int \<Rightarrow> real" where
  "tod_diff stv etv =
     (let (stv_sec, stv_usec) = stv; (etv_sec, etv_usec) = etv
      in 1000 * of_int (etv_sec - stv_sec) + 1 / 1000 * of_int (etv_usec - stv_usec))"

definition ftimer_gettod :: "'w machine \<Rightarrow> ('w \<Rightarrow> 'w) \<Rightarrow> nat \<Rightarrow> 'w \<Rightarrow> real \<times> 'w" where
  "ftimer_gettod M f n w =
     (let (stv, w) = gettimeofday M w;
          w = calls f n w;
          (etv, w) = gettimeofday M w;
          diff = tod_diff stv etv;
          diff = diff / of_nat n
      in (1 / 1000 * diff, w))"

section \<open>What the counters measure\<close>

text \<open>The two halves of a 64-bit counter, and the interface of a stopwatch: it shows the time between two readings.\<close>

definition halves :: "64 word \<Rightarrow> 32 word \<times> 32 word" where
  "halves t = (ucast (drop_bit 32 t), ucast t)"

lemma unat_halves:
  "unat (fst (halves t)) = unat t div 2 ^ 32" "unat (snd (halves t)) = unat t mod 2 ^ 32"
proof -
  have "unat t < 2 ^ 64" by (rule order_less_le_trans [OF unsigned_less]) simp
  then have "unat t div 2 ^ 32 < 2 ^ 32" by (simp add: less_mult_imp_div_less)
  then show "unat (fst (halves t)) = unat t div 2 ^ 32"
    by (simp add: halves_def unsigned_ucast_eq take_bit_eq_mod unsigned_drop_bit_eq drop_bit_eq_div unat_div_distrib)
  show "unat (snd (halves t)) = unat t mod 2 ^ 32"
    by (simp add: halves_def unsigned_ucast_eq take_bit_eq_mod)
qed

lemma int_unat_minus: "int (unat (a - b :: 'a :: len word)) = (int (unat a) - int (unat b)) mod 2 ^ LENGTH('a)"
  by (simp add: uint_word_ariths flip: uint_nat)

lemma double_word: "0 \<le> y \<Longrightarrow> y < b \<Longrightarrow> (x mod b) * b + y = (x * b + y) mod (b * b)" for x y b :: int
  by (subst zmod_zmult2_eq) (simp_all add: mult.commute)

lemma borrow: "b < b - a \<longleftrightarrow> b < a" for a b :: "32 word"
  by uint_arith

lemma excess_bits_bound: "0 < excess_bits n \<Longrightarrow> 2 ^ 52 * 2 ^ excess_bits n \<le> n"
proof (induction n rule: excess_bits.induct)
  case (1 n)
  have n: "2 ^ 53 \<le> n" by (rule ccontr) (use 1(2) excess_bits.simps [of n] in simp)
  then have e: "excess_bits n = Suc (excess_bits (n div 2))" by (simp add: excess_bits.simps [of n])
  show ?case
  proof (cases "excess_bits (n div 2) = 0")
    case True
    then show ?thesis using n e by simp
  next
    case False
    then have "2 ^ 52 * 2 ^ excess_bits (n div 2) \<le> n div 2" using 1(1) n by simp
    then have "2 * (2 ^ 52 * 2 ^ excess_bits (n div 2)) \<le> 2 * (n div 2)" by (rule mult_le_mono2)
    also have "\<dots> \<le> n" by simp
    finally show ?thesis unfolding e by (simp only: power_Suc mult.left_commute)
  qed
qed

lemma to_double_exact: "n < 2 ^ 53 \<Longrightarrow> to_double n = of_nat n"
  by (subst to_double_def, subst excess_bits.simps) simp

lemma to_double_near: "\<bar>to_double n - of_nat n\<bar> * 2 ^ 53 \<le> of_nat n"
proof (cases "n < 2 ^ 53")
  case True
  then show ?thesis by (simp add: to_double_exact)
next
  case False
  let ?u = "2 ^ excess_bits n :: nat"
  let ?r = "n mod ?u" and ?q = "n div ?u"
  have "0 < excess_bits n" using False by (subst excess_bits.simps) simp
  from excess_bits_bound [OF this] have "2 ^ 52 * ?u \<le> n" .
  then have u: "2 ^ 52 * real ?u \<le> real n" by (metis of_nat_le_iff of_nat_mult of_nat_numeral of_nat_power)
  have r: "?r < ?u" by simp
  have "real n = real ?q * real ?u + real ?r" by (metis div_mult_mod_eq of_nat_add of_nat_mult)
  moreover have "to_double n = (real ?q + (if ?u < 2 * ?r \<or> 2 * ?r = ?u \<and> odd ?q then 1 else 0)) * real ?u"
    by (simp add: to_double_def Let_def algebra_simps)
  ultimately have d: "to_double n - real n = (if ?u < 2 * ?r \<or> 2 * ?r = ?u \<and> odd ?q then real ?u else 0) - real ?r"
    by (simp add: algebra_simps)
  have "\<bar>to_double n - real n\<bar> * 2 \<le> real ?u"
  proof (cases "?u < 2 * ?r \<or> 2 * ?r = ?u \<and> odd ?q")
    case True
    then have "?u \<le> 2 * ?r" by auto
    then have "real ?u \<le> 2 * real ?r" "real ?r < real ?u" using r by (metis of_nat_le_iff of_nat_mult of_nat_numeral, metis of_nat_less_iff)
    then show ?thesis unfolding d using True by simp
  next
    case False
    then have "2 * ?r \<le> ?u" by auto
    then have "2 * real ?r \<le> real ?u" by (metis of_nat_le_iff of_nat_mult of_nat_numeral)
    then show ?thesis unfolding d if_not_P [OF False] by simp
  qed
  then show ?thesis using u by simp
qed

lemma to_double_ties: "to_double (2 ^ 53 + 1) = 2 ^ 53" "to_double (2 ^ 53 + 3) = 2 ^ 53 + 4"
  by (simp_all add: to_double_def Let_def excess_bits.simps)

lemma cycles_exact:
  assumes "(cyc_hi c, cyc_lo c) = halves t0"
  shows "cycles_since c (halves t1) = to_double (unat (t1 - t0))"
proof -
  let ?h1 = "fst (halves t1)" and ?l1 = "snd (halves t1)" and ?h0 = "cyc_hi c" and ?l0 = "cyc_lo c"
  let ?lo = "?l1 - ?l0" and ?B = "2 ^ 32 :: int"
  let ?hi = "?h1 - ?h0 - (if ?lo > ?l1 then 1 else 0)"
  have w: "?h0 = fst (halves t0)" "?l0 = snd (halves t0)" by (simp_all flip: assms)
  have t: "int (unat t1) = int (unat ?h1) * ?B + int (unat ?l1)" "int (unat t0) = int (unat ?h0) * ?B + int (unat ?l0)"
    unfolding w unat_halves by (simp_all only: of_nat_div of_nat_mod of_nat_power of_nat_numeral div_mult_mod_eq)
  have b: "int (unat x) < ?B" for x :: "32 word" using unsigned_less [of x, where ?'a = int] by simp
  have lo: "int (unat ?lo) = int (unat ?l1) - int (unat ?l0) + (if unat ?l1 < unat ?l0 then ?B else 0)"
  proof (cases "unat ?l1 < unat ?l0")
    case True
    have "(int (unat ?l1) - int (unat ?l0)) mod ?B = (int (unat ?l1) - int (unat ?l0) + ?B) mod ?B" by simp
    also have "\<dots> = int (unat ?l1) - int (unat ?l0) + ?B"
      using True b [of ?l0] by (intro mod_pos_pos_trivial) linarith+
    finally show ?thesis using True int_unat_minus [of ?l1 ?l0] by simp
  next
    case False
    then have "(int (unat ?l1) - int (unat ?l0)) mod ?B = int (unat ?l1) - int (unat ?l0)"
      using b [of ?l1] by (intro mod_pos_pos_trivial) linarith+
    then show ?thesis using False int_unat_minus [of ?l1 ?l0] by simp
  qed
  have br: "?lo > ?l1 \<longleftrightarrow> unat ?l1 < unat ?l0"
    using borrow [of ?l1 ?l0] by (simp only: word_less_nat_alt)
  let ?d = "int (unat ?h1) - int (unat ?h0) - (if unat ?l1 < unat ?l0 then 1 else 0)"
  have hi: "int (unat ?hi) = ?d mod ?B" unfolding br by (simp add: uint_word_ariths mod_simps)
  have "int (unat ?hi) * ?B + int (unat ?lo) = (?d * ?B + int (unat ?lo)) mod (?B * ?B)"
    unfolding hi using b by (intro double_word) simp_all
  also have "?d * ?B + int (unat ?lo) = int (unat t1) - int (unat t0)" unfolding t lo by (simp add: algebra_simps)
  also have "(int (unat t1) - int (unat t0)) mod (?B * ?B) = int (unat (t1 - t0))" by (simp add: uint_word_ariths)
  finally have "int (unat ?hi * 2 ^ 32 + unat ?lo) = int (unat (t1 - t0))"
    by (simp only: of_nat_add of_nat_mult of_nat_power of_nat_numeral)
  then have "unat ?hi * 2 ^ 32 + unat ?lo = unat (t1 - t0)" by (simp only: of_nat_eq_iff)
  then have "to_double (unat ?hi * 2 ^ 32 + unat ?lo) = to_double (unat (t1 - t0))" by (rule arg_cong)
  moreover have "unat ?hi * 2 ^ 30 * 4 = unat ?hi * 2 ^ 32" by simp
  ultimately show ?thesis by (simp only: cycles_since_def case_prod_unfold Let_def)
qed

text \<open>
  The interface of a stopwatch: started at one reading it shows, at a later one, the time between them.  The
  unit is \<open>tick\<close>; \<open>span\<close> bounds what it can show.
\<close>

locale stopwatch =
  fixes start :: "'r \<Rightarrow> 'c" and elapsed :: "'c \<Rightarrow> 'r \<Rightarrow> real" and reading :: "nat \<Rightarrow> 'r"
    and shown :: "nat \<Rightarrow> bool" and tick :: real
  assumes exact: "t \<le> t' \<Longrightarrow> shown (t' - t) \<Longrightarrow> elapsed (start (reading t)) (reading t') = of_nat (t' - t) * tick"
    and tick: "0 < tick"
begin

text \<open>The average of \<open>n\<close> runs, the \<open>i\<close>-th of which takes \<open>d i\<close> ticks.\<close>

lemma average:
  assumes "shown (\<Sum>i<n. d i)"
  shows "elapsed (start (reading t)) (reading (t + (\<Sum>i<n. d i))) / of_nat n = (\<Sum>i<n. of_nat (d i)) / of_nat n * tick"
  using exact [of t "t + (\<Sum>i<n. d i)"] assms by simp

text \<open>Of two runs the longer one shows more.\<close>

lemma shows_less:
  assumes "shown k" and "shown l"
  shows "elapsed (start (reading t)) (reading (t + k)) < elapsed (start (reading s)) (reading (s + l)) \<longleftrightarrow> k < l"
  using exact [of t "t + k"] exact [of s "s + l"] assms tick by simp

end

interpretation tsc: stopwatch "\<lambda>r. set_counter r c" cycles_since "\<lambda>t. halves (of_nat t)" "\<lambda>d. d < 2 ^ 53" 1 for c
proof
  show "cycles_since (set_counter (halves (of_nat t)) c) (halves (of_nat t')) = of_nat (t' - t) * 1"
    if "t \<le> t'" "t' - t < 2 ^ 53" for t t'
  proof -
    have "cycles_since (set_counter (halves (of_nat t)) c) (halves (of_nat t')) =
        to_double (unat (of_nat t' - of_nat t :: 64 word))"
      by (rule cycles_exact) (simp add: set_counter_def)
    moreover have "(of_nat t' - of_nat t :: 64 word) = of_nat (t' - t)" using that by (simp add: of_nat_diff)
    ultimately show ?thesis using that by (simp add: unat_of_nat to_double_exact del: of_nat_diff)
  qed
qed simp

text \<open>The interval timer counts down from \<open>MAX_ETIME\<close>; the wall clock counts seconds and microseconds.\<close>

definition wall :: "nat \<Rightarrow> int \<times> int" where
  "wall t = (int t div 1000000, int t mod 1000000)"

definition left :: "nat \<Rightarrow> int \<times> int" where
  "left t = ((MAX_ETIME * 1000000 - int t) div 1000000, (MAX_ETIME * 1000000 - int t) mod 1000000)"

lemma real_seconds: "of_int (x div 1000000) * 1000000 + of_int (x mod 1000000) = (of_int x :: real)" for x
proof -
  have "of_int (x div 1000000 * 1000000 + x mod 1000000) = (of_int x :: real)" by (simp only: div_mult_mod_eq)
  then show ?thesis by (simp only: of_int_add of_int_mult of_int_numeral)
qed

interpretation itimer: stopwatch get_etime "\<lambda>start r. get_etime r - start" left "\<lambda>_. True" "1 / 1000000"
proof
  have "get_etime (left t) = of_nat t * (1 / 1000000)" for t
    using real_seconds [of "MAX_ETIME * 1000000 - int t"] by (simp add: get_etime_def left_def MAX_ETIME_def)
  then show "get_etime (left t') - get_etime (left t) = of_nat (t' - t) * (1 / 1000000)" if "t \<le> t'" for t t'
    using that by (simp add: field_simps of_nat_diff)
qed simp

interpretation gettod: stopwatch "\<lambda>r. r" tod_diff wall "\<lambda>_. True" "1 / 1000"
proof
  show "tod_diff (wall t) (wall t') = of_nat (t' - t) * (1 / 1000)" if "t \<le> t'" for t t'
    using real_seconds [of "int t"] real_seconds [of "int t'"] that
    by (simp add: tod_diff_def wall_def field_simps of_nat_diff)
qed simp

section \<open>Properties\<close>

text \<open>
  C37. The cycle counter: between any two values of the 64-bit counter of the machine, \<open>get_counter\<close> returns their
  difference modulo 2^64, with the borrow handled across the two halves, rounded to a double: exactly when it is
  less than 2^53, and always within a relative error of 2^-53.
\<close>

theorem get_counter_exact:
  fixes tsc :: "'w \<Rightarrow> 64 word"
  assumes "M' = M\<lparr>rdtsc := \<lambda>w. (halves (tsc w), later w)\<rparr>"
    and "get_counter M' (fst (start_counter M' c w)) w' = (cycles, w'')"
    and "d = unat (tsc w' - tsc w)"
  shows "\<bar>cycles - of_nat d\<bar> * 2 ^ 53 \<le> of_nat d \<and> (d < 2 ^ 53 \<longrightarrow> cycles = of_nat d)"
proof -
  have "cycles = to_double d"
    using assms by (auto simp: get_counter_def start_counter_def cycles_exact set_counter_def)
  then show ?thesis using to_double_near to_double_exact by simp
qed

text \<open>A counter that passes from the low half into the high one while a function runs.\<close>

definition demo_machine :: "64 word machine" where
  "demo_machine = \<lparr>rdtsc = \<lambda>w. (halves w, w), tms_utime = \<lambda>w. (0, w), gettimeofday = \<lambda>w. ((0, 0), w),
     getitimer = \<lambda>w. ((0, 0), w), sleep = \<lambda>_ w. w, malloc_ints = \<lambda>_ _. None\<rparr>"

lemma get_counter_exact_witness:
  "fst (get_counter demo_machine (fst (start_counter demo_machine clock_init 0xFFFFFFFF)) 0x100000009) = 10"
proof -
  obtain cycles w where g: "get_counter demo_machine (fst (start_counter demo_machine clock_init 0xFFFFFFFF)) 0x100000009 =
      (cycles, w)" by fastforce
  have "demo_machine = demo_machine\<lparr>rdtsc := \<lambda>w. (halves w, w)\<rparr>" by (simp add: demo_machine_def)
  from get_counter_exact [OF this g refl] show ?thesis using g by simp
qed

text \<open>The version for the Alpha is off by almost 2^64 when its counter of 32 bits has wrapped.\<close>

lemma alpha_counter:
  "alpha_get_counter b (alpha_start_counter a c) = to_double (unat (b - a) + (if b < a then 2 ^ 64 - 2 ^ 32 else 0))"
proof -
  have "unat (- 1 :: 32 word) = 4294967295" by (simp add: unsigned_minus_1_eq_mask mask_eq_exp_minus_1)
  then show ?thesis
    by (simp add: add.commute alpha_get_counter_def alpha_start_counter_def cycles_since_def set_counter_def Let_def borrow)
qed

lemma calls_add: "calls (\<lambda>v. v + d) n w = w + n * d" for d :: nat
  by (induction n arbitrary: w) simp_all

text \<open>
  The two portable timers agree: with a clock that counts microseconds, the interval timer and the time of
  day both return the average time of \<open>n\<close> runs in seconds.
\<close>

lemma ftimers_agree:
  assumes "now w \<le> now (calls f n w)"
  shows "ftimer_gettod (M\<lparr>gettimeofday := \<lambda>v. (wall (now v), v)\<rparr>) f n w =
      (of_nat (now (calls f n w) - now w) / 1000000 / of_nat n, calls f n w)"
    and "ftimer_itimer (M\<lparr>getitimer := \<lambda>v. (left (now v - now w), v)\<rparr>) (\<lambda>v. v) f n w =
      (of_nat (now (calls f n w) - now w) / 1000000 / of_nat n, calls f n w)"
proof -
  have e: "tod_diff (wall (now w)) (wall (now (calls f n w))) = of_nat (now (calls f n w) - now w) * (1 / 1000)"
    using gettod.exact [OF assms] by blast
  show "ftimer_gettod (M\<lparr>gettimeofday := \<lambda>v. (wall (now v), v)\<rparr>) f n w =
      (of_nat (now (calls f n w) - now w) / 1000000 / of_nat n, calls f n w)"
    by (simp add: ftimer_gettod_def Let_def e)
  have r: "get_etime (left (now (calls f n w) - now w)) - get_etime (left 0) = of_nat (now (calls f n w) - now w) / 1000000"
    using itimer.exact [of 0 "now (calls f n w) - now w"] by simp
  show "ftimer_itimer (M\<lparr>getitimer := \<lambda>v. (left (now v - now w), v)\<rparr>) (\<lambda>v. v) f n w =
      (of_nat (now (calls f n w) - now w) / 1000000 / of_nat n, calls f n w)"
    by (simp add: ftimer_itimer_def Let_def r)
qed

lemma ftimers_agree_witness:
  "ftimer_gettod (M\<lparr>gettimeofday := \<lambda>v. (wall v, v)\<rparr>) (\<lambda>v. v + 1500000) 10 2 = (3 / 2, 15000002)"
  using ftimers_agree(1) [of "\<lambda>v. v" 2 "\<lambda>v. v + 1500000" 10] by (simp add: calls_add)

section \<open>Calibration\<close>

text \<open>An estimate of the cycles per tick is 0 or above the threshold, and no event makes a nonzero one grow.\<close>

definition rate_ok :: "clock \<Rightarrow> bool" where
  "rate_ok c \<longleftrightarrow> cyc_per_tick c = 0 \<or> RECORDTHRESH < cyc_per_tick c"

definition refined :: "clock \<Rightarrow> clock \<Rightarrow> bool" where
  "refined c c' \<longleftrightarrow> (rate_ok c \<longrightarrow> rate_ok c') \<and>
     (0 < cyc_per_tick c \<longrightarrow> 0 < cyc_per_tick c' \<and> cyc_per_tick c' \<le> cyc_per_tick c)"

lemma refined_refl [simp]: "refined c c"
  by (simp add: refined_def)

lemma refined_trans: "refined a b \<Longrightarrow> refined b c \<Longrightarrow> refined a c"
  by (auto simp: refined_def)

lemma refined_event: "refined c (record_event r c)"
  by (auto simp: refined_def record_event_def rate_ok_def RECORDTHRESH_def)

lemma callibrate_loop_refined:
  assumes "callibrate_loop M e oldt oldc c w = Some r"
  shows "refined c (fst r)"
proof (rule callibrate_loop.raw_induct [where P = "\<lambda>M e oldt oldc c w r. refined c (fst r)", OF _ assms])
  fix loop :: "'a machine \<Rightarrow> nat \<Rightarrow> real \<Rightarrow> int \<Rightarrow> clock \<Rightarrow> 'a \<Rightarrow> (clock \<times> 'a) option"
  fix M :: "'a machine" and e oldt oldc c w r
  assume i: "\<And>M e oldt oldc c w r. loop M e oldt oldc c w = Some r \<Longrightarrow> refined c (fst r)"
  show "(if e < NEVENT then
        let (newt, w) = get_counter M c w
        in if newt - oldt \<ge> THRESHOLD then
             let (newc, w) = tms_utime M w
             in if newc > oldc then
                  loop M (e + 1) newt newc (record_event ((newt - oldt) / of_int (newc - oldc)) c) w
                else loop M e newt oldc c w
           else loop M e oldt oldc c w
      else Some (c, w)) = Some r \<Longrightarrow> refined c (fst r)"
    by (auto split: if_splits prod.splits dest!: i intro: refined_trans [OF refined_event])
qed

lemma callibrate_refined: "callibrate M c w = Some (c', w') \<Longrightarrow> refined c c'"
  using callibrate_loop_refined
  by (fastforce simp: callibrate_def start_counter_def set_counter_def refined_def rate_ok_def split: prod.splits)

end
