(* ===== verification/MDriverMain.thy ===== *)
theory MDriverMain
  imports MDriverTheorems Timing
begin

text \<open>
  The program \<open>mdriver\<close>: its options, the evaluation of every trace and the performance index
  (\<open>main\<close> and \<open>printresults\<close> of \<open>lab7/mdriver.c\<close>), with the timer that \<open>config.h\<close> selects.

  The files are a parameter, their contents by name.  The world of the timer is the driver, \<open>None\<close> once a run
  of the package has ended the process, and a time that every run moves on.
\<close>

section \<open>Options\<close>

definition MAXLINE :: nat where "MAXLINE = 1024"

definition TRACEDIR :: string where "TRACEDIR = ''./traces/''"

definition DEFAULT_TRACEFILES :: "string list" where
  "DEFAULT_TRACEFILES =
     [''amptjp-bal.rep'', ''cccp-bal.rep'', ''cp-decl-bal.rep'', ''expr-bal.rep'', ''coalescing-bal.rep'', ''random-bal.rep'',
      ''random2-bal.rep'', ''binary-bal.rep'', ''binary2-bal.rep'', ''realloc-bal.rep'', ''realloc2-bal.rep'']"

record options =
  tracedir :: string
  tracefiles :: "string list option"
  run_libc :: bool
  autograder :: bool
  verbose :: nat

definition options_init :: options where
  "options_init = \<lparr>tracedir = TRACEDIR, tracefiles = None, run_libc = False, autograder = False, verbose = 0\<rparr>"

text \<open>
  The options as \<open>getopt\<close> delivers them, the letter of an unknown one being \<open>?\<close>.  The value is \<open>None\<close> when
  \<open>tracedir\<close> is accessed outside its bounds, the exit status, or the options.
\<close>

fun mdriver_options :: "(char \<times> string) list \<Rightarrow> options \<Rightarrow> (int + options) option" where
  "mdriver_options [] p = Some (Inr p)"
| "mdriver_options ((c, optarg) # opts) p =
     (if c = CHR ''g'' then mdriver_options opts (p\<lparr>autograder := True\<rparr>)
      else if c = CHR ''f'' then mdriver_options opts (p\<lparr>tracedir := ''./'', tracefiles := Some [optarg]\<rparr>)
      else if c = CHR ''t'' then
        if tracefiles p \<noteq> None then mdriver_options opts p
        else if optarg = [] \<or> MAXLINE \<le> length optarg then None
        else if last optarg \<noteq> CHR ''/'' then
          if MAXLINE \<le> length optarg + 1 then None else mdriver_options opts (p\<lparr>tracedir := optarg @ ''/''\<rparr>)
        else mdriver_options opts (p\<lparr>tracedir := optarg\<rparr>)
      else if c = CHR ''l'' then mdriver_options opts (p\<lparr>run_libc := True\<rparr>)
      else if c = CHR ''v'' then mdriver_options opts (p\<lparr>verbose := 1\<rparr>)
      else if c = CHR ''V'' then mdriver_options opts (p\<lparr>verbose := 2\<rparr>)
      else if c = CHR ''h'' then Some (Inl 0)
      else Some (Inl 1))"

section \<open>The evaluation of a trace\<close>

record stats_t =
  st_ops :: real
  valid :: bool
  secs :: real
  util :: real

definition stats_init :: stats_t where
  "stats_init = \<lparr>st_ops = 0, valid = False, secs = 0, util = 0\<rparr>"

text \<open>\<open>fsecs\<close> with \<open>USE_GETTOD\<close>: the time of ten runs by the wall clock.\<close>

definition fsecs_gettod :: "'w machine \<Rightarrow> ('w \<Rightarrow> 'w) \<Rightarrow> 'w \<Rightarrow> real \<times> 'w" where
  "fsecs_gettod M f w = ftimer_gettod M f 10 w"

definition timed_run :: "('s driver \<Rightarrow> 's driver option) \<Rightarrow> ('t \<Rightarrow> 't) \<Rightarrow> 's driver option \<times> 't \<Rightarrow> 's driver option \<times> 't" where
  "timed_run f pass w = (Option.bind (fst w) f, pass (snd w))"

text \<open>
  The arrays of a trace are those of the driver while it is evaluated; \<open>malloc\<close> does not initialise them.  The
  utilization of an empty heap, a quotient by 0, is 0 here and no number in C.
\<close>

definition load_trace :: "trace_t \<Rightarrow> 's driver \<Rightarrow> 's driver" where
  "load_trace trace d = d\<lparr>blocks := replicate (nat (num_ids trace)) NULL, block_sizes := replicate (nat (num_ids trace)) 0\<rparr>"

definition mm_trace ::
  "'s package \<Rightarrow> ('s driver option \<times> 't) machine \<Rightarrow> ('t \<Rightarrow> 't) \<Rightarrow> string \<Rightarrow> 's driver \<times> 't \<Rightarrow> (stats_t \<times> 's driver \<times> 't) option"
where
  "mm_trace pk M pass file w =
     do {
       trace \<leftarrow> read_trace file;
       let (d, t) = w;
       let stats = stats_init\<lparr>st_ops := of_int (num_ops trace)\<rparr>;
       (ok, d) \<leftarrow> eval_mm_valid pk trace (load_trace trace d);
       if ok then do {
         ((max_total_size, size), d) \<leftarrow> eval_mm_util pk trace d;
         let u = of_int max_total_size / of_nat (unat size);
         let (s, (d, t)) = fsecs_gettod M (timed_run (eval_mm_speed pk trace) pass) (Some d, t);
         d \<leftarrow> d;
         Some (stats\<lparr>valid := True, util := u, secs := s\<rparr>, d, t)
       } else Some (stats, d, t)
     }"

text \<open>The same for \<open>libc\<close>, without the space utilization.\<close>

definition libc_trace ::
  "'s package \<Rightarrow> ('s driver option \<times> 't) machine \<Rightarrow> ('t \<Rightarrow> 't) \<Rightarrow> string \<Rightarrow> 's driver \<times> 't \<Rightarrow> (stats_t \<times> 's driver \<times> 't) option"
where
  "libc_trace pk M pass file w =
     do {
       trace \<leftarrow> read_trace file;
       let (d, t) = w;
       let stats = stats_init\<lparr>st_ops := of_int (num_ops trace)\<rparr>;
       (ok, d) \<leftarrow> eval_libc_valid pk trace (load_trace trace d);
       if ok then do {
         let (s, (d, t)) = fsecs_gettod M (timed_run (eval_libc_speed pk trace) pass) (Some d, t);
         d \<leftarrow> d;
         Some (stats\<lparr>valid := True, secs := s\<rparr>, d, t)
       } else Some (stats, d, t)
     }"

fun each_trace :: "(string \<Rightarrow> 'w \<Rightarrow> (stats_t \<times> 'w) option) \<Rightarrow> string list \<Rightarrow> 'w \<Rightarrow> (stats_t list \<times> 'w) option" where
  "each_trace eval [] w = Some ([], w)"
| "each_trace eval (file # files) w =
     do { (st, w) \<leftarrow> eval file w; (sts, w) \<leftarrow> each_trace eval files w; Some (st # sts, w) }"

text \<open>The file of a trace, whose path is put together in an array of \<open>MAXLINE\<close> characters.\<close>

definition on_file :: "(string \<Rightarrow> string option) \<Rightarrow> string \<Rightarrow> (string \<Rightarrow> 'w \<Rightarrow> 'r option) \<Rightarrow> string \<Rightarrow> 'w \<Rightarrow> 'r option" where
  "on_file files dir eval name w =
     (if MAXLINE \<le> length (dir @ name) then None else do { file \<leftarrow> files (dir @ name); eval file w })"

section \<open>Results\<close>

definition UTIL_WEIGHT :: real where "UTIL_WEIGHT = 60 / 100"
definition AVG_LIBC_THRUPUT :: real where "AVG_LIBC_THRUPUT = 600000"

text \<open>The rows of \<open>printresults\<close>: the utilization in percent, operations, seconds and Kops of a valid trace.\<close>

type_synonym row = "(real \<times> real \<times> real \<times> real) option"

definition result_row :: "stats_t \<Rightarrow> row" where
  "result_row st = (if valid st then Some (util st * 100, st_ops st, secs st, st_ops st / 1000 / secs st) else None)"

definition printresults :: "nat \<Rightarrow> stats_t list \<Rightarrow> row list \<times> row" where
  "printresults errs sts =
     (let good = filter valid sts;
          s = sum_list (map secs good); n = sum_list (map st_ops good); u = sum_list (map util good)
      in (map result_row sts,
          if errs = 0 then Some (u / of_nat (length sts) * 100, n, s, n / 1000 / s) else None))"

text \<open>
  The performance index and its two parts.  A quotient of doubles by 0 is infinite, so that the throughput then
  exceeds the bound.
\<close>

definition throughput_part :: "real \<Rightarrow> real \<Rightarrow> real" where
  "throughput_part n s =
     (if s = 0 \<and> 0 < n \<or> n / s > AVG_LIBC_THRUPUT then 1 - UTIL_WEIGHT
      else (1 - UTIL_WEIGHT) * (n / s / AVG_LIBC_THRUPUT))"

definition perf_index :: "nat \<Rightarrow> stats_t list \<Rightarrow> real" where
  "perf_index errs sts =
     (let s = sum_list (map secs sts); n = sum_list (map st_ops sts); u = sum_list (map util sts);
          avg_mm_util = u / of_nat (length sts);
          p1 = UTIL_WEIGHT * avg_mm_util;
          p2 = throughput_part n s
      in if errs = 0 then (p1 + p2) * 100 else 0)"

definition numcorrect :: "stats_t list \<Rightarrow> nat" where
  "numcorrect sts = length (filter valid sts)"

text \<open>
  \<open>main\<close>: \<open>None\<close> when it does not come to its end, the exit status 0 or 1 of the options, or the statistics of
  all traces, the number of errors, of correct traces, and the performance index.
\<close>

definition mdriver_main ::
  "(string \<Rightarrow> string option) \<Rightarrow> 's package \<Rightarrow> ('s driver option \<times> 't) machine \<Rightarrow> 'l package \<Rightarrow> ('l driver option \<times> 't) machine \<Rightarrow>
     ('t \<Rightarrow> 't) \<Rightarrow> (char \<times> string) list \<Rightarrow> 's driver \<Rightarrow> 'l driver \<Rightarrow> 't \<Rightarrow> (int + stats_t list \<times> nat \<times> nat \<times> real) option"
where
  "mdriver_main files pk M libc L pass opts d l t =
     do {
       r \<leftarrow> mdriver_options opts options_init;
       case r of
         Inl status \<Rightarrow> Some (Inl status)
       | Inr p \<Rightarrow> do {
           let names = (case tracefiles p of Some fs \<Rightarrow> fs | None \<Rightarrow> DEFAULT_TRACEFILES);
           t \<leftarrow> (if run_libc p then map_option (\<lambda>(_, _, t). t)
                    (each_trace (on_file files (tracedir p) (libc_trace libc L pass)) names (l, t))
                 else Some t);
           (sts, d, t) \<leftarrow> each_trace (on_file files (tracedir p) (mm_trace pk M pass)) names (d, t);
           Some (Inr (sts, errors d, numcorrect sts, perf_index (errors d) sts))
         }
     }"

section \<open>Errors\<close>

text \<open>Checking a package counts an error exactly when its verdict is negative; measuring it counts none.\<close>

lemma remember_errors: "remember i p n d = Some d' \<Longrightarrow> errors d' = errors d"
  by (auto simp: remember_def Option.bind_eq_Some_conv)

lemma add_range_errors: "add_range pk lo n d = Some (ok, d') \<Longrightarrow> errors d' = errors d + (if ok then 0 else 1)"
  by (auto simp: add_range_def malloc_error_def Let_def split: if_splits)

lemma errors_fixed: "d\<lparr>errors := n\<rparr> = d \<Longrightarrow> n = errors d" for d :: "'s driver"
  by (metis driver.select_convs(5) driver.surjective driver.update_convs(5))

lemma valid_op_errors: "valid_op pk t d = Some (ok, d') \<Longrightarrow> errors d' = errors d + (if ok then 0 else 1)"
  by (auto simp: valid_op_def valid_alloc_def valid_realloc_def valid_free_def Option.bind_eq_Some_conv Let_def malloc_error_def
      split: optype.splits if_splits dest!: remember_errors add_range_errors dest: errors_fixed)

lemma valid_ops_errors: "valid_ops pk ts d = Some (ok, d') \<Longrightarrow> errors d' = errors d + (if ok then 0 else 1)"
  by (induction ts arbitrary: d) (fastforce simp: Option.bind_eq_Some_conv split: if_splits dest: valid_op_errors)+

lemma eval_mm_valid_errors: "eval_mm_valid pk trace d = Some (ok, d') \<Longrightarrow> errors d' = errors d + (if ok then 0 else 1)"
  by (auto simp: eval_mm_valid_def clear_ranges_def Let_def malloc_error_def split: if_splits prod.splits dest!: valid_ops_errors)

lemma util_op_errors: "util_op pk t (a, b, d) = Some (a', b', d') \<Longrightarrow> errors d' = errors d"
  by (auto simp: util_op_def Option.bind_eq_Some_conv Let_def int_add_def split: optype.splits if_splits dest!: remember_errors)

lemma util_ops_errors: "util_ops pk ts u = Some u' \<Longrightarrow> errors (snd (snd u')) = errors (snd (snd u))"
proof (induction ts arbitrary: u)
  case (Cons t ts)
  then obtain u1 where "util_op pk t u = Some u1" "util_ops pk ts u1 = Some u'" by (auto simp: Option.bind_eq_Some_conv)
  then show ?case using Cons.IH util_op_errors by (cases u; cases u1) fastforce
qed simp

lemma eval_mm_util_errors: "eval_mm_util pk trace d = Some (r, d') \<Longrightarrow> errors d' = errors d"
  by (auto simp: eval_mm_util_def Option.bind_eq_Some_conv Let_def split: if_splits prod.splits dest!: util_ops_errors)

lemma speed_op_errors: "speed_op pk t d = Some d' \<Longrightarrow> errors d' = errors d"
  by (auto simp: speed_op_def Option.bind_eq_Some_conv split: optype.splits if_splits)

lemma speed_ops_errors: "speed_ops pk ts d = Some d' \<Longrightarrow> errors d' = errors d"
  by (induction ts arbitrary: d) (auto simp: Option.bind_eq_Some_conv dest!: speed_op_errors)

lemma eval_mm_speed_errors: "eval_mm_speed pk trace d = Some d' \<Longrightarrow> errors d' = errors d"
  by (auto simp: eval_mm_speed_def Let_def split: if_splits prod.splits dest!: speed_ops_errors)

text \<open>The timer runs the function ten times between two looks at the clock, which leave the driver alone.\<close>

definition clock_only :: "('d \<times> 't) machine \<Rightarrow> bool" where
  "clock_only M \<longleftrightarrow> (\<forall>w. fst (snd (gettimeofday M w)) = fst w)"

lemma timed_runs:
  assumes "\<And>d d'. f d = Some d' \<Longrightarrow> errors d' = errors d" and "fst (calls (timed_run f pass) n w) = Some d'"
  shows "\<exists>d. fst w = Some d \<and> errors d' = errors d"
  using assms(2)
proof (induction n arbitrary: w)
  case (Suc n)
  have "\<exists>d. fst (timed_run f pass w) = Some d \<and> errors d' = errors d"
    by (rule Suc.IH) (use Suc.prems in simp)
  then obtain d where "fst (timed_run f pass w) = Some d" "errors d' = errors d" by blast
  then show ?case using assms(1) by (auto simp: timed_run_def Option.bind_eq_Some_conv)
qed simp

lemma fsecs_errors:
  assumes "clock_only M" and "\<And>d d'. f d = Some d' \<Longrightarrow> errors d' = errors d"
    and "fsecs_gettod M (timed_run f pass) (Some d, t) = (s, Some d', t')"
  shows "errors d' = errors d"
proof -
  obtain stv w1 where 1: "gettimeofday M (Some d, t) = (stv, w1)"
    by (cases "gettimeofday M (Some d, t)") blast
  obtain etv w2 where 2: "gettimeofday M (calls (timed_run f pass) 10 w1) = (etv, w2)"
    by (cases "gettimeofday M (calls (timed_run f pass) 10 w1)") blast
  have "fst w1 = Some d" using assms(1) 1 by (metis clock_only_def fst_conv snd_conv)
  moreover have "fst w2 = fst (calls (timed_run f pass) 10 w1)" using assms(1) 2 by (metis clock_only_def snd_conv)
  moreover have "w2 = (Some d', t')" using assms(3) 1 2 by (simp add: fsecs_gettod_def ftimer_gettod_def Let_def)
  ultimately show ?thesis using timed_runs [where pass = pass and n = 10 and w = w1 and d' = d', OF assms(2)] by auto
qed

lemma mm_trace_errors:
  assumes "clock_only M" and "mm_trace pk M pass file (d, t) = Some (st, d', t')"
  shows "errors d' = errors d + (if valid st then 0 else 1)"
proof -
  obtain trace ok d1 where 1: "read_trace file = Some trace" "eval_mm_valid pk trace (load_trace trace d) = Some (ok, d1)"
    using assms(2) by (auto simp: mm_trace_def Option.bind_eq_Some_conv Let_def)
  have e: "errors d1 = errors d + (if ok then 0 else 1)"
    using eval_mm_valid_errors [OF 1(2)] by (simp add: load_trace_def)
  show ?thesis
  proof (cases ok)
    case False
    then show ?thesis using assms(2) 1 e by (auto simp: mm_trace_def stats_init_def)
  next
    case True
    then obtain r d2 where 2: "eval_mm_util pk trace d1 = Some (r, d2)"
      using assms(2) 1 by (auto simp: mm_trace_def Option.bind_eq_Some_conv Let_def)
    obtain s dd t2 where 3: "fsecs_gettod M (timed_run (eval_mm_speed pk trace) pass) (Some d2, t) = (s, dd, t2)"
      by (cases "fsecs_gettod M (timed_run (eval_mm_speed pk trace) pass) (Some d2, t)") auto
    have 4: "dd = Some d'" "t2 = t'" "valid st"
      using assms(2) 1 2 3 True by (cases r; auto simp: mm_trace_def Option.bind_eq_Some_conv Let_def)+
    show ?thesis
      using fsecs_errors [OF assms(1) eval_mm_speed_errors 3 [unfolded 4(1,2)]] eval_mm_util_errors [OF 2] e True 4(3) by simp
  qed
qed

lemma each_trace_errors:
  assumes "clock_only M" and "each_trace (on_file files dir (mm_trace pk M pass)) names (d, t) = Some (sts, d', t')"
  shows "length sts = length names \<and> errors d' = errors d + length (filter (\<lambda>st. \<not> valid st) sts)"
  using assms(2)
proof (induction names arbitrary: d t sts)
  case (Cons name names)
  then obtain st d1 t1 sts1 where c: "on_file files dir (mm_trace pk M pass) name (d, t) = Some (st, d1, t1)"
      "each_trace (on_file files dir (mm_trace pk M pass)) names (d1, t1) = Some (sts1, d', t')" "sts = st # sts1"
    by (auto simp: Option.bind_eq_Some_conv)
  obtain fl where "mm_trace pk M pass fl (d, t) = Some (st, d1, t1)"
    using c(1) by (auto simp: Option.bind_eq_Some_conv on_file_def split: if_splits)
  then show ?case using Cons.IH [OF c(2)] mm_trace_errors [OF assms(1)] c(3) by fastforce
qed simp

section \<open>The index\<close>

lemma sum_list_bounds:
  fixes f :: "'a \<Rightarrow> real"
  assumes "\<forall>x \<in> set xs. 0 \<le> f x \<and> f x \<le> 1"
  shows "0 \<le> sum_list (map f xs)" "sum_list (map f xs) \<le> of_nat (length xs)"
    "sum_list (map f xs) = of_nat (length xs) \<longleftrightarrow> (\<forall>x \<in> set xs. f x = 1)"
  using assms by (induction xs) auto

lemma throughput_bounds:
  assumes "0 \<le> n" and "0 < s"
  shows "0 \<le> throughput_part n s" "throughput_part n s \<le> 1 - UTIL_WEIGHT"
    "throughput_part n s = 1 - UTIL_WEIGHT \<longleftrightarrow> AVG_LIBC_THRUPUT \<le> n / s"
  using assms by (auto simp: throughput_part_def UTIL_WEIGHT_def AVG_LIBC_THRUPUT_def field_simps)

text \<open>The statistics that the evaluation makes: neither operations nor a utilization are negative.\<close>

lemma util_ops_max:
  "util_ops pk ts (a, b, d) = Some (a', b', d') \<Longrightarrow> b \<le> b'"
proof (induction ts arbitrary: a b d)
  case (Cons t ts)
  then obtain a1 b1 d1 where u: "util_op pk t (a, b, d) = Some (a1, b1, d1)" "util_ops pk ts (a1, b1, d1) = Some (a', b', d')"
    by (auto simp: Option.bind_eq_Some_conv)
  have "b \<le> b1" using u(1) by (auto simp: util_op_def Option.bind_eq_Some_conv Let_def split: optype.splits if_splits)
  then show ?case using Cons.IH [OF u(2)] by simp
qed simp

lemma eval_mm_util_nonneg: "eval_mm_util pk trace d = Some ((m, h), d') \<Longrightarrow> 0 \<le> m"
  by (auto simp: eval_mm_util_def Option.bind_eq_Some_conv Let_def split: if_splits prod.splits dest!: util_ops_max)

lemma read_trace_nonneg: "read_trace file = Some t \<Longrightarrow> 0 \<le> num_ops t"
  by (auto simp: read_trace_def Option.bind_eq_Some_conv split: if_splits)

lemma mm_trace_nonneg:
  assumes "mm_trace pk M pass file w = Some (st, w')"
  shows "0 \<le> st_ops st \<and> 0 \<le> util st"
proof -
  obtain d t where w: "w = (d, t)" by (cases w)
  obtain trace ok d1 where 1: "read_trace file = Some trace" "eval_mm_valid pk trace (load_trace trace d) = Some (ok, d1)"
    using assms unfolding w by (auto simp: mm_trace_def Option.bind_eq_Some_conv Let_def)
  show ?thesis
  proof (cases ok)
    case False
    then show ?thesis using assms 1 read_trace_nonneg [OF 1(1)] unfolding w
      by (auto simp: mm_trace_def Let_def stats_init_def)
  next
    case True
    obtain m h d2 where 2: "eval_mm_util pk trace d1 = Some ((m, h), d2)"
      using assms 1 True unfolding w by (auto simp: mm_trace_def Option.bind_eq_Some_conv Let_def)
    obtain x dd t2 where 3: "fsecs_gettod M (timed_run (eval_mm_speed pk trace) pass) (Some d2, t) = (x, dd, t2)"
      by (cases "fsecs_gettod M (timed_run (eval_mm_speed pk trace) pass) (Some d2, t)") auto
    have "st = stats_init\<lparr>st_ops := of_int (num_ops trace), valid := True, util := of_int m / of_nat (unat h), secs := x\<rparr>"
      using assms 1 2 3 True unfolding w by (auto simp: mm_trace_def Option.bind_eq_Some_conv Let_def)
    then show ?thesis using read_trace_nonneg [OF 1(1)] eval_mm_util_nonneg [OF 2] by (simp del: of_nat_unat)
  qed
qed

lemma each_trace_nonneg:
  "each_trace (on_file files dir (mm_trace pk M pass)) names w = Some (sts, w') \<Longrightarrow>
     length sts = length names \<and> (\<forall>st \<in> set sts. 0 \<le> st_ops st \<and> 0 \<le> util st)"
proof (induction names arbitrary: w sts)
  case (Cons name names)
  then obtain st w1 sts1 where c: "on_file files dir (mm_trace pk M pass) name w = Some (st, w1)"
      "each_trace (on_file files dir (mm_trace pk M pass)) names w1 = Some (sts1, w')" "sts = st # sts1"
    by (auto simp: Option.bind_eq_Some_conv)
  then have "\<exists>fl. mm_trace pk M pass fl w = Some (st, w1)"
    by (auto simp: Option.bind_eq_Some_conv on_file_def split: if_splits)
  then show ?case using Cons.IH [OF c(2)] mm_trace_nonneg c(3) by fastforce
qed simp

lemma mdriver_names:
  "mdriver_options opts p = Some (Inr p') \<Longrightarrow> tracefiles p \<noteq> Some [] \<Longrightarrow> tracefiles p' \<noteq> Some []"
  by (induction opts p rule: mdriver_options.induct) (auto split: if_splits)

lemma perf_index_bounds:
  assumes "sts \<noteq> []" and "\<forall>st \<in> set sts. 0 \<le> st_ops st \<and> 0 \<le> util st" and "0 < sum_list (map secs sts)"
  shows "0 \<le> perf_index 0 sts"
    "\<forall>st \<in> set sts. util st \<le> 1 \<Longrightarrow> perf_index 0 sts \<le> 100 \<and> (perf_index 0 sts = 100 \<longleftrightarrow>
      (\<forall>st \<in> set sts. util st = 1) \<and> AVG_LIBC_THRUPUT \<le> sum_list (map st_ops sts) / sum_list (map secs sts))"
proof -
  let ?u = "sum_list (map util sts) / of_nat (length sts)"
  let ?p = "throughput_part (sum_list (map st_ops sts)) (sum_list (map secs sts))"
  have n: "0 < (of_nat (length sts) :: real)" using assms by simp
  have "0 \<le> sum_list (map st_ops sts)" "0 \<le> sum_list (map util sts)" using assms(2) by (auto intro!: sum_list_nonneg)
  then have q: "0 \<le> ?p" "?p \<le> 1 - UTIL_WEIGHT" "0 \<le> ?u"
    "?p = 1 - UTIL_WEIGHT \<longleftrightarrow> AVG_LIBC_THRUPUT \<le> sum_list (map st_ops sts) / sum_list (map secs sts)"
    using throughput_bounds [OF _ assms(3)] by simp_all
  have i: "perf_index 0 sts = (UTIL_WEIGHT * ?u + ?p) * 100" by (simp add: perf_index_def Let_def)
  show "0 \<le> perf_index 0 sts" unfolding i using q by (simp add: UTIL_WEIGHT_def)
  assume le: "\<forall>st \<in> set sts. util st \<le> 1"
  have u: "?u \<le> 1" "?u = 1 \<longleftrightarrow> (\<forall>st \<in> set sts. util st = 1)"
    using sum_list_bounds [of sts util] assms(2) le n by auto
  have "(UTIL_WEIGHT * a + b) * 100 \<le> 100 \<and> ((UTIL_WEIGHT * a + b) * 100 = 100 \<longleftrightarrow> a = 1 \<and> b = 1 - UTIL_WEIGHT)"
    if "a \<le> 1" "b \<le> 1 - UTIL_WEIGHT" for a b :: real
    using that by (auto simp: UTIL_WEIGHT_def)
  from this [OF u(1) q(2)] show "perf_index 0 sts \<le> 100 \<and> (perf_index 0 sts = 100 \<longleftrightarrow>
      (\<forall>st \<in> set sts. util st = 1) \<and> AVG_LIBC_THRUPUT \<le> sum_list (map st_ops sts) / sum_list (map secs sts))"
    unfolding i u(2) q(4) .
qed

text \<open>
  A utilization can exceed 1: \<open>mm_malloc\<close> gives a payload for a request of 4095 bytes that it does not have, and
  the bound of 100 is then lost.
\<close>

lemma perf_index_exceeds:
  assumes "sts \<noteq> []" and "\<forall>st \<in> set sts. 1 < util st"
    and "0 < sum_list (map secs sts)" and "AVG_LIBC_THRUPUT * sum_list (map secs sts) \<le> sum_list (map st_ops sts)"
  shows "100 < perf_index 0 sts"
proof -
  have "of_nat (length sts) < sum_list (map util sts)"
    using assms(1,2)
  proof (induction sts)
    case (Cons st sts)
    then show ?case by (cases "sts = []") auto
  qed simp
  then have "1 < sum_list (map util sts) / of_nat (length sts)" using assms(1) by simp
  moreover have "0 \<le> sum_list (map st_ops sts)" using assms(3,4) by (auto simp: AVG_LIBC_THRUPUT_def intro: order_trans [rotated])
  then have "throughput_part (sum_list (map st_ops sts)) (sum_list (map secs sts)) = 1 - UTIL_WEIGHT"
    using throughput_bounds(3) [OF _ assms(3)] assms(3,4) by (simp add: field_simps)
  ultimately show ?thesis by (simp add: perf_index_def Let_def UTIL_WEIGHT_def)
qed

text \<open>
  C21. What \<open>mdriver\<close> reports for any package: the errors count the traces that it does not handle correctly, so
  that there are none exactly when all are correct; with an error the index is 0.  Without one, when the measured
  times add up to a positive one, the index is not negative; when moreover no utilization exceeds 1, the index is
  at most 100, and 100 exactly for full utilization of every trace at a throughput of at least \<open>AVG_LIBC_THRUPUT\<close>.
\<close>

theorem mdriver_reports:
  assumes "mdriver_main files pk M libc L pass opts d l t = Some (Inr (sts, errs, n, perfidx))"
    and "clock_only M" and "errors d = 0"
  shows "errs + n = length sts \<and> (errs = 0 \<longleftrightarrow> n = length sts) \<and> (errs \<noteq> 0 \<longrightarrow> perfidx = 0) \<and>
    (errs = 0 \<and> 0 < sum_list (map secs sts) \<longrightarrow> 0 \<le> perfidx \<and>
      ((\<forall>st \<in> set sts. util st \<le> 1) \<longrightarrow> perfidx \<le> 100 \<and>
        (perfidx = 100 \<longleftrightarrow> (\<forall>st \<in> set sts. util st = 1) \<and>
          AVG_LIBC_THRUPUT \<le> sum_list (map st_ops sts) / sum_list (map secs sts))))"
proof -
  obtain r where r: "mdriver_options opts options_init = Some r"
    using assms(1) by (auto simp: mdriver_main_def Option.bind_eq_Some_conv)
  then obtain p where p: "r = Inr p" using assms(1) by (cases r) (auto simp: mdriver_main_def)
  let ?names = "case tracefiles p of Some fs \<Rightarrow> fs | None \<Rightarrow> DEFAULT_TRACEFILES"
  obtain t1 d' t2 where
    e: "each_trace (on_file files (tracedir p) (mm_trace pk M pass)) ?names (d, t1) = Some (sts, d', t2)"
      "errs = errors d'" "n = numcorrect sts" "perfidx = perf_index (errors d') sts"
    using assms(1) r p by (auto simp: mdriver_main_def Option.bind_eq_Some_conv Let_def)
  have "errs + n = length sts"
    using each_trace_errors [OF assms(2) e(1)] assms(3) e(2,3) sum_length_filter_compl [of valid sts]
    by (simp add: numcorrect_def)
  moreover have "errs \<noteq> 0 \<longrightarrow> perfidx = 0" using e(2,4) by (simp add: perf_index_def Let_def)
  moreover have "errs = 0 \<Longrightarrow> perfidx = perf_index 0 sts" using e(2,4) by simp
  moreover have "?names \<noteq> []"
    using mdriver_names [of opts options_init p] r p
    by (auto simp: options_init_def DEFAULT_TRACEFILES_def split: option.splits)
  then have "sts \<noteq> []" "\<forall>st \<in> set sts. 0 \<le> st_ops st \<and> 0 \<le> util st" using each_trace_nonneg [OF e(1)] by auto
  ultimately show ?thesis using perf_index_bounds [of sts] by auto
qed

definition demo_package :: "addr package" where
  "demo_package =
     \<lparr>reset_brk = (\<lambda>s. 0), pk_init = (\<lambda>s. (0, 16)), pk_malloc = (\<lambda>n s. Some (s, s + 16)), pk_realloc = (\<lambda>p n s. None),
      pk_free = (\<lambda>p s. s), heap_lo = (\<lambda>s. 16), heap_hi = (\<lambda>s. 31), heapsize = (\<lambda>s. 16), memory = (\<lambda>s a. 0),
      fill = (\<lambda>p b n s. s)\<rparr>"

definition demo_driver :: "addr driver" where
  "demo_driver = \<lparr>sys = 0, ranges = [], blocks = [], block_sizes = [], errors = 0\<rparr>"

definition demo_clock :: "(addr driver option \<times> nat) machine" where
  "demo_clock = \<lparr>rdtsc = \<lambda>w. ((0, 0), w), tms_utime = \<lambda>w. (0, w), gettimeofday = \<lambda>(d, t). (wall t, (d, t)),
     getitimer = \<lambda>w. ((0, 0), w), sleep = \<lambda>_ w. w, malloc_ints = \<lambda>_ _. None\<rparr>"

lemma calls_numeral: "calls f (numeral k) w = calls f (pred_numeral k) (f w)"
  by (simp add: numeral_eq_Suc)

lemma demo_main:
  "\<exists>sts perfidx. mdriver_main (\<lambda>_. Some (trace_text one_block)) demo_package demo_clock demo_package demo_clock Suc
     [(CHR ''f'', ''x'')] demo_driver demo_driver 0 = Some (Inr (sts, 0, 1, perfidx))"
proof -
  have r: "read_trace (trace_text one_block) = Some one_block" by code_simp
  have v: "eval_mm_valid demo_package one_block (load_trace one_block demo_driver) =
      Some (True, \<lparr>sys = 32, ranges = [(16, 31)], blocks = [16], block_sizes = [16], errors = 0\<rparr>)" by code_simp
  have u: "eval_mm_util demo_package one_block \<lparr>sys = 32, ranges = [(16, 31)], blocks = [16], block_sizes = [16], errors = 0\<rparr> =
      Some ((16, 16), \<lparr>sys = 32, ranges = [(16, 31)], blocks = [16], block_sizes = [16], errors = 0\<rparr>)" by code_simp
  have s: "eval_mm_speed demo_package one_block \<lparr>sys = 32, ranges = [(16, 31)], blocks = [16], block_sizes = [16], errors = 0\<rparr> =
      Some \<lparr>sys = 32, ranges = [(16, 31)], blocks = [16], block_sizes = [16], errors = 0\<rparr>" by code_simp
  have "\<exists>st d' t'. mm_trace demo_package demo_clock Suc (trace_text one_block) (demo_driver, 0) = Some (st, d', t') \<and> valid st \<and> errors d' = 0"
    by (simp add: mm_trace_def r v u Let_def fsecs_gettod_def ftimer_gettod_def demo_clock_def calls_numeral timed_run_def s)
  then show ?thesis
    by (auto simp: mdriver_main_def options_init_def on_file_def MAXLINE_def numcorrect_def)
qed

theorem mdriver_reports_witness:
  "\<exists>sts perfidx. mdriver_main (\<lambda>_. Some (trace_text one_block)) demo_package demo_clock demo_package demo_clock Suc
     [(CHR ''f'', ''x'')] demo_driver demo_driver 0 = Some (Inr (sts, 0, 1, perfidx)) \<and> length sts = 1"
proof -
  obtain sts perfidx where "mdriver_main (\<lambda>_. Some (trace_text one_block)) demo_package demo_clock demo_package demo_clock Suc
     [(CHR ''f'', ''x'')] demo_driver demo_driver 0 = Some (Inr (sts, 0, 1, perfidx))" using demo_main by blast
  moreover from mdriver_reports [OF this] have "length sts = 1"
    by (simp add: clock_only_def demo_clock_def demo_driver_def split: prod.splits)
  ultimately show ?thesis by blast
qed

text \<open>The option \<open>-a\<close> of the usage message and of \<open>getopt\<close> has no case in the switch: it ends the program.\<close>

lemma option_a: "mdriver_options ((CHR ''a'', optarg) # opts) p = Some (Inl 1)"
  by simp

end
