(* ===== verification/MmBlocks.thy ===== *)
theory MmBlocks
  imports MmHeap
begin

text \<open>
  The heap of \<open>lab7/mm.c\<close> as a list of blocks: header and footer of each block, the blocks one after the
  other from the prologue to the epilogue, and the free lists holding exactly the free ones.  What a write
  leaves alone is stated by the set of bytes that keep their value.
\<close>

section \<open>What a write leaves alone\<close>

text \<open>Memory has not changed at the addresses of \<open>A\<close>.  Addresses of the heap are natural numbers here.\<close>

definition same_on :: "nat set \<Rightarrow> (addr \<Rightarrow> byte) \<Rightarrow> (addr \<Rightarrow> byte) \<Rightarrow> bool" where
  "same_on A m m' \<longleftrightarrow> (\<forall>a. unat a \<in> A \<longrightarrow> m' a = m a)"

lemma same_on_refl [simp]: "same_on A m m"
  by (simp add: same_on_def)

lemma same_on_trans [trans]: "same_on A m m' \<Longrightarrow> same_on A m' m'' \<Longrightarrow> same_on A m m''"
  by (simp add: same_on_def)

lemma same_on_mono: "same_on A m m' \<Longrightarrow> B \<subseteq> A \<Longrightarrow> same_on B m m'"
  by (auto simp: same_on_def)

definition adr :: "nat \<Rightarrow> addr" where "adr p = of_nat p"

lemma unat_adr [simp]: "p < 2 ^ 64 \<Longrightarrow> unat (adr p) = p"
  by (simp add: adr_def unat_of_nat)

lemma adr_eq [simp]: "p < 2 ^ 64 \<Longrightarrow> q < 2 ^ 64 \<Longrightarrow> adr p = adr q \<longleftrightarrow> p = q"
  using unat_adr by metis

lemma adr_add: "adr p + of_nat i = adr (p + i)"
  by (simp add: adr_def)

lemma same_on_bytes:
  assumes "same_on A m m'" and "{p..<p + k} \<subseteq> A" and "p + k < 2 ^ 64"
  shows "bytes_at m' (adr p) k = bytes_at m (adr p) k"
proof -
  have "m' (adr p + of_nat i) = m (adr p + of_nat i)" if "i < k" for i
  proof -
    have "unat (adr (p + i)) = p + i" using assms(3) that by simp
    then have "unat (adr p + of_nat i) \<in> A" using assms(2) that by (auto simp: adr_add)
    then show ?thesis using assms(1) by (simp add: same_on_def)
  qed
  then show ?thesis by (simp add: bytes_at_def)
qed

lemma same_on_GET: "same_on A m m' \<Longrightarrow> {p..<p + 4} \<subseteq> A \<Longrightarrow> p + 4 < 2 ^ 64 \<Longrightarrow> GET m' (adr p) = GET m (adr p)"
  by (simp add: GET_def load32_def same_on_bytes)

lemma same_on_GETADDR:
  "same_on A m m' \<Longrightarrow> {p..<p + 8} \<subseteq> A \<Longrightarrow> p + 8 < 2 ^ 64 \<Longrightarrow> GETADDR m' (adr p) = GETADDR m (adr p)"
  by (simp add: GETADDR_def load64_def same_on_bytes)

lemma same_on_store_bytes:
  assumes "{p..<p + length bs} \<inter> A = {}" and "p + length bs < 2 ^ 64"
  shows "same_on A m (store_bytes m (adr p) bs)"
  unfolding same_on_def
proof (intro allI impI store_bytes_other)
  fix a :: addr and i
  assume a: "unat a \<in> A" and i: "i < length bs"
  have "p + i \<in> {p..<p + length bs}" using i by simp
  then have "p + i \<notin> A" using assms(1) by blast
  then have "unat a \<noteq> p + i" using a by auto
  moreover have "unat (adr p + of_nat i) = p + i"
    using i assms(2) by (simp add: adr_add)
  ultimately show "a \<noteq> adr p + of_nat i" by auto
qed

lemma same_on_PUT:
  "{p..<p + 4} \<inter> A = {} \<Longrightarrow> p + 4 < 2 ^ 64 \<Longrightarrow> same_on A (mem st) (mem (PUT (adr p) v st))"
  by (simp add: PUT_def store32_def same_on_store_bytes)

lemma same_on_PUTADDR:
  "{p..<p + 8} \<inter> A = {} \<Longrightarrow> p + 8 < 2 ^ 64 \<Longrightarrow> same_on A (mem st) (mem (PUTADDR (adr p) v st))"
  by (simp add: PUTADDR_def store64_def same_on_store_bytes)

section \<open>Tags\<close>

definition tag :: "nat \<Rightarrow> bool \<Rightarrow> 32 word" where
  "tag n a = of_nat n OR of_bool a"

lemma mask_3: "(7 :: 32 word) = mask 3"
  by (simp add: mask_eq_exp_minus_1)

lemma bit_dvd_8: "8 dvd (n :: nat) \<Longrightarrow> bit n i \<Longrightarrow> 3 \<le> i"
proof -
  assume "8 dvd n" and i: "bit n i"
  then have "n = push_bit 3 (n div 8)" by (simp add: push_bit_eq_mult)
  then have "bit (push_bit 3 (n div 8)) i" using i by simp
  then show ?thesis by (simp add: bit_push_bit_iff)
qed

lemma tag_size: "8 dvd n \<Longrightarrow> tag n a AND NOT 7 = of_nat n"
  unfolding mask_3 by (rule bit_word_eqI) (auto simp: tag_def bit_simps dest: bit_dvd_8)

lemma tag_alloc: "8 dvd n \<Longrightarrow> tag n a AND 1 \<noteq> 0 \<longleftrightarrow> a"
proof -
  assume d: "8 dvd n"
  have "bit (tag n a) 0 = a" using bit_dvd_8 [OF d, of 0] by (auto simp: tag_def bit_simps)
  then show ?thesis by (simp add: bit_0 and_one_eq odd_iff_mod_2_eq_one)
qed

lemma tag_pack: "ucast (PACK (of_nat n) (of_bool a)) = tag n a" if "n < 2 ^ 64" for a
  by (rule bit_word_eqI) (auto simp: tag_def PACK_def bit_simps)

lemma tag_simps [simp]: "tag 8 True = 9" "tag 0 True = 1"
  by (simp_all add: tag_def)

section \<open>Blocks that tile the heap\<close>

text \<open>A block is its size in bytes and whether it is allocated; the first starts at \<open>p\<close>.\<close>

type_synonym block = "nat \<times> bool"

abbreviation total :: "block list \<Rightarrow> nat" where
  "total bs \<equiv> sum_list (map fst bs)"

fun tiles :: "(addr \<Rightarrow> byte) \<Rightarrow> nat \<Rightarrow> block list \<Rightarrow> bool" where
  "tiles m p [] \<longleftrightarrow> True"
| "tiles m p ((n, a) # bs) \<longleftrightarrow> 24 \<le> n \<and> 8 dvd n \<and>
     GET m (adr (p - 4)) = tag n a \<and> GET m (adr (p + n - 8)) = tag n a \<and> tiles m (p + n) bs"

text \<open>The bytes of the tags, and of the payloads of the free (or the allocated) blocks.\<close>

fun tag_bytes :: "nat \<Rightarrow> block list \<Rightarrow> nat set" where
  "tag_bytes p [] = {}"
| "tag_bytes p ((n, a) # bs) = {p - 4..<p} \<union> {p + n - 8..<p + n - 4} \<union> tag_bytes (p + n) bs"

fun payload :: "bool \<Rightarrow> nat \<Rightarrow> block list \<Rightarrow> nat set" where
  "payload c p [] = {}"
| "payload c p ((n, a) # bs) = (if a = c then {p..<p + n - 8} else {}) \<union> payload c (p + n) bs"

fun free_at :: "nat \<Rightarrow> block list \<Rightarrow> nat set" where
  "free_at p [] = {}"
| "free_at p ((n, a) # bs) = (if a then {} else {p}) \<union> free_at (p + n) bs"

text \<open>Where the links of free blocks are, and with their headers.\<close>

definition links :: "nat set \<Rightarrow> nat set" where
  "links F = (\<Union>x \<in> F. {x..<x + 16})"

definition zone :: "nat set \<Rightarrow> nat set" where
  "zone F = (\<Union>x \<in> F. {x - 4..<x + 16})"

lemma append_blocks [simp]:
  "tiles m p (xs @ ys) \<longleftrightarrow> tiles m p xs \<and> tiles m (p + total xs) ys"
  "tag_bytes p (xs @ ys) = tag_bytes p xs \<union> tag_bytes (p + total xs) ys"
  "payload c p (xs @ ys) = payload c p xs \<union> payload c (p + total xs) ys"
  "free_at p (xs @ ys) = free_at p xs \<union> free_at (p + total xs) ys"
  by (induction xs arbitrary: p) (auto simp: add.assoc)

definition big :: "block list \<Rightarrow> bool" where
  "big bs \<longleftrightarrow> list_all (\<lambda>(n, a). 24 \<le> n) bs"

lemma big_simps [simp]: "big []" "big ((n, a) # bs) \<longleftrightarrow> 24 \<le> n \<and> big bs" "big (xs @ ys) \<longleftrightarrow> big xs \<and> big ys"
  by (auto simp: big_def)

lemma tiles_big: "tiles m p bs \<Longrightarrow> big bs"
  by (induction m p bs rule: tiles.induct) auto

lemma tag_bytes_bounds: "x \<in> tag_bytes p bs \<Longrightarrow> big bs \<Longrightarrow> p \<le> x + 4 \<and> x + 4 < p + total bs"
  by (induction p bs rule: tag_bytes.induct) auto

lemma payload_bounds: "x \<in> payload c p bs \<Longrightarrow> big bs \<Longrightarrow> p \<le> x \<and> x + 8 < p + total bs"
  by (induction c p bs rule: payload.induct) (auto split: if_splits)

lemma free_at_bounds: "x \<in> free_at p bs \<Longrightarrow> big bs \<Longrightarrow> p \<le> x \<and> x + 24 \<le> p + total bs"
  by (induction p bs rule: free_at.induct) (auto split: if_splits)

lemma links_payload: "big bs \<Longrightarrow> links (free_at p bs) \<subseteq> payload False p bs"
  by (induction p bs rule: free_at.induct) (auto simp: links_def)

lemma payload_disjoint: "x \<in> payload True p bs \<Longrightarrow> x \<in> payload False p bs \<Longrightarrow> \<not> big bs"
  by (induction p bs rule: free_at.induct) (auto dest: payload_bounds split: if_splits)

lemma payload_tags: "x \<in> payload c p bs \<Longrightarrow> x \<in> tag_bytes p bs \<Longrightarrow> \<not> big bs"
  by (induction c p bs rule: payload.induct) (auto dest: payload_bounds tag_bytes_bounds split: if_splits)

lemma tiles_same:
  "tiles m p bs \<Longrightarrow> same_on A m m' \<Longrightarrow> tag_bytes p bs \<subseteq> A \<Longrightarrow> 4 \<le> p \<Longrightarrow> p + total bs < 2 ^ 64 \<Longrightarrow> tiles m' p bs"
proof (induction m p bs rule: tiles.induct)
  case (2 m p n a bs)
  have "tiles m' (p + n) bs" using 2 by simp
  moreover have "GET m' (adr (p - 4)) = GET m (adr (p - 4))"
    using 2 by (intro same_on_GET) auto
  moreover have "GET m' (adr (p + n - 8)) = GET m (adr (p + n - 8))"
    using 2 by (intro same_on_GET) auto
  ultimately show ?case using 2(2) by simp
qed simp

section \<open>The heap and its free lists\<close>

text \<open>
  \<open>bs\<close> are the blocks between prologue and epilogue.  A heap has less than 2 ^ 31 bytes, so that a
  block size fits the \<open>int\<close> of \<open>insert_block\<close>.
\<close>

definition heap_at :: "mm_t \<Rightarrow> nat \<Rightarrow> block list \<Rightarrow> bool" where
  "heap_at st p bs \<longleftrightarrow> 16 \<le> p \<and> p + total bs < 2 ^ 63 \<and> total bs < 2 ^ 31 \<and>
     heap_listp st = adr (p - 8) \<and> mem_brk st = adr (p + total bs) \<and>
     GET (mem st) (adr (p - 12)) = tag 8 True \<and> GET (mem st) (adr (p - 8)) = tag 8 True \<and>
     tiles (mem st) p bs \<and> GET (mem st) (adr (p + total bs - 4)) = tag 0 True"

text \<open>The blocks at the addresses \<open>F\<close>, and no others, are in the lists of their size classes.\<close>

definition listed :: "mm_t \<Rightarrow> nat set \<Rightarrow> bool" where
  "listed st F \<longleftrightarrow> (\<exists>ls. lists_ok st ls \<and> set (concat ls) = adr ` F \<and>
     (\<forall>i < 16. \<forall>x \<in> set (ls ! i). index_of (mem st) x = i))"

lemma heap_at_same:
  assumes "heap_at st p bs" and "same_on A (mem st) (mem st')"
    and "tag_bytes p bs \<subseteq> A" and "{p - 12..<p - 4} \<subseteq> A" and "{p + total bs - 4..<p + total bs} \<subseteq> A"
    and "heap_listp st' = heap_listp st" and "mem_brk st' = mem_brk st"
  shows "heap_at st' p bs"
proof -
  have b: "16 \<le> p" "p + total bs < 2 ^ 63" using assms(1) by (simp_all add: heap_at_def)
  have "GET (mem st') (adr (p - 12)) = GET (mem st) (adr (p - 12))"
    "GET (mem st') (adr (p - 8)) = GET (mem st) (adr (p - 8))"
    "GET (mem st') (adr (p + total bs - 4)) = GET (mem st) (adr (p + total bs - 4))"
    by (rule same_on_GET [OF assms(2)], rule order_trans [OF _ assms(4)] order_trans [OF _ assms(5)],
        use b in auto)+
  moreover have "tiles (mem st') p bs"
    using tiles_same [OF _ assms(2,3)] assms(1) b by (simp add: heap_at_def)
  ultimately show ?thesis using assms(1,6,7) by (simp add: heap_at_def)
qed

lemma heap_at_big: "heap_at st p bs \<Longrightarrow> big bs"
  by (auto simp: heap_at_def intro: tiles_big)

lemma heap_at_bounds: "heap_at st p bs \<Longrightarrow> 16 \<le> p \<and> p + total bs < 2 ^ 63 \<and> total bs < 2 ^ 31"
  by (simp add: heap_at_def)

text \<open>Writes to free payloads do not change the heap.\<close>

lemma heap_at_links:
  assumes "heap_at st p bs" and "same_on (- payload False p bs) (mem st) (mem st')"
    and "heap_listp st' = heap_listp st" and "mem_brk st' = mem_brk st"
  shows "heap_at st' p bs"
proof -
  note b = heap_at_big [OF assms(1)]
  show ?thesis
    by (rule heap_at_same [OF assms(1,2) _ _ _ assms(3,4)],
        use b payload_tags in blast, use b heap_at_bounds [OF assms(1)] in \<open>auto dest!: payload_bounds\<close>)
qed

text \<open>A stretch of the heap is divided anew; the links of free blocks outside of it may change, too.\<close>

lemma heap_at_divide:
  assumes "heap_at st p (xs @ old @ ys)" and "tiles (mem st') (p + total xs) new" and "total new = total old"
    and s: "same_on (- ({p + total xs - 4..<p + total xs + total old - 4} \<union> payload False p xs \<union>
      payload False (p + total xs + total old) ys)) (mem st) (mem st')"
    and "heap_listp st' = heap_listp st" and "mem_brk st' = mem_brk st"
  shows "heap_at st' p (xs @ new @ ys)"
proof -
  note b = heap_at_big [OF assms(1)] heap_at_bounds [OF assms(1)]
  let ?e = "p + total (xs @ old @ ys)"
  let ?A = "- ({p + total xs - 4..<p + total xs + total old - 4} \<union> payload False p xs \<union>
      payload False (p + total xs + total old) ys)"
  have k: "{..<p - 4} \<subseteq> ?A" "{?e - 4..} \<subseteq> ?A" using b by (auto dest!: payload_bounds)
  have "GET (mem st') (adr (p - 12)) = GET (mem st) (adr (p - 12))"
    "GET (mem st') (adr (p - 8)) = GET (mem st) (adr (p - 8))"
    by (rule same_on_GET [OF s], rule order_trans [OF _ k(1)], use b in auto)+
  moreover have "GET (mem st') (adr (?e - 4)) = GET (mem st) (adr (?e - 4))"
    by (rule same_on_GET [OF s], rule order_trans [OF _ k(2)]) (use b in auto)
  moreover have "tiles (mem st') p xs"
  proof (rule tiles_same [OF _ s])
    have "x \<notin> payload False (p + total xs + total old) ys \<and> x \<notin> payload False p xs \<and> x < p + total xs - 4"
      if "x \<in> tag_bytes p xs" for x
      using that b payload_tags [of x False p xs] by (auto dest!: tag_bytes_bounds dest: payload_bounds)
    then show "tag_bytes p xs \<subseteq> - ({p + total xs - 4..<p + total xs + total old - 4} \<union> payload False p xs \<union>
        payload False (p + total xs + total old) ys)" by fastforce
  qed (use assms(1) b in \<open>auto simp: heap_at_def\<close>)
  moreover have "tiles (mem st') (p + total xs + total old) ys"
  proof (rule tiles_same [OF _ s])
    have "x \<notin> payload False p xs \<and> x \<notin> payload False (p + total xs + total old) ys \<and> p + total xs + total old - 4 \<le> x"
      if "x \<in> tag_bytes (p + total xs + total old) ys" for x
      using that b payload_tags [of x False "p + total xs + total old" ys]
      by (auto dest!: tag_bytes_bounds dest: payload_bounds)
    then show "tag_bytes (p + total xs + total old) ys \<subseteq> - ({p + total xs - 4..<p + total xs + total old - 4} \<union>
        payload False p xs \<union> payload False (p + total xs + total old) ys)" by fastforce
  qed (use assms(1) b in \<open>auto simp: heap_at_def\<close>)
  ultimately show ?thesis using assms by (simp add: heap_at_def add.assoc)
qed

lemma heap_at_retag:
  assumes h: "heap_at st p (xs @ old @ ys)" and t: "tiles (mem st') (p + total xs) new" "total new = total old"
    and s: "same_on (- {p + total xs - 4..<p + total xs + total old - 4}) (mem st) (mem st')"
    and f: "heap_listp st' = heap_listp st" "mem_brk st' = mem_brk st"
  shows "heap_at st' p (xs @ new @ ys)"
  by (rule heap_at_divide [OF h t same_on_mono [OF s] f]) blast

lemma listed_same:
  assumes "listed st F" and s: "same_on A (mem st) (mem st')" and z: "zone F \<subseteq> A"
    and b: "\<forall>x \<in> F. 4 \<le> x \<and> x + 24 < 2 ^ 64" and "free_listp st' = free_listp st"
  shows "listed st' F"
proof -
  obtain ls where ls: "lists_ok st ls" "set (concat ls) = adr ` F"
    "\<forall>i < 16. \<forall>x \<in> set (ls ! i). index_of (mem st) x = i"
    using assms(1) by (auto simp: listed_def)
  have p: "GETADDR (mem st') (PRED x) = GETADDR (mem st) (PRED x)"
      "GETADDR (mem st') (SUCC x) = GETADDR (mem st) (SUCC x)" "index_of (mem st') x = index_of (mem st) x"
    if h: "x \<in> adr ` F" for x
  proof -
    obtain y where y: "x = adr y" "y \<in> F" using h by blast
    then have i: "{y - 4..<y + 16} \<subseteq> A" "4 \<le> y" "y + 24 < 2 ^ 64" using z b by (auto simp: zone_def)
    have g: "GETADDR (mem st') (adr y) = GETADDR (mem st) (adr y)"
      "GETADDR (mem st') (adr (y + 8)) = GETADDR (mem st) (adr (y + 8))"
      "GET (mem st') (adr (y - 4)) = GET (mem st) (adr (y - 4))"
      by (rule same_on_GETADDR [OF s] same_on_GET [OF s], rule order_trans [OF _ i(1)], use i(2,3) in auto)+
    have "SUCC x = adr (y + 8)" "HDRP x = adr (y - 4)"
      using y i by (simp_all add: SUCC_def DSIZE_def HDRP_def WSIZE_def adr_def of_nat_diff)
    then show "GETADDR (mem st') (PRED x) = GETADDR (mem st) (PRED x)"
      "GETADDR (mem st') (SUCC x) = GETADDR (mem st) (SUCC x)" "index_of (mem st') x = index_of (mem st) x"
      using g y by (simp_all add: PRED_def index_of_def GET_SIZE_def)
  qed
  have len: "length ls = 16" using ls(1) by (simp add: lists_ok_def LIST_NUM_def)
  have m: "x \<in> adr ` F" if "i < 16" "x \<in> set (ls ! i)" for i x
    using that ls(2) len by (metis nth_mem set_concat UN_I)
  have "dll (mem st') NULL (free_listp st' ! i) (ls ! i)" if "i < 16" for i
    using ls(1) that p m [OF that] assms(5)
    by (subst dll_cong [of _ _ "mem st"]) (auto simp: lists_ok_def LIST_NUM_def)
  then have "lists_ok st' ls" using ls(1) assms(5) by (simp add: lists_ok_def LIST_NUM_def)
  moreover have "\<forall>i < 16. \<forall>x \<in> set (ls ! i). index_of (mem st') x = i"
    using ls(3) p m by simp
  ultimately show ?thesis using ls(2) unfolding listed_def by blast
qed

section \<open>Entering and leaving the lists\<close>

lemma free_at_apart: "x \<in> free_at p bs \<Longrightarrow> y \<in> free_at p bs \<Longrightarrow> big bs \<Longrightarrow> x \<noteq> y \<Longrightarrow> x + 24 \<le> y \<or> y + 24 \<le> x"
  by (induction p bs rule: free_at.induct) (fastforce dest: free_at_bounds split: if_splits)+

lemma free_at_header: "x \<in> free_at p bs \<Longrightarrow> {x - 4..<x} \<subseteq> tag_bytes p bs"
  by (induction p bs rule: free_at.induct) (fastforce split: if_splits)+

lemma free_at_heap: "heap_at st p bs \<Longrightarrow> x \<in> free_at p bs \<Longrightarrow> 16 \<le> x \<and> x + 24 < 2 ^ 63 \<and> {x..<x + 16} \<subseteq> payload False p bs"
  using free_at_bounds [OF _ heap_at_big, of x p bs st] heap_at_bounds [of st p bs] links_payload [OF heap_at_big, of st p bs]
  by (fastforce simp: links_def)

text \<open>Addresses of blocks that do not overlap.\<close>

definition spaced :: "nat set \<Rightarrow> bool" where
  "spaced F \<longleftrightarrow> (\<forall>x \<in> F. 16 \<le> x \<and> x + 24 < 2 ^ 63) \<and> (\<forall>x \<in> F. \<forall>y \<in> F. x = y \<or> x + 24 \<le> y \<or> y + 24 \<le> x)"

lemma spaced_free: "heap_at st p bs \<Longrightarrow> F \<subseteq> free_at p bs \<Longrightarrow> spaced F"
  using free_at_heap [of st p bs] free_at_apart [of _ p bs] heap_at_big [of st p bs] unfolding spaced_def by blast

lemma spaced_node:
  assumes "spaced F"
  shows "x \<in> F \<Longrightarrow> node_ok (adr x)" "x \<in> F \<Longrightarrow> y \<in> F \<Longrightarrow> x \<noteq> y \<Longrightarrow> disj_nodes (adr x) (adr y)"
proof -
  have b: "16 \<le> z \<and> z + 24 < 2 ^ 63" if "z \<in> F" for z using assms that by (simp add: spaced_def)
  show "node_ok (adr x)" if "x \<in> F"
    using b [OF that] by (auto simp: node_ok_def NULL_def adr_def unat_of_nat dest: arg_cong [of _ _ unat])
  show "disj_nodes (adr x) (adr y)" if "x \<in> F" "y \<in> F" "x \<noteq> y"
  proof -
    have "x + 24 \<le> y \<or> y + 24 \<le> x" using assms that unfolding spaced_def by blast
    then show ?thesis using b [OF that(1)] b [OF that(2)] by (auto simp: disj_nodes_def)
  qed
qed

lemma links_free: "heap_at st p bs \<Longrightarrow> F \<subseteq> free_at p bs \<Longrightarrow> links F \<subseteq> payload False p bs"
  using links_payload [OF heap_at_big, of st p bs] by (auto simp: links_def)

lemma SUCC_adr: "SUCC (adr x) = adr (x + 8)"
  by (simp add: SUCC_def DSIZE_def adr_def)

lemma HDRP_adr: "4 \<le> x \<Longrightarrow> HDRP (adr x) = adr (x - 4)"
  by (simp add: HDRP_def WSIZE_def adr_def of_nat_diff)

lemma link_writes:
  assumes "16 \<le> x \<and> x + 24 < 2 ^ 63" and "x \<in> F" and m: "same_on (- links F) m (mem s)"
  shows "same_on (- links F) m (mem (PUTADDR (PRED (adr x)) v s))"
    "same_on (- links F) m (mem (PUTADDR (SUCC (adr x)) v s))"
proof -
  have x: "16 \<le> x" "x + 24 < 2 ^ 63" "{x..<x + 16} \<subseteq> links F" using assms(1,2) by (auto simp: links_def)
  show "same_on (- links F) m (mem (PUTADDR (PRED (adr x)) v s))"
    "same_on (- links F) m (mem (PUTADDR (SUCC (adr x)) v s))"
    unfolding PRED_def SUCC_adr
    by (rule same_on_trans [OF m], rule same_on_PUTADDR, unfold disjoint_eq_subset_Compl double_complement,
        rule order_trans [OF _ x(3)], use x(1,2) in auto)+
qed

lemma index_spaced:
  assumes F: "spaced F" and s: "same_on (- links F) (mem st) m'" and y: "y \<in> F"
  shows "index_of m' (adr y) = index_of (mem st) (adr y)"
proof -
  have b: "16 \<le> y" "y + 24 < 2 ^ 63" using F y by (auto simp: spaced_def)
  have "a \<notin> links F" if a: "y - 4 \<le> a" "a < y" for a
  proof
    assume "a \<in> links F"
    then obtain x where x: "x \<in> F" "x \<le> a" "a < x + 16" by (auto simp: links_def)
    then have "x = y \<or> x + 24 \<le> y \<or> y + 24 \<le> x" using F y unfolding spaced_def by blast
    then show False using x a b by auto
  qed
  then have "{y - 4..<y - 4 + 4} \<subseteq> - links F" using b by auto
  from same_on_GET [OF s this] show ?thesis
    using b by (simp add: index_of_def GET_SIZE_def HDRP_adr)
qed

lemma concat_head: "lists_ok st ls \<Longrightarrow> i < 16 \<Longrightarrow> free_listp st ! i \<noteq> NULL \<Longrightarrow> free_listp st ! i \<in> set (concat ls)"
proof -
  assume a: "lists_ok st ls" "i < 16" "free_listp st ! i \<noteq> NULL"
  then have "dll (mem st) NULL (free_listp st ! i) (ls ! i)" "i < length ls" by (simp_all add: lists_ok_def LIST_NUM_def)
  then show ?thesis using a(3) by (cases "ls ! i") (auto intro!: bexI [of _ "ls ! i"] intro: nth_mem dest: sym)
qed

lemma in_concat: "x \<in> set (concat ls) \<longleftrightarrow> (\<exists>j < length ls. x \<in> set (ls ! j))"
  by (auto simp: in_set_conv_nth [of _ ls]) (metis nth_mem)

lemma set_concat_insert:
  "i < length ls \<Longrightarrow> set (concat (ls[i := y # ls ! i])) = insert y (set (concat ls))"
  by (induction ls arbitrary: i) (auto simp: nth_Cons split: nat.split)

text \<open>A block enters the list of its size class: only links of listed blocks and its own are written.\<close>

lemma insert_block_listed:
  assumes l: "listed st F" and F: "spaced (insert q F)" "q \<notin> F"
  shows "listed (insert_block (adr q) st) (insert q F)"
    "same_on (- links (insert q F)) (mem st) (mem (insert_block (adr q) st))"
proof -
  let ?s = "insert_block (adr q) st" and ?K = "- links (insert q F)"
  obtain ls where ls: "lists_ok st ls" "set (concat ls) = adr ` F"
    "\<forall>i < 16. \<forall>x \<in> set (ls ! i). index_of (mem st) x = i"
    using l by (auto simp: listed_def)
  have len: "length ls = 16" using ls(1) by (simp add: lists_ok_def LIST_NUM_def)
  let ?i = "index_of (mem st) (adr q)"
  have i: "?i < 16" by (simp add: index_of_def)
  have lw: "same_on ?K m (mem (PUTADDR (PRED (adr x)) v s))" "same_on ?K m (mem (PUTADDR (SUCC (adr x)) v s))"
    if "x \<in> insert q F" "same_on ?K m (mem s)" for x m s v
    using link_writes [OF _ that] F(1) that(1) by (auto simp: spaced_def)
  have w: "same_on ?K m (mem (PUTADDR (PRED (free_listp st ! ?i)) v s))"
    if h': "free_listp st ! ?i \<noteq> NULL" "same_on ?K m (mem s)" for m s v
  proof -
    obtain x where "x \<in> F" "free_listp st ! ?i = adr x" using concat_head [OF ls(1) i h'(1)] ls(2) by auto
    then show ?thesis using lw(1) [OF _ h'(2)] by simp
  qed
  show s: "same_on ?K (mem st) (mem ?s)"
    by (simp add: insert_block_def Let_def lw w)
  have "\<forall>y \<in> set (concat ls). disj_nodes (adr q) y"
    unfolding ls(2) using spaced_node(2) [OF F(1), of q] F(2) by fastforce
  then have "lists_ok ?s (ls[?i := adr q # ls ! ?i])"
    using insert_block_lists [OF ls(1) spaced_node(1) [OF F(1)] _ refl] by blast
  moreover have c: "set (concat (ls[?i := adr q # ls ! ?i])) = adr ` insert q F"
    using set_concat_insert [of ?i ls "adr q"] i len ls(2) by simp
  moreover have "index_of (mem ?s) x = j" if j: "j < 16" and x: "x \<in> set ((ls[?i := adr q # ls ! ?i]) ! j)" for j x
  proof -
    have "x \<in> set (concat (ls[?i := adr q # ls ! ?i]))" using j x len by (metis length_list_update nth_mem set_concat UN_I)
    then obtain y where y: "x = adr y" "y \<in> insert q F" unfolding c by blast
    have "index_of (mem st) x = j" using ls(3) j x i len by (auto simp: nth_list_update split: if_splits)
    then show ?thesis using index_spaced [OF F(1) s y(2)] y(1) by simp
  qed
  ultimately show "listed ?s (insert q F)" unfolding listed_def by blast
qed

lemma insert_block_heap:
  assumes h: "heap_at st p bs" and l: "listed st F" and F: "F \<subseteq> free_at p bs" "q \<in> free_at p bs" "q \<notin> F"
  shows "heap_at (insert_block (adr q) st) p bs" "listed (insert_block (adr q) st) (insert q F)"
    "same_on (- payload False p bs) (mem st) (mem (insert_block (adr q) st))"
proof -
  have i: "insert q F \<subseteq> free_at p bs" using F by simp
  note r = insert_block_listed [OF l spaced_free [OF h i] F(3)]
  show s: "same_on (- payload False p bs) (mem st) (mem (insert_block (adr q) st))"
    by (rule same_on_mono [OF r(2)]) (use links_free [OF h i] in blast)
  show "heap_at (insert_block (adr q) st) p bs" by (rule heap_at_links [OF h s]) simp_all
  show "listed (insert_block (adr q) st) (insert q F)" by (fact r(1))
qed

lemma set_concat_remove:
  "distinct (concat ls) \<Longrightarrow> i < length ls \<Longrightarrow> y \<in> set (ls ! i) \<Longrightarrow>
     set (concat (ls[i := remove1 y (ls ! i)])) = set (concat ls) - {y}"
proof (induction ls arbitrary: i)
  case (Cons l ls)
  then show ?case
    by (cases i) (auto 0 3 simp: set_remove1_eq dest: nth_mem)
qed simp

text \<open>A block leaves its list: only links of listed blocks are written.\<close>

lemma remove_block_listed:
  assumes l: "listed st F" and F: "spaced F" "q \<in> F"
  shows "listed (remove_block (adr q) st) (F - {q})" "same_on (- links F) (mem st) (mem (remove_block (adr q) st))"
proof -
  let ?s = "remove_block (adr q) st"
  obtain ls where ls: "lists_ok st ls" "set (concat ls) = adr ` F"
    "\<forall>i < 16. \<forall>x \<in> set (ls ! i). index_of (mem st) x = i"
    using l by (auto simp: listed_def)
  have len: "length ls = 16" and n: "nodes_ok (concat ls)" using ls(1) by (simp_all add: lists_ok_def LIST_NUM_def)
  let ?i = "index_of (mem st) (adr q)"
  have i: "?i < 16" by (simp add: index_of_def)
  have "adr q \<in> set (concat ls)" using F(2) ls(2) by auto
  then obtain j where "j < 16" "adr q \<in> set (ls ! j)" using len by (auto simp only: in_concat)
  then have q: "adr q \<in> set (ls ! ?i)" using ls(3) by auto
  then obtain xs ys where xy: "ls ! ?i = xs @ adr q # ys" by (auto simp: in_set_conv_decomp)
  have d: "dll (mem st) NULL (free_listp st ! ?i) (xs @ adr q # ys)"
    using ls(1) i xy by (auto simp: lists_ok_def LIST_NUM_def)
  note nb = dll_neighbours [OF d]
  have "set (ls ! ?i) \<subseteq> adr ` F" using ls(2) i len in_concat [of _ ls] by auto
  then have nF: "x \<in> adr ` F" if "x \<in> set xs \<or> x \<in> set ys" for x using that xy by auto
  have p: "PREV_FBLKP (mem st) (adr q) \<in> adr ` F" if "PREV_FBLKP (mem st) (adr q) \<noteq> NULL"
    using that nb(1) nF [of "last xs"] by (auto split: if_splits)
  have x: "NEXT_FBLKP (mem st) (adr q) \<in> adr ` F" if "NEXT_FBLKP (mem st) (adr q) \<noteq> NULL"
    using that nb(2) nF by (auto split: list.splits)
  have w: "same_on (- links F) m (mem (PUTADDR (PRED x) v s))" "same_on (- links F) m (mem (PUTADDR (SUCC x) v s))"
    if "x \<in> adr ` F" "same_on (- links F) m (mem s)" for x m s v
    using that link_writes [OF _ _ that(2)] F(1) by (auto simp: spaced_def)
  show s: "same_on (- links F) (mem st) (mem ?s)"
    using F(2) p x by (simp add: remove_block_def Let_def w)
  have "lists_ok ?s (ls[?i := remove1 (adr q) (ls ! ?i)])" by (rule remove_block_lists [OF ls(1) refl q])
  moreover have c: "set (concat (ls[?i := remove1 (adr q) (ls ! ?i)])) = adr ` (F - {q})"
  proof -
    have "x < 2 ^ 63" if "x \<in> F" for x using that F(1) by (auto simp: spaced_def)
    from this [of q] this have "x = q" if "x \<in> F" "adr x = adr q" for x
      using that F(2) adr_eq [of x q] by force
    then have "adr ` F - {adr q} = adr ` (F - {q})" by auto
    then show ?thesis using set_concat_remove [OF nodes_ok_distinct [OF n] _ q] i len ls(2) by simp
  qed
  moreover have "index_of (mem ?s) x = j" if j: "j < 16" and x: "x \<in> set ((ls[?i := remove1 (adr q) (ls ! ?i)]) ! j)" for j x
  proof -
    have "x \<in> set (ls ! j)" using x i len by (auto simp: nth_list_update split: if_splits dest: set_remove1_subset [THEN subsetD])
    then have "x \<in> set (concat ls)" "index_of (mem st) x = j" using ls(3) j len by (auto intro!: bexI [of _ "ls ! j"])
    moreover from this(1) obtain y where "x = adr y" "y \<in> F" using ls(2) by auto
    ultimately show ?thesis using index_spaced [OF F(1) s] by simp
  qed
  ultimately show "listed ?s (F - {q})" unfolding listed_def by blast
qed

lemma remove_block_heap:
  assumes h: "heap_at st p bs" and l: "listed st F" and F: "F \<subseteq> free_at p bs" "q \<in> F"
  shows "heap_at (remove_block (adr q) st) p bs" "listed (remove_block (adr q) st) (F - {q})"
    "same_on (- payload False p bs) (mem st) (mem (remove_block (adr q) st))"
proof -
  note r = remove_block_listed [OF l spaced_free [OF h F(1)] F(2)]
  show s: "same_on (- payload False p bs) (mem st) (mem (remove_block (adr q) st))"
    by (rule same_on_mono [OF r(2)]) (use links_free [OF h F(1)] in blast)
  show "heap_at (remove_block (adr q) st) p bs" by (rule heap_at_links [OF h s]) (simp_all add: remove_block_def Let_def)
  show "listed (remove_block (adr q) st) (F - {q})" by (fact r(1))
qed

end
