(* ===== verification/MmCoalesce.thy ===== *)
theory MmCoalesce
  imports MmBlocks
begin

text \<open>
  \<open>coalesce\<close> of \<open>lab7/mm.c\<close> on the list of blocks: what the tag macros read in a heap of blocks, what writing
  the two tags of a block does, and the four cases of joining a free block with its neighbours.
\<close>

section \<open>Reading and writing tags\<close>

lemma tag_size_8: "8 dvd n \<Longrightarrow> tag n a AND - 8 = of_nat n"
  using tag_size [of n a] by simp

lemma tag_pack_simps [simp]:
  "n < 2 ^ 64 \<Longrightarrow> ucast (PACK (of_nat n) 0) = tag n False" "n < 2 ^ 64 \<Longrightarrow> ucast (PACK (of_nat n) 1) = tag n True"
  using tag_pack [of n False] tag_pack [of n True] by simp_all

lemma ucast_of_nat: "n < 2 ^ 32 \<Longrightarrow> ucast (of_nat n :: 32 word) = (of_nat n :: addr)"
  by (rule word_unat_eq_iff [THEN iffD2]) (simp add: unsigned_ucast_eq unat_of_nat take_bit_nat_eq_self)

lemma header_reads:
  assumes "GET m (adr (q - 4)) = tag n a" and "8 dvd n" and "n < 2 ^ 32" and "4 \<le> q"
  shows "GET_SIZE m (HDRP (adr q)) = of_nat n" "SIZE m (HDRP (adr q)) = of_nat n" "GET_ALLOC m (HDRP (adr q)) = a"
    "NEXT_BLKP m (adr q) = adr (q + n)" "8 \<le> q + n \<Longrightarrow> FTRP m (adr q) = adr (q + n - 8)"
proof -
  show g: "GET_SIZE m (HDRP (adr q)) = of_nat n" "GET_ALLOC m (HDRP (adr q)) = a"
    using assms by (simp_all add: HDRP_adr GET_SIZE_def GET_ALLOC_def tag_size_8 tag_alloc)
  show s: "SIZE m (HDRP (adr q)) = of_nat n" using g assms(3) by (simp add: SIZE_def ucast_of_nat)
  show "NEXT_BLKP m (adr q) = adr (q + n)"
    using s by (simp add: NEXT_BLKP_def HDRP_def adr_def)
  show "FTRP m (adr q) = adr (q + n - 8)" if "8 \<le> q + n"
    using s that by (simp add: FTRP_def DSIZE_def adr_def of_nat_diff)
qed

lemma footer_reads:
  assumes "GET m (adr (q - 8)) = tag n a" and "8 dvd n" and "n < 2 ^ 32" and "8 \<le> q" and "n \<le> q"
  shows "PREV_BLKP m (adr q) = adr (q - n)"
proof -
  have "adr q - DSIZE = adr (q - 8)" using assms(4) by (simp add: DSIZE_def adr_def of_nat_diff)
  then have "SIZE m (adr q - DSIZE) = of_nat n"
    using assms by (simp add: SIZE_def GET_SIZE_def tag_size_8 ucast_of_nat)
  then show ?thesis using assms(5) by (simp add: PREV_BLKP_def adr_def of_nat_diff)
qed

lemma tiles_Cons_reads:
  assumes "tiles m q ((n, a) # bs)" and "4 \<le> q" and "n < 2 ^ 31"
  shows "GET_SIZE m (HDRP (adr q)) = of_nat n" "SIZE m (HDRP (adr q)) = of_nat n" "GET_ALLOC m (HDRP (adr q)) = a"
    "NEXT_BLKP m (adr q) = adr (q + n)" "FTRP m (adr q) = adr (q + n - 8)" "PREV_BLKP m (adr (q + n)) = adr q"
    "GET_ALLOC m (FTRP m (adr q)) = a" "GET_SIZE m (FTRP m (adr q)) = of_nat n"
proof -
  have t: "GET m (adr (q - 4)) = tag n a" "GET m (adr (q + n - 8)) = tag n a" "8 dvd n" "24 \<le> n"
    using assms(1) by simp_all
  show h: "GET_SIZE m (HDRP (adr q)) = of_nat n" "SIZE m (HDRP (adr q)) = of_nat n" "GET_ALLOC m (HDRP (adr q)) = a"
    "NEXT_BLKP m (adr q) = adr (q + n)" "FTRP m (adr q) = adr (q + n - 8)"
    using header_reads [OF t(1,3)] assms(2,3) t(4) by simp_all
  show "PREV_BLKP m (adr (q + n)) = adr q" using footer_reads [of m "q + n" n a] t assms(2,3) by simp
  show "GET_ALLOC m (FTRP m (adr q)) = a" "GET_SIZE m (FTRP m (adr q)) = of_nat n"
    using t unfolding h by (simp_all add: GET_ALLOC_def GET_SIZE_def tag_size_8 tag_alloc)
qed

text \<open>A block in the middle of the heap, and what is read of its neighbours.\<close>

lemma heap_at_block:
  assumes "heap_at st p (xs @ (n, a) # ys)" and "q = p + total xs"
  shows "tiles (mem st) q ((n, a) # ys)" "4 \<le> q" "n < 2 ^ 31" "24 \<le> n" "8 dvd n" "q + n < 2 ^ 63"
  using assms by (auto simp: heap_at_def)

lemma next_alloc:
  assumes "heap_at st p (xs @ ys)" and "q = p + total xs"
  shows "GET_ALLOC (mem st) (HDRP (adr q)) \<longleftrightarrow> ys = [] \<or> snd (hd ys)"
proof (cases ys)
  case Nil
  have "16 \<le> q" "GET (mem st) (adr (q - 4)) = tag 0 True"
    using assms Nil by (auto simp: heap_at_def)
  then show ?thesis using header_reads(3) [of "mem st" q 0 True] Nil by simp
next
  case (Cons y zs)
  then show ?thesis using tiles_Cons_reads(3) [OF heap_at_block(1-3)] assms by (cases y) auto
qed

lemma prev_alloc:
  assumes "heap_at st p (xs @ ys)" and "q = p + total xs"
  shows "GET_ALLOC (mem st) (FTRP (mem st) (PREV_BLKP (mem st) (adr q))) \<longleftrightarrow> xs = [] \<or> snd (last xs)"
proof (cases xs rule: rev_cases)
  case Nil
  have t: "16 \<le> q" "GET (mem st) (adr (q - 8 - 4)) = tag 8 True" "GET (mem st) (adr (q - 8)) = tag 8 True"
    using assms Nil by (auto simp: heap_at_def)
  have "PREV_BLKP (mem st) (adr q) = adr (q - 8)" using footer_reads [OF t(3)] t(1) by simp
  moreover have "FTRP (mem st) (adr (q - 8)) = adr (q - 8)" using header_reads(5) [OF t(2)] t(1) by simp
  moreover have "GET_ALLOC (mem st) (adr (q - 8))" using t(3) tag_alloc [of 8 True] by (simp add: GET_ALLOC_def)
  ultimately show ?thesis using Nil by simp
next
  case (snoc ws w)
  obtain n a where w: "w = (n, a)" by (cases w)
  have h: "heap_at st p (ws @ (n, a) # ys)" using assms(1) snoc w by simp
  note r = tiles_Cons_reads(6,7) [OF heap_at_block(1-3) [OF h refl]]
  have q: "q = p + total ws + n" using assms(2) snoc w by simp
  show ?thesis unfolding q r using snoc w by simp
qed

lemma put_two:
  assumes v: "ucast v = tag n a" and n: "24 \<le> n" "8 dvd n" and q: "4 \<le> q" "q + n < 2 ^ 63"
    and s: "st' = PUT (adr (q - 4)) v (PUT (adr (q + n - 8)) v st) \<or> st' = PUT (adr (q + n - 8)) v (PUT (adr (q - 4)) v st)"
  shows "tiles (mem st') q [(n, a)]" "same_on (- tag_bytes q [(n, a)]) (mem st) (mem st')"
    "free_listp st' = free_listp st" "heap_listp st' = heap_listp st" "mem_brk st' = mem_brk st"
proof -
  have w: "same_on A (mem u) (mem (PUT (adr (q - 4)) v u))" if "{q - 4..<q} \<inter> A = {}" for A u
    by (rule same_on_PUT) (use that q in auto)
  have w': "same_on A (mem u) (mem (PUT (adr (q + n - 8)) v u))" if "{q + n - 8..<q + n - 4} \<inter> A = {}" for A u
    by (rule same_on_PUT) (use that q n in auto)
  have g: "GET (mem (PUT (adr (q - 4)) v u)) (adr (q + n - 8)) = GET (mem u) (adr (q + n - 8))"
    "GET (mem (PUT (adr (q + n - 8)) v u)) (adr (q - 4)) = GET (mem u) (adr (q - 4))" for u
    by (rule same_on_GET [OF w [of "{q..}"]] same_on_GET [OF w' [of "{..<q}"]], use n q in auto)+
  show "tiles (mem st') q [(n, a)]" using s n g v by auto
  show "same_on (- tag_bytes q [(n, a)]) (mem st) (mem st')"
    using s same_on_trans [OF w' w] same_on_trans [OF w w']
    by (elim disjE) (simp_all add: disjoint_eq_subset_Compl subset_iff)
  show "free_listp st' = free_listp st" "heap_listp st' = heap_listp st" "mem_brk st' = mem_brk st"
    using s by auto
qed

lemma put_tags_block:
  assumes v: "ucast v = tag n a" and n: "24 \<le> n" "8 dvd n" "n < 2 ^ 31" and q: "4 \<le> q" "q + n < 2 ^ 63"
  shows "tiles (mem (put_tags (adr q) v st)) q [(n, a)]"
    "same_on (- tag_bytes q [(n, a)]) (mem st) (mem (put_tags (adr q) v st))"
    "free_listp (put_tags (adr q) v st) = free_listp st" "heap_listp (put_tags (adr q) v st) = heap_listp st"
    "mem_brk (put_tags (adr q) v st) = mem_brk st"
proof -
  have "GET (mem (PUT (adr (q - 4)) v st)) (adr (q - 4)) = tag n a" using v by simp
  then have e: "put_tags (adr q) v st = PUT (adr (q + n - 8)) v (PUT (adr (q - 4)) v st)"
    using header_reads(5) n q by (simp add: put_tags_def HDRP_adr)
  show "tiles (mem (put_tags (adr q) v st)) q [(n, a)]"
    "same_on (- tag_bytes q [(n, a)]) (mem st) (mem (put_tags (adr q) v st))"
    "free_listp (put_tags (adr q) v st) = free_listp st" "heap_listp (put_tags (adr q) v st) = heap_listp st"
    "mem_brk (put_tags (adr q) v st) = mem_brk st"
    using put_two [OF v n(1,2) q disjI2 [OF e]] by simp_all
qed

section \<open>What is kept\<close>

text \<open>The payloads of allocated blocks, and everything outside the heap.\<close>

definition kept :: "nat \<Rightarrow> block list \<Rightarrow> nat set" where
  "kept p bs = payload True p bs \<union> - {p - 4..<p + total bs - 4}"

lemma kept_free: "big bs \<Longrightarrow> kept p bs \<subseteq> - payload False p bs"
  using payload_disjoint [of _ p bs] payload_bounds [of _ False p bs] by (fastforce simp: kept_def)

lemma kept_stretch:
  assumes "big (xs @ old @ ys)" and "payload True (p + total xs) old = {}"
  shows "kept p (xs @ old @ ys) \<subseteq> - {p + total xs - 4..<p + total xs + total old - 4}"
  using assms by (auto simp: kept_def dest!: payload_bounds)

lemma free_zone:
  assumes "heap_at st p (xs @ old @ ys)"
  shows "zone (free_at p xs \<union> free_at (p + total xs + total old) ys) \<subseteq> - {p + total xs - 4..<p + total xs + total old - 4}"
    "\<forall>x \<in> free_at p xs \<union> free_at (p + total xs + total old) ys. 4 \<le> x \<and> x + 24 < 2 ^ 64"
  using heap_at_big [OF assms] heap_at_bounds [OF assms]
  by (auto simp: zone_def add.assoc dest!: free_at_bounds)

text \<open>A stretch without listed blocks becomes one block.\<close>

lemma retag_one:
  assumes h: "heap_at st p (xs @ old @ ys)" and l: "listed st (free_at p xs \<union> free_at (p + total xs + n) ys)"
    and n: "total old = n" "24 \<le> n" and t: "tiles (mem st') (p + total xs) [(n, a)]"
    and s: "same_on (- tag_bytes (p + total xs) [(n, a)]) (mem st) (mem st')"
    and f: "free_listp st' = free_listp st" "heap_listp st' = heap_listp st" "mem_brk st' = mem_brk st"
  shows "heap_at st' p (xs @ (n, a) # ys)" "listed st' (free_at p xs \<union> free_at (p + total xs + n) ys)"
proof -
  have b: "- {p + total xs - 4..<p + total xs + total old - 4} \<subseteq> - tag_bytes (p + total xs) [(n, a)]"
    using n heap_at_bounds [OF h] by auto
  note s' = same_on_mono [OF s b]
  show "heap_at st' p (xs @ (n, a) # ys)"
    using heap_at_retag [OF h t _ s' f(2,3)] n by simp
  show "listed st' (free_at p xs \<union> free_at (p + total xs + n) ys)"
    using listed_same [OF l s' _ _ f(1)] free_zone [OF h] n by simp
qed

text \<open>Entering the one free block that is in no list.\<close>

lemma enter_block:
  assumes h: "heap_at st p (xs @ (n, False) # ys)" and q: "q = p + total xs"
    and l: "listed st (free_at p xs \<union> free_at (q + n) ys)"
  shows "heap_at (insert_block (adr q) st) p (xs @ (n, False) # ys)"
    "listed (insert_block (adr q) st) (free_at p (xs @ (n, False) # ys))"
    "same_on (kept p (xs @ (n, False) # ys)) (mem st) (mem (insert_block (adr q) st))"
proof -
  let ?F = "free_at p xs \<union> free_at (q + n) ys"
  note b = heap_at_big [OF h]
  have F: "?F \<subseteq> free_at p (xs @ (n, False) # ys)" "q \<in> free_at p (xs @ (n, False) # ys)" "q \<notin> ?F"
    using q b by (auto dest!: free_at_bounds)
  have e: "free_at p (xs @ (n, False) # ys) = insert q ?F" using q by auto
  show "heap_at (insert_block (adr q) st) p (xs @ (n, False) # ys)" by (rule insert_block_heap(1) [OF h l F])
  show "listed (insert_block (adr q) st) (free_at p (xs @ (n, False) # ys))"
    unfolding e by (rule insert_block_heap(2) [OF h l F])
  show "same_on (kept p (xs @ (n, False) # ys)) (mem st) (mem (insert_block (adr q) st))"
    by (rule same_on_mono [OF insert_block_heap(3) [OF h l F] kept_free [OF b]])
qed

text \<open>A free block leaves its list.\<close>

lemma leave_block:
  assumes h: "heap_at st p (xs @ (n, False) # ys)" and q: "q = p + total xs"
    and l: "listed st F" and F: "F \<subseteq> free_at p (xs @ (n, False) # ys)" "q \<in> F"
  shows "heap_at (remove_block (adr q) st) p (xs @ (n, False) # ys)" "listed (remove_block (adr q) st) (F - {q})"
    "same_on (kept p (xs @ (n, False) # ys)) (mem st) (mem (remove_block (adr q) st))"
  by (rule remove_block_heap [OF h l F], rule remove_block_heap [OF h l F])
    (rule same_on_mono [OF remove_block_heap(3) [OF h l F] kept_free [OF heap_at_big [OF h]]])

section \<open>Coalescing\<close>

definition free_left :: "block list \<Rightarrow> bool" where "free_left xs \<longleftrightarrow> xs \<noteq> [] \<and> \<not> snd (last xs)"
definition free_right :: "block list \<Rightarrow> bool" where "free_right ys \<longleftrightarrow> ys \<noteq> [] \<and> \<not> snd (hd ys)"

lemma free_sides [simp]:
  "\<not> free_left []" "free_left (xs @ [(n, a)]) \<longleftrightarrow> \<not> a" "\<not> free_right []" "free_right ((n, a) # ys) \<longleftrightarrow> \<not> a"
  by (simp_all add: free_left_def free_right_def)

text \<open>The free block of \<open>n\<close> bytes between \<open>xs\<close> and \<open>ys\<close> and its free neighbours become one.\<close>

definition left_part :: "block list \<Rightarrow> block list" where
  "left_part xs = (if free_left xs then butlast xs else xs)"

definition right_part :: "block list \<Rightarrow> block list" where
  "right_part ys = (if free_right ys then tl ys else ys)"

definition merged :: "block list \<Rightarrow> nat \<Rightarrow> block list \<Rightarrow> nat" where
  "merged xs n ys = (if free_left xs then fst (last xs) else 0) + n + (if free_right ys then fst (hd ys) else 0)"

definition coalesced :: "block list \<Rightarrow> nat \<Rightarrow> block list \<Rightarrow> block list" where
  "coalesced xs n ys = left_part xs @ (merged xs n ys, False) # right_part ys"

lemma coalesced_total [simp]: "total (coalesced xs n ys) = total xs + n + total ys"
proof -
  have l: "total (left_part xs) + (if free_left xs then fst (last xs) else 0) = total xs"
    by (cases xs rule: rev_cases) (auto simp: left_part_def free_left_def)
  have r: "(if free_right ys then fst (hd ys) else 0) + total (right_part ys) = total ys"
    by (cases ys) (auto simp: right_part_def free_right_def)
  show ?thesis using l r by (simp add: coalesced_def merged_def)
qed

lemma coalesced_cases:
  "\<not> free_left xs \<Longrightarrow> \<not> free_right ys \<Longrightarrow> coalesced xs n ys = xs @ (n, False) # ys"
  "\<not> free_left xs \<Longrightarrow> coalesced xs n ((k, False) # ys) = xs @ (n + k, False) # ys"
  "\<not> free_right ys \<Longrightarrow> coalesced (xs @ [(k, False)]) n ys = xs @ (k + n, False) # ys"
  "coalesced (xs @ [(k, False)]) n ((j, False) # ys) = xs @ (k + n + j, False) # ys"
  by (simp_all add: coalesced_def left_part_def right_part_def merged_def)

lemma payload_free_left: "free_left xs \<Longrightarrow> payload True p (butlast xs) = payload True p xs"
  by (cases xs rule: rev_cases) (auto simp: free_left_def)

lemma payload_coalesced: "payload True p (coalesced xs n ys) = payload True p (xs @ (n, False) # ys)"
proof -
  have r: "payload True (q + n) ys = payload True (q + n + fst (hd ys)) (tl ys)" if "free_right ys" for q
    using that by (cases ys) (auto simp: free_right_def)
  have t: "total xs = total (butlast xs) + fst (last xs)" if "free_left xs"
    using that by (cases xs rule: rev_cases) (auto simp: free_left_def)
  show ?thesis
    using r [of "p + total xs"] payload_free_left [of xs p] t
    by (auto simp: coalesced_def left_part_def right_part_def merged_def add.assoc)
qed

lemma kept_coalesced: "kept p (coalesced xs n ys) = kept p (xs @ (n, False) # ys)"
  by (simp only: kept_def payload_coalesced) (simp add: add.assoc)

text \<open>A stretch of unlisted blocks without payload becomes a free block.\<close>

lemma merge_block:
  assumes h: "heap_at st p (xs @ old @ ys)" and l: "listed st (free_at p xs \<union> free_at (p + total xs + n) ys)"
    and n: "total old = n" "24 \<le> n" "8 dvd n" and o: "payload True (p + total xs) old = {}"
    and r: "r = p + total xs" and v: "ucast v = tag n False"
    and s: "st' = PUT (adr (r - 4)) v (PUT (adr (r + n - 8)) v st) \<or> st' = PUT (adr (r + n - 8)) v (PUT (adr (r - 4)) v st)"
  shows "heap_at (insert_block (adr r) st') p (xs @ (n, False) # ys)"
    "listed (insert_block (adr r) st') (free_at p (xs @ (n, False) # ys))"
    "same_on (kept p (xs @ old @ ys)) (mem st) (mem (insert_block (adr r) st'))"
proof -
  have q: "4 \<le> r" "r + n < 2 ^ 63" using r n heap_at_bounds [OF h] by simp_all
  note t = put_two [OF v n(2,3) q s]
  have h': "heap_at st' p (xs @ (n, False) # ys)" "listed st' (free_at p xs \<union> free_at (r + n) ys)"
    using retag_one [OF h l n(1,2), of st' False] t r by simp_all
  note e = enter_block [OF h'(1) r h'(2)]
  show "heap_at (insert_block (adr r) st') p (xs @ (n, False) # ys)"
    "listed (insert_block (adr r) st') (free_at p (xs @ (n, False) # ys))" by (fact e(1,2))+
  have "{r - 4..<r + total old - 4} \<subseteq> - kept p (xs @ old @ ys)"
    using kept_stretch [OF heap_at_big [OF h] o] r by auto
  moreover have "tag_bytes r [(n, False)] \<subseteq> {r - 4..<r + total old - 4}" using n by auto
  ultimately have "same_on (kept p (xs @ old @ ys)) (mem st) (mem st')" by (intro same_on_mono [OF t(2)]) blast
  moreover have "kept p (xs @ (n, False) # ys) = kept p (xs @ old @ ys)" using o n(1) r by (simp add: kept_def)
  ultimately show "same_on (kept p (xs @ old @ ys)) (mem st) (mem (insert_block (adr r) st'))"
    using same_on_trans e(3) by simp
qed

definition freed :: "mm_t \<Rightarrow> nat \<Rightarrow> nat set \<Rightarrow> block list \<Rightarrow> mm_t \<Rightarrow> bool" where
  "freed st p A bs st' \<longleftrightarrow> heap_at st' p bs \<and> listed st' (free_at p bs) \<and> same_on A (mem st) (mem st')"

lemma coalesce_next:
  assumes h: "heap_at st p (xs @ (n, False) # (k, False) # ys)" and q: "q = p + total xs" and x: "\<not> free_left xs"
    and l: "listed st (free_at p xs \<union> free_at (q + n) ((k, False) # ys))"
  shows "\<exists>st'. coalesce (adr q) st = (adr q, st') \<and>
    freed st p (kept p (xs @ (n, False) # (k, False) # ys)) (xs @ (n + k, False) # ys) st'"
proof -
  let ?bs = "xs @ (n, False) # (k, False) # ys"
  have h2: "heap_at st p ((xs @ [(n, False)]) @ (k, False) # ys)" using h by simp
  have q': "q + n = p + total (xs @ [(n, False)])" using q by simp
  note b = heap_at_block [OF h q] and b2 = heap_at_block [OF h2, of "q + n"]
  let ?s = "remove_block (adr (q + n)) st"
  have l1: "heap_at ?s p ?bs" "listed ?s (free_at p xs \<union> free_at (q + (n + k)) ys)" "same_on (kept p ?bs) (mem st) (mem ?s)"
  proof -
    have e: "free_at p xs \<union> free_at (q + n) ((k, False) # ys) - {q + n} = free_at p xs \<union> free_at (q + (n + k)) ys"
      using heap_at_big [OF h] q by (auto simp: add.assoc dest!: free_at_bounds)
    have sub: "free_at p xs \<union> free_at (q + n) ((k, False) # ys) \<subseteq> free_at p ((xs @ [(n, False)]) @ (k, False) # ys)"
      using q by (auto simp: add.assoc)
    show "heap_at ?s p ?bs" "listed ?s (free_at p xs \<union> free_at (q + (n + k)) ys)" "same_on (kept p ?bs) (mem st) (mem ?s)"
      using leave_block [OF h2 q' l sub, unfolded e] by simp_all
  qed
  have c: "GET_ALLOC (mem st) (FTRP (mem st) (PREV_BLKP (mem st) (adr q)))" "\<not> GET_ALLOC (mem st) (HDRP (adr (q + n)))"
    using prev_alloc [OF h q] x next_alloc [OF h2, of "q + n"] q by (auto simp: free_left_def)
  note r = tiles_Cons_reads [OF b(1-3)]
  have h3: "heap_at ?s p ((xs @ [(n, False)]) @ (k, False) # ys)" using l1(1) by simp
  note r1 = tiles_Cons_reads [OF heap_at_block(1-3) [OF l1(1) q]]
  note r2 = tiles_Cons_reads [OF heap_at_block(1-3) [OF h3 q']]
  let ?v = "PACK (of_nat n + of_nat k) 0 :: addr"
  have nk: "n + k < 2 ^ 31" "24 \<le> n + k" "8 dvd n + k" using b b2 q' heap_at_bounds [OF h] by auto
  have v: "ucast ?v = tag (n + k) False" using tag_pack_simps(1) [of "n + k"] nk by simp
  have g: "GET (mem (PUT (adr (q - 4)) ?v ?s)) (adr (q - 4)) = tag (n + k) False" using v by simp
  have e: "coalesce (adr q) st = (adr q, insert_block (adr q) (PUT (adr (q + (n + k) - 8)) ?v (PUT (adr (q - 4)) ?v ?s)))"
    unfolding coalesce_def Let_def using c r(2,4) r1(4) r2(2) header_reads(5) [OF g nk(3)] nk b(2)
    by (simp add: put_tags_def HDRP_adr add.assoc)
  have l2: "heap_at ?s p (xs @ [(n, False), (k, False)] @ ys)" using l1(1) by simp
  note m = merge_block [OF l2 _ _ nk(2,3) _ q v disjI2 [OF refl]]
  show ?thesis unfolding e freed_def using m l1(2,3) q same_on_trans [OF l1(3)] by (simp add: add.assoc)
qed

lemma free_at_minus:
  "big (xs @ (n, False) # ys) \<Longrightarrow> q = p + total xs \<Longrightarrow> free_at p (xs @ (n, False) # ys) - {q} = free_at p xs \<union> free_at (q + n) ys"
  by (auto dest!: free_at_bounds)

lemma coalesce_prev:
  assumes h: "heap_at st p (xs @ (k, False) # (n, False) # ys)" and r: "r = p + total xs" and y: "\<not> free_right ys"
    and l: "listed st (free_at p (xs @ [(k, False)]) \<union> free_at (r + k + n) ys)"
  shows "\<exists>st'. coalesce (adr (r + k)) st = (adr r, st') \<and>
    freed st p (kept p (xs @ (k, False) # (n, False) # ys)) (xs @ (k + n, False) # ys) st'"
proof -
  let ?bs = "xs @ (k, False) # (n, False) # ys"
  let ?q = "r + k"
  have h2: "heap_at st p ((xs @ [(k, False)]) @ (n, False) # ys)" using h by simp
  have h3: "heap_at st p ((xs @ [(k, False), (n, False)]) @ ys)" using h by simp
  have q: "?q = p + total (xs @ [(k, False)])" "?q + n = p + total (xs @ [(k, False), (n, False)])" using r by simp_all
  note b = heap_at_block [OF h r] and b2 = heap_at_block [OF h2 q(1)]
  let ?s = "remove_block (adr r) st"
  have l1: "heap_at ?s p ?bs" "listed ?s (free_at p xs \<union> free_at (r + (k + n)) ys)" "same_on (kept p ?bs) (mem st) (mem ?s)"
  proof -
    have e: "free_at p (xs @ [(k, False)]) \<union> free_at (r + k + n) ys - {r} = free_at p xs \<union> free_at (r + (k + n)) ys"
      using heap_at_big [OF h] r by (auto simp: add.assoc dest!: free_at_bounds)
    have sub: "free_at p (xs @ [(k, False)]) \<union> free_at (r + k + n) ys \<subseteq> free_at p ?bs"
      using r by auto
    show "heap_at ?s p ?bs" "listed ?s (free_at p xs \<union> free_at (r + (k + n)) ys)" "same_on (kept p ?bs) (mem st) (mem ?s)"
      using leave_block [OF h r l sub, unfolded e] r by simp_all
  qed
  have c: "\<not> GET_ALLOC (mem st) (FTRP (mem st) (PREV_BLKP (mem st) (adr ?q)))" "GET_ALLOC (mem st) (HDRP (adr (?q + n)))"
    using prev_alloc [OF h2 q(1)] next_alloc [OF h3 q(2)] y by (auto simp: free_right_def)
  note t = tiles_Cons_reads [OF b2(1-3)] and t0 = tiles_Cons_reads [OF b(1-3)]
  have h1: "heap_at ?s p ((xs @ [(k, False)]) @ (n, False) # ys)" using l1(1) by simp
  note t1 = tiles_Cons_reads [OF heap_at_block(1-3) [OF h1 q(1)]] and t2 = tiles_Cons_reads [OF heap_at_block(1-3) [OF l1(1) r]]
  let ?v = "PACK (of_nat n + of_nat k) 0 :: addr"
  have nk: "k + n < 2 ^ 31" "24 \<le> k + n" "8 dvd k + n" using b b2 q heap_at_bounds [OF h] by auto
  have v: "ucast ?v = tag (k + n) False" using tag_pack_simps(1) [of "k + n"] nk by (simp add: add.commute)
  let ?f = "PUT (adr (r + (k + n) - 8)) ?v ?s"
  let ?g = "PUT (adr (r - 4)) ?v ?f"
  have kept: "GET m' (adr (r + k - 8)) = tag k False" if "same_on {r..<r + k} (mem ?s) m'" for m'
  proof -
    have "{r + k - 8..<r + k - 8 + 4} \<subseteq> {r..<r + k}" "r + k - 8 + 4 < 2 ^ 64" using b b2 by auto
    then show ?thesis using same_on_GET [OF that] heap_at_block(1) [OF l1(1) r] by simp
  qed
  have p1: "PREV_BLKP m' (adr ?q) = adr r" if "same_on {r..<r + k} (mem ?s) m'" for m'
    using footer_reads [OF kept [OF that]] b by simp
  have s1: "same_on {r..<r + k} (mem ?s) (mem ?f)" by (rule same_on_PUT) (use b b2 q in auto)
  have s2: "same_on {r..<r + k} (mem ?s) (mem ?g)"
    by (rule same_on_trans [OF s1], rule same_on_PUT) (use b in auto)
  have e: "coalesce (adr ?q) st = (adr r, insert_block (adr r) ?g)"
    unfolding coalesce_def Let_def using c t(2,4) t0(6) t1(5) t2(2,6) p1 [OF s1] p1 [OF s2] b(2)
    by (simp add: HDRP_adr add.assoc)
  have l2: "heap_at ?s p (xs @ [(k, False), (n, False)] @ ys)" using l1(1) by simp
  note m = merge_block [OF l2 _ _ nk(2,3) _ r v disjI1 [OF refl]]
  show ?thesis unfolding e freed_def using m l1(2,3) r same_on_trans [OF l1(3)] by (simp add: add.assoc)
qed

lemma coalesce_both:
  assumes h: "heap_at st p (xs @ (k, False) # (n, False) # (j, False) # ys)" and r: "r = p + total xs"
    and l: "listed st (free_at p (xs @ [(k, False)]) \<union> free_at (r + k + n) ((j, False) # ys))"
  shows "\<exists>st'. coalesce (adr (r + k)) st = (adr r, st') \<and>
    freed st p (kept p (xs @ (k, False) # (n, False) # (j, False) # ys)) (xs @ (k + n + j, False) # ys) st'"
proof -
  let ?bs = "xs @ (k, False) # (n, False) # (j, False) # ys"
  let ?q = "r + k" and ?x = "r + k + n"
  have h2: "heap_at st p ((xs @ [(k, False)]) @ (n, False) # (j, False) # ys)" using h by simp
  have h3: "heap_at st p ((xs @ [(k, False), (n, False)]) @ (j, False) # ys)" using h by simp
  have q: "?q = p + total (xs @ [(k, False)])" "?x = p + total (xs @ [(k, False), (n, False)])" using r by simp_all
  note b = heap_at_block [OF h r] and b2 = heap_at_block [OF h2 q(1)] and b3 = heap_at_block [OF h3 q(2)]
  let ?s = "remove_block (adr r) st"
  let ?u = "remove_block (adr ?x) ?s"
  let ?F = "free_at p xs \<union> free_at ?x ((j, False) # ys)" and ?G = "free_at p xs \<union> free_at (r + (k + n + j)) ys"
  have l1: "heap_at ?s p ?bs" "listed ?s ?F" "same_on (kept p ?bs) (mem st) (mem ?s)"
  proof -
    have e: "free_at p (xs @ [(k, False)]) \<union> free_at ?x ((j, False) # ys) - {r} = ?F"
      using heap_at_big [OF h] r by (auto simp: add.assoc dest!: free_at_bounds)
    have sub: "free_at p (xs @ [(k, False)]) \<union> free_at ?x ((j, False) # ys) \<subseteq> free_at p ?bs" using r by auto
    show "heap_at ?s p ?bs" "listed ?s ?F" "same_on (kept p ?bs) (mem st) (mem ?s)"
      using leave_block [OF h r l sub, unfolded e] r by simp_all
  qed
  have h1: "heap_at ?s p ((xs @ [(k, False)]) @ (n, False) # (j, False) # ys)"
      "heap_at ?s p ((xs @ [(k, False), (n, False)]) @ (j, False) # ys)" using l1(1) by simp_all
  have l2: "heap_at ?u p ?bs" "listed ?u ?G" "same_on (kept p ?bs) (mem ?s) (mem ?u)"
  proof -
    have e: "?F - {?x} = ?G" using heap_at_big [OF h] r by (auto simp: add.assoc dest!: free_at_bounds)
    have sub: "?F \<subseteq> free_at p ((xs @ [(k, False), (n, False)]) @ (j, False) # ys)" using r by (auto simp: add.assoc)
    show "heap_at ?u p ?bs" "listed ?u ?G" "same_on (kept p ?bs) (mem ?s) (mem ?u)"
      using leave_block [OF h1(2) q(2) l1(2) sub, unfolded e] by simp_all
  qed
  have h4: "heap_at ?u p ((xs @ [(k, False)]) @ (n, False) # (j, False) # ys)"
      "heap_at ?u p ((xs @ [(k, False), (n, False)]) @ (j, False) # ys)" using l2(1) by simp_all
  have c: "\<not> GET_ALLOC (mem st) (FTRP (mem st) (PREV_BLKP (mem st) (adr ?q)))" "\<not> GET_ALLOC (mem st) (HDRP (adr ?x))"
    using prev_alloc [OF h2 q(1)] next_alloc [OF h3 q(2)] by auto
  note t = tiles_Cons_reads [OF b2(1-3)] and t0 = tiles_Cons_reads [OF b(1-3)]
  note s1 = tiles_Cons_reads [OF heap_at_block(1-3) [OF h1(1) q(1)]] and s0 = tiles_Cons_reads [OF heap_at_block(1-3) [OF l1(1) r]]
  note u1 = tiles_Cons_reads [OF heap_at_block(1-3) [OF h4(1) q(1)]] and u0 = tiles_Cons_reads [OF heap_at_block(1-3) [OF l2(1) r]]
    and u2 = tiles_Cons_reads [OF heap_at_block(1-3) [OF h4(2) q(2)]]
  let ?v = "PACK (of_nat n + ucast (of_nat k + of_nat j :: 32 word)) 0 :: addr"
  have nk: "k + n + j < 2 ^ 31" "24 \<le> k + n + j" "8 dvd k + n + j" using b b2 b3 q heap_at_bounds [OF h] by auto
  have v: "ucast ?v = tag (k + n + j) False"
  proof -
    have "ucast (of_nat k + of_nat j :: 32 word) = (of_nat (k + j) :: addr)"
      using ucast_of_nat [of "k + j"] nk by simp
    then show ?thesis using tag_pack_simps(1) [of "k + n + j"] nk by (simp add: ac_simps)
  qed
  let ?h = "PUT (adr (r - 4)) ?v ?u"
  let ?g = "PUT (adr (r + (k + n + j) - 8)) ?v ?h"
  have n1: "NEXT_BLKP (mem ?h) (adr ?q) = adr ?x" and n2: "FTRP (mem ?h) (adr ?x) = adr (r + (k + n + j) - 8)"
    and n3: "PREV_BLKP (mem ?g) (adr ?q) = adr r"
  proof -
    have w: "same_on {r..} (mem ?u) (mem ?h)" by (rule same_on_PUT) (use b in auto)
    have w2: "same_on {r..<?x} (mem ?h) (mem ?g)" by (rule same_on_PUT) (use b b2 b3 nk q in auto)
    have tl: "tiles (mem ?u) r ((k, False) # (n, False) # (j, False) # ys)" by (rule heap_at_block(1) [OF l2(1) r])
    have g: "GET (mem ?h) (adr (?q - 4)) = tag n False" "GET (mem ?h) (adr (?x - 4)) = tag j False"
      "GET (mem ?h) (adr (?q - 8)) = tag k False"
    proof -
      have "GET (mem ?h) (adr a) = GET (mem ?u) (adr a)" if "r \<le> a" "a < 2 ^ 63" for a
        by (rule same_on_GET [OF w]) (use that in auto)
      then show "GET (mem ?h) (adr (?q - 4)) = tag n False" "GET (mem ?h) (adr (?x - 4)) = tag j False"
        "GET (mem ?h) (adr (?q - 8)) = tag k False"
        using tl b(4) b2(4,6) b3(4,6) by simp_all
    qed
    show "NEXT_BLKP (mem ?h) (adr ?q) = adr ?x" using header_reads(4) [OF g(1)] b b2 by simp
    show "FTRP (mem ?h) (adr ?x) = adr (r + (k + n + j) - 8)" using header_reads(5) [OF g(2)] b3 by (simp add: add.assoc)
    have "GET (mem ?g) (adr (?q - 8)) = tag k False" using g(3) b b2 by (subst same_on_GET [OF w2]) auto
    then show "PREV_BLKP (mem ?g) (adr ?q) = adr r" using footer_reads [of "mem ?g" ?q k False] b by simp
  qed
  have e: "coalesce (adr ?q) st = (adr r, insert_block (adr r) ?g)"
    unfolding coalesce_def Let_def using c t(2,4) t0(6) s1(4) s0(6) u0(1,6) u1(4) u2(8) n1 n2 n3 b(2)
    by (simp add: HDRP_adr)
  have l3: "heap_at ?u p (xs @ [(k, False), (n, False), (j, False)] @ ys)" using l2(1) by simp
  note m = merge_block [OF l3 _ _ nk(2,3) _ r v disjI2 [OF refl]]
  show ?thesis unfolding e freed_def
    using m l2(2) r same_on_trans [OF same_on_trans [OF l1(3) l2(3)]] by (simp add: add.assoc)
qed

text \<open>\<open>coalesce\<close> joins the block with the free neighbours it has and enters it.\<close>

lemma coalesce_block:
  assumes h: "heap_at st p (xs @ (n, False) # ys)" and q: "q = p + total xs" and l: "listed st (free_at p xs \<union> free_at (q + n) ys)"
  shows "\<exists>st'. coalesce (adr q) st = (adr (p + total (left_part xs)), st') \<and>
    freed st p (kept p (xs @ (n, False) # ys)) (coalesced xs n ys) st'"
proof (cases "free_left xs")
  case True
  then obtain ws k where w: "xs = ws @ [(k, False)]" by (cases xs rule: rev_cases) (auto simp: free_left_def)
  have p: "left_part xs = ws" "q = p + total ws + k" using w q by (simp_all add: left_part_def)
  show ?thesis
  proof (cases "free_right ys")
    case True
    then obtain j zs where z: "ys = (j, False) # zs" by (cases ys) (auto simp: free_right_def)
    show ?thesis using coalesce_both [of st p ws k n j zs, OF _ refl] h l p w z by (simp add: coalesced_cases)
  next
    case False
    then show ?thesis using coalesce_prev [of st p ws k n ys, OF _ refl] h l p w by (simp add: coalesced_cases)
  qed
next
  case left: False
  then have p: "left_part xs = xs" by (simp add: left_part_def)
  show ?thesis
  proof (cases "free_right ys")
    case True
    then obtain j zs where z: "ys = (j, False) # zs" by (cases ys) (auto simp: free_right_def)
    show ?thesis using coalesce_next [of st p xs n j zs, OF _ q left] h l p q z left by (simp add: coalesced_cases)
  next
    case False
    have h2: "heap_at st p ((xs @ [(n, False)]) @ ys)" using h by simp
    have "coalesce (adr q) st = (adr q, insert_block (adr q) st)"
      using tiles_Cons_reads(4) [OF heap_at_block(1-3) [OF h q]] prev_alloc [OF h q] next_alloc [OF h2, of "q + n"] left False q
      by (auto simp: coalesce_def free_left_def free_right_def)
    then show ?thesis using enter_block [OF h q l] left False p q by (simp add: coalesced_cases freed_def)
  qed
qed

end
