(* ===== verification/MmAlloc.thy ===== *)
theory MmAlloc
  imports MmCoalesce MmBreak
begin

text \<open>
  The operations of \<open>lab7/mm.c\<close> on the list of blocks: freeing, placing a request, the search of the free
  lists and the extension of the heap keep the invariant \<open>heap_inv\<close> and the payloads of allocated blocks.
\<close>

section \<open>The invariant\<close>

text \<open>No two neighbours are free.\<close>

fun separated :: "block list \<Rightarrow> bool" where
  "separated [] \<longleftrightarrow> True"
| "separated ((n, a) # bs) \<longleftrightarrow> (a \<or> \<not> free_right bs) \<and> separated bs"

text \<open>The break is inside the arena, which is smaller than 32 megabytes.\<close>

definition room :: "mm_t \<Rightarrow> nat \<Rightarrow> block list \<Rightarrow> bool" where
  "room st p bs \<longleftrightarrow> p + total bs \<le> unat (mem_max_addr st) \<and> unat (mem_max_addr st) < 2 ^ 62 \<and>
     unat (mem_max_addr st) < p + 2 ^ 25"

definition heap_inv :: "mm_t \<Rightarrow> nat \<Rightarrow> block list \<Rightarrow> bool" where
  "heap_inv st p bs \<longleftrightarrow> heap_at st p bs \<and> listed st (free_at p bs) \<and> separated bs \<and> room st p bs"

lemma separated_append [simp]:
  "separated (xs @ ys) \<longleftrightarrow> separated xs \<and> separated ys \<and> \<not> (free_left xs \<and> free_right ys)"
proof (induction xs)
  case (Cons x xs)
  obtain n a where x: "x = (n, a)" by (cases x)
  have "free_left ((n, a) # xs) = (if xs = [] then \<not> a else free_left xs)"
    "free_right (xs @ ys) = (if xs = [] then free_right ys else free_right xs)"
    by (auto simp: free_left_def free_right_def)
  then show ?case using Cons x by auto
qed simp

lemma separated_parts:
  "separated xs \<Longrightarrow> separated (left_part xs) \<and> \<not> free_left (left_part xs)"
  "separated ys \<Longrightarrow> separated (right_part ys) \<and> \<not> free_right (right_part ys)"
proof -
  show "separated (left_part xs) \<and> \<not> free_left (left_part xs)" if "separated xs"
    using that by (cases xs rule: rev_cases) (auto simp: left_part_def)
  show "separated (right_part ys) \<and> \<not> free_right (right_part ys)" if "separated ys"
    using that by (cases ys) (auto simp: right_part_def)
qed

lemma separated_coalesced: "separated xs \<Longrightarrow> separated ys \<Longrightarrow> separated (coalesced xs n ys)"
  using separated_parts(1) [of xs] separated_parts(2) [of ys] by (simp add: coalesced_def)

lemma room_same: "room st p bs \<Longrightarrow> extent st' = extent st \<Longrightarrow> total bs' = total bs \<Longrightarrow> room st' p bs'"
  by (simp add: room_def extent_def)

lemma freed_inv:
  "freed st p A bs' st' \<Longrightarrow> separated bs' \<Longrightarrow> room st' p bs' \<Longrightarrow> heap_inv st' p bs' \<and> same_on A (mem st) (mem st')"
  by (simp add: freed_def heap_inv_def)

section \<open>Freeing\<close>

lemma GET_keep:
  "same_on A m m' \<Longrightarrow> GET m (adr x) = v \<Longrightarrow> {x..<x + 4} \<subseteq> A \<Longrightarrow> x + 4 < 2 ^ 64 \<Longrightarrow> GET m' (adr x) = v"
  using same_on_GET by simp

lemma links_same:
  "{q..<q + 16} \<inter> A = {} \<Longrightarrow> q + 16 < 2 ^ 64 \<Longrightarrow>
     same_on A (mem s) (mem (PUTADDR (SUCC (adr q)) v (PUTADDR (PRED (adr q)) w s)))"
  unfolding PRED_def SUCC_adr
  by (rule same_on_trans [OF same_on_PUTADDR same_on_PUTADDR]) (auto simp: disjoint_iff)

lemma clear_links_block:
  assumes "heap_at st p (xs @ (n, a) # ys)" and "q = p + total xs"
  shows "same_on (- {q..<q + n - 8}) (mem st) (mem (clear_links (adr q) st))"
    "free_listp (clear_links (adr q) st) = free_listp st" "heap_listp (clear_links (adr q) st) = heap_listp st"
    "mem_brk (clear_links (adr q) st) = mem_brk st"
proof -
  note b = heap_at_block [OF assms]
  show "same_on (- {q..<q + n - 8}) (mem st) (mem (clear_links (adr q) st))"
    unfolding clear_links_def by (rule links_same) (use b in auto)
qed (simp_all add: clear_links_def)

text \<open>Clearing the links of a block that is in no list does not change heap and lists.\<close>

lemma clear_links_heap:
  assumes h: "heap_at st p (xs @ (n, False) # ys)" and q: "q = p + total xs" and l: "listed st (free_at p xs \<union> free_at (q + n) ys)"
  shows "heap_at (clear_links (adr q) st) p (xs @ (n, False) # ys)"
    "listed (clear_links (adr q) st) (free_at p xs \<union> free_at (q + n) ys)"
    "same_on (kept p (xs @ (n, False) # ys)) (mem st) (mem (clear_links (adr q) st))"
proof -
  let ?s = "clear_links (adr q) st"
  have h': "heap_at st p (xs @ [(n, False)] @ ys)" using h by simp
  note b = heap_at_block [OF h q] and c = clear_links_block [OF h q]
  have s: "same_on (- payload False p (xs @ (n, False) # ys)) (mem st) (mem ?s)"
    by (rule same_on_mono [OF c(1)]) (use q in auto)
  show "heap_at ?s p (xs @ (n, False) # ys)" by (rule heap_at_links [OF h s c(3,4)])
  have z: "zone (free_at p xs \<union> free_at (q + n) ys) \<subseteq> - {q..<q + n - 8}"
    by (rule order_trans [OF free_zone(1) [OF h', simplified, folded q]]) (use b in auto)
  show "listed ?s (free_at p xs \<union> free_at (q + n) ys)"
    using listed_same [OF l c(1) z _ c(2)] free_zone(2) [OF h'] q by simp
  show "same_on (kept p (xs @ (n, False) # ys)) (mem st) (mem ?s)"
    by (rule same_on_mono [OF s kept_free [OF heap_at_big [OF h]]])
qed

lemma kept_alloc: "kept p (xs @ (n, True) # ys) = kept p (xs @ (n, False) # ys) \<union> {p + total xs..<p + total xs + n - 8}"
  by (auto simp: kept_def)

lemma free_block:
  assumes i: "heap_inv st p (xs @ (n, True) # ys)" and q: "q = p + total xs"
    and m: "mem st (adr (q + 4095)) \<noteq> - 1" "mem st (adr (q + 8191)) \<noteq> - 1"
  shows "heap_inv (mm_free (adr q) st) p (coalesced xs n ys)"
    "same_on (kept p (xs @ (n, False) # ys)) (mem st) (mem (mm_free (adr q) st))"
proof -
  have h: "heap_at st p (xs @ (n, True) # ys)" and l: "listed st (free_at p xs \<union> free_at (q + n) ys)"
    and s: "separated xs" "separated ys" and r: "room st p (xs @ (n, True) # ys)"
    using i q by (simp_all add: heap_inv_def)
  have h0: "heap_at st p (xs @ [(n, True)] @ ys)" using h by simp
  note b = heap_at_block [OF h q]
  let ?v = "PACK (of_nat n) 0 :: addr"
  let ?s = "put_tags (adr q) ?v st"
  have v: "ucast ?v = tag n False" using b(3) by simp
  note t = put_tags_block [OF v b(4,5,3,2,6)]
  have h1: "heap_at ?s p (xs @ (n, False) # ys)" "listed ?s (free_at p xs \<union> free_at (q + n) ys)"
    using retag_one [OF h0, of n ?s False] t l q b by simp_all
  have k1: "same_on (kept p (xs @ (n, False) # ys)) (mem st) (mem ?s)"
  proof (rule same_on_mono [OF t(2)])
    have "kept p (xs @ (n, False) # ys) \<subseteq> - {q - 4..<q + n - 4}"
      using kept_stretch [of xs "[(n, False)]" ys p] heap_at_big [OF h1(1)] q by simp
    then show "kept p (xs @ (n, False) # ys) \<subseteq> - tag_bytes q [(n, False)]"
      by (rule order_trans) (use b in auto)
  qed
  let ?c = "clear_links (adr q) ?s"
  note c = clear_links_heap [OF h1(1) q h1(2)]
  obtain st' where st': "coalesce (adr q) ?c = (adr (p + total (left_part xs)), st')"
    "freed ?c p (kept p (xs @ (n, False) # ys)) (coalesced xs n ys) st'"
    using coalesce_block [OF c(1) q c(2)] by blast
  have e: "mm_free (adr q) st = st'"
    using m tiles_Cons_reads(2) [OF b(1-3)] st'(1) adr_add [of q 4095] adr_add [of q 8191]
    by (simp add: mm_free_def Let_def)
  have x: "extent st' = extent st" using extent_free [of "adr q" st] e by simp
  show "heap_inv (mm_free (adr q) st) p (coalesced xs n ys)"
    using freed_inv [OF st'(2) separated_coalesced [OF s]] room_same [OF r x] e by simp
  show "same_on (kept p (xs @ (n, False) # ys)) (mem st) (mem (mm_free (adr q) st))"
    using st'(2) same_on_trans [OF same_on_trans [OF k1 c(3)]] e by (simp add: freed_def)
qed

section \<open>Placing\<close>

text \<open>A free block of \<open>n\<close> bytes taken for a request of \<open>a\<close>: what is left is split off when it can hold a block.\<close>

definition carve :: "nat \<Rightarrow> nat \<Rightarrow> block list" where
  "carve a n = (if n - a \<ge> 24 then [(a, True), (n - a, False)] else [(n, True)])"

lemma carve_facts [simp]:
  "a \<le> n \<Longrightarrow> total (carve a n) = n" "separated (carve a n)" "\<not> free_right (carve a n)" "carve a n \<noteq> []"
  by (auto simp: carve_def free_right_def)

lemma of_nat_diff_word: "a \<le> n \<Longrightarrow> of_nat n - of_nat a = (of_nat (n - a) :: addr)"
  by (simp add: of_nat_diff)

lemma le_of_nat: "n < 2 ^ 64 \<Longrightarrow> a < 2 ^ 64 \<Longrightarrow> (of_nat a :: addr) \<le> of_nat n \<longleftrightarrow> a \<le> n"
  by (simp add: word_le_nat_alt unat_of_nat)

lemma place_block:
  assumes i: "heap_inv st p (xs @ (n, False) # ys)" and q: "q = p + total xs" and a: "24 \<le> a" "a \<le> n" "8 dvd a"
  shows "heap_inv (place (adr q) (of_nat a) st) p (xs @ carve a n @ ys)"
    "same_on (kept p (xs @ (n, False) # ys)) (mem st) (mem (place (adr q) (of_nat a) st))"
proof -
  let ?bs = "xs @ (n, False) # ys" and ?p = "place (adr q) (of_nat a) st"
  have h: "heap_at st p ?bs" and l: "listed st (free_at p ?bs)" and s: "separated ?bs" and r: "room st p ?bs"
    using i by (simp_all add: heap_inv_def)
  note b = heap_at_block [OF h q]
  let ?s = "remove_block (adr q) st"
  have rm: "heap_at ?s p (xs @ (n, False) # ys)" "listed ?s (free_at p xs \<union> free_at (q + n) ys)"
    "same_on (kept p ?bs) (mem st) (mem ?s)"
    using leave_block [OF h q l order_refl] free_at_minus [OF heap_at_big [OF h] q] q by simp_all
  have z: "SIZE (mem st) (HDRP (adr q)) = of_nat n" using tiles_Cons_reads(2) [OF b(1-3)] .
  have d: "of_nat n - of_nat a = (of_nat (n - a) :: addr)" "(24 :: addr) \<le> of_nat (n - a) \<longleftrightarrow> 24 \<le> n - a"
    using of_nat_diff_word [OF a(2)] le_of_nat [of "n - a" 24] b by simp_all
  have h0: "heap_at ?s p (xs @ [(n, False)] @ ys)" using rm(1) by simp
  have ks: "kept p ?bs \<subseteq> - {q - 4..<q + n - 4}"
    using kept_stretch [of xs "[(n, False)]" ys p] heap_at_big [OF h] q by simp
  have *: "freed st p (kept p ?bs) (xs @ carve a n @ ys) ?p"
  proof (cases "24 \<le> n - a")
    case False
    let ?v = "PACK (of_nat n) 1 :: addr"
    have e: "?p = put_tags (adr q) ?v ?s" using False z d by (simp add: place_def Let_def DSIZE_def)
    have v: "ucast ?v = tag n True" using b by simp
    note t = put_tags_block [OF v b(4,5,3,2,6), of ?s]
    have k: "same_on (kept p ?bs) (mem ?s) (mem ?p)"
      unfolding e by (rule same_on_mono [OF t(2)], rule order_trans [OF ks]) (use b in auto)
    have "heap_at ?p p (xs @ (n, True) # ys)" "listed ?p (free_at p xs \<union> free_at (q + n) ys)"
      unfolding e using retag_one [OF h0, of n "put_tags (adr q) ?v ?s" True] t rm(2) q b(4) by simp_all
    then show ?thesis using same_on_trans [OF rm(3) k] False q by (simp add: carve_def freed_def)
  next
    case True
    let ?v = "PACK (of_nat a) 1 :: addr" and ?w = "PACK (of_nat n - of_nat a) 0 :: addr"
    have v: "ucast ?v = tag a True" using b a by simp
    have w: "ucast ?w = tag (n - a) False" unfolding d(1) by (rule tag_pack_simps(1)) (use b in simp)
    let ?t = "put_tags (adr q) ?v ?s"
    have ab: "a < 2 ^ 31" "q + a < 2 ^ 63" "4 \<le> q + a" "n - a < 2 ^ 31" "8 dvd n - a" "q + a + (n - a) < 2 ^ 63"
      using b a True by simp_all
    note t = put_tags_block [OF v a(1,3) ab(1) b(2) ab(2), of ?s]
    let ?u = "put_tags (adr (q + a)) ?w ?t"
    note u = put_tags_block [OF w True ab(5,4,3,6), of ?t]
    have e: "?p = insert_block (adr (q + a)) ?u"
      using True z d tiles_Cons_reads(4) [OF t(1) b(2) ab(1)] by (simp add: place_def Let_def DSIZE_def)
    have tu: "tiles (mem ?u) q [(a, True)]"
      by (rule tiles_same [OF t(1) u(2)]) (use b a True in auto)
    have su: "same_on (- {q - 4..<q + n - 4}) (mem ?s) (mem ?u)"
      by (rule same_on_trans [OF same_on_mono [OF t(2)] same_on_mono [OF u(2)]]) (use b a True in auto)
    have f: "free_listp ?u = free_listp ?s" "heap_listp ?u = heap_listp ?s" "mem_brk ?u = mem_brk ?s"
      using t u by simp_all
    have "heap_at ?u p (xs @ [(a, True), (n - a, False)] @ ys)"
      using heap_at_retag [OF h0, of ?u "[(a, True), (n - a, False)]"] tu u(1) su f q a by simp
    then have hu: "heap_at ?u p ((xs @ [(a, True)]) @ (n - a, False) # ys)" by simp
    have lu: "listed ?u (free_at p (xs @ [(a, True)]) \<union> free_at (q + a + (n - a)) ys)"
      using listed_same [OF rm(2) su _ _ f(1)] free_zone [OF h0] q a by (simp add: add.assoc)
    have q': "q + a = p + total (xs @ [(a, True)])" using q by simp
    note en = enter_block [OF hu q' lu]
    have "kept p ?bs \<subseteq> kept p ((xs @ [(a, True)]) @ (n - a, False) # ys)"
      using q a b True by (auto simp: kept_def add.assoc)
    then have "same_on (kept p ?bs) (mem ?s) (mem ?p)"
      unfolding e using same_on_trans [OF same_on_mono [OF su ks] same_on_mono [OF en(3)]] by blast
    then show ?thesis using en(1,2) True same_on_trans [OF rm(3)] by (simp add: e carve_def freed_def)
  qed
  have "separated (xs @ carve a n @ ys)"
    using s by (auto simp: carve_def)
  then show "heap_inv ?p p (xs @ carve a n @ ys)" "same_on (kept p ?bs) (mem st) (mem ?p)"
    using freed_inv [OF *] room_same [OF r, of ?p "xs @ carve a n @ ys"] a by simp_all
qed

section \<open>Searching the free lists\<close>

lemma free_at_split: "x \<in> free_at p bs \<longleftrightarrow> (\<exists>xs n ys. bs = xs @ (n, False) # ys \<and> x = p + total xs)"
proof (induction p bs rule: free_at.induct)
  case (2 p n a bs)
  show ?case
  proof (intro iffI)
    assume "x \<in> free_at p ((n, a) # bs)"
    then consider "\<not> a" "x = p" | "x \<in> free_at (p + n) bs" by (auto split: if_splits)
    then show "\<exists>xs k ys. (n, a) # bs = xs @ (k, False) # ys \<and> x = p + total xs"
    proof cases
      case 1
      then show ?thesis by (intro exI [of _ "[]"]) simp
    next
      case 2
      then obtain xs k ys where "bs = xs @ (k, False) # ys" "x = p + n + total xs" using "2.IH" by blast
      then show ?thesis by (intro exI [of _ "(n, a) # xs"]) simp
    qed
  next
    assume "\<exists>xs k ys. (n, a) # bs = xs @ (k, False) # ys \<and> x = p + total xs"
    then obtain xs k ys where "(n, a) # bs = xs @ (k, False) # ys" "x = p + total xs" by blast
    then show "x \<in> free_at p ((n, a) # bs)" using "2.IH" by (cases xs) (auto simp: add.assoc)
  qed
qed simp

lemma find_Some_in: "find P xs = Some x \<Longrightarrow> x \<in> set xs \<and> P x"
  by (induction xs) (auto split: if_splits)

lemma sint_of_nat_word32: "n < 2 ^ 31 \<Longrightarrow> sint (of_nat n :: 32 word) = int n"
  using signed_take_bit_int_eq_self [of 31 "int n"] by (simp add: sint_uint uint_nat unat_of_nat)

lemma ucast_of_nat_32: "n < 2 ^ 32 \<Longrightarrow> ucast (of_nat n :: addr) = (of_nat n :: 32 word)"
  by (rule word_unat_eq_iff [THEN iffD2]) (simp add: unsigned_ucast_eq unat_of_nat take_bit_nat_eq_self)

text \<open>
  \<open>find_fit\<close> on a heap of blocks: a free block that is large enough, and the null pointer only when no
  free block is.
\<close>

lemma find_fit_block:
  assumes i: "heap_inv st p bs" and a: "a < 2 ^ 31"
  shows "(\<exists>xs n ys. bs = xs @ (n, False) # ys \<and> a \<le> n \<and> find_fit st (of_nat a) = Some (adr (p + total xs))) \<or>
    (find_fit st (of_nat a) = Some NULL \<and> (\<forall>(n, b) \<in> set bs. \<not> b \<longrightarrow> n < a))"
proof -
  have h: "heap_at st p bs" using i by (simp add: heap_inv_def)
  obtain ls where ls: "lists_ok st ls" "set (concat ls) = adr ` free_at p bs"
    "\<forall>i < 16. \<forall>x \<in> set (ls ! i). index_of (mem st) x = i"
    using i by (auto simp: heap_inv_def listed_def)
  have len: "length ls = 16" using ls(1) by (simp add: lists_ok_def LIST_NUM_def)
  let ?k = "get_block_index (int a)"
  let ?P = "\<lambda>b. of_nat a \<le> SIZE (mem st) (HDRP b)"
  have k: "get_block_index (sint (ucast (of_nat a :: addr) :: 32 word)) = ?k"
    using a ucast_of_nat_32 [of a] sint_of_nat_word32 [of a] by simp
  have ff: "find_fit st (of_nat a) = Some (found (find ?P (concat (drop ?k ls))))"
    using find_fit_find [OF ls(1), of "of_nat a"] by (simp add: fits_def [abs_def] k)
  have blk: "SIZE (mem st) (HDRP x) = of_nat n \<and> index_of (mem st) x = get_block_index (int n) \<and> n < 2 ^ 31"
    if "bs = xs @ (n, False) # ys" "x = adr (p + total xs)" for x xs n ys
    using tiles_Cons_reads(1,2) [OF heap_at_block(1-3) [OF h [unfolded that(1)] refl]] heap_at_block(3) [OF h [unfolded that(1)] refl]
      sint_of_nat_word32 that(2)
    by (simp add: index_of_def)
  show ?thesis
  proof (cases "find ?P (concat (drop ?k ls))")
    case (Some x)
    then have x: "x \<in> set (concat (drop ?k ls))" "?P x" using find_Some_in by fastforce+
    then have "x \<in> set (concat ls)" using set_drop_subset [of ?k ls] by fastforce
    then have "x \<in> adr ` free_at p bs" by (simp only: ls(2))
    then obtain xs n ys where bs: "bs = xs @ (n, False) # ys" "x = adr (p + total xs)" by (auto simp: free_at_split)
    have "a \<le> n" using x(2) blk [OF bs] le_of_nat [of n a] a by auto
    then show ?thesis using bs ff Some by (auto simp: found_def)
  next
    case None
    then have no: "\<not> ?P x" if "x \<in> set (concat (drop ?k ls))" for x using that by (auto simp: find_None_iff)
    have "n < a" if nb: "(n, False) \<in> set bs" for n
    proof (rule ccontr)
      assume "\<not> n < a"
      obtain xs ys where bs: "bs = xs @ (n, False) # ys" using nb by (auto simp: in_set_conv_decomp)
      let ?x = "adr (p + total xs)"
      note bk = blk [OF bs refl]
      have "?x \<in> adr ` free_at p bs" using bs by (auto simp: free_at_split)
      then obtain j where j: "j < 16" "?x \<in> set (ls ! j)" using ls(2) in_concat [of ?x ls] len by auto
      then have "j = get_block_index (int n)" using ls(3) bk by auto
      then have "?k \<le> j" using get_block_index_mono [of "int a" "int n"] \<open>\<not> n < a\<close> by simp
      then have "ls ! j \<in> set (drop ?k ls)" using j(1) len by (auto simp: in_set_conv_nth intro!: exI [of _ "j - ?k"])
      then have "?x \<in> set (concat (drop ?k ls))" using j(2) by auto
      from no [OF this] show False using bk \<open>\<not> n < a\<close> le_of_nat [of n a] a by simp
    qed
    then show ?thesis using ff None by (auto simp: found_def)
  qed
qed

section \<open>Extending the heap\<close>

lemma mem_sbrk_nat:
  assumes b: "mem_brk st = adr e" "e \<le> unat (mem_max_addr st)" "unat (mem_max_addr st) < 2 ^ 62" and n: "n < 2 ^ 31"
  shows "mem_sbrk (of_nat n) st =
    (if e + n \<le> unat (mem_max_addr st) then (adr e, st\<lparr>mem_brk := adr (e + n)\<rparr>) else (- 1, st))"
proof -
  have s: "sint (of_nat n :: 32 word) = int n" by (rule sint_of_nat_word32 [OF n])
  then have "scast (of_nat n :: 32 word) = (of_nat n :: addr)" by (simp add: scast_eq)
  then have "mem_brk st + scast (of_nat n :: 32 word) = adr (e + n)" using b(1) by (simp add: adr_def)
  moreover have "mem_max_addr st < adr (e + n) \<longleftrightarrow> \<not> e + n \<le> unat (mem_max_addr st)"
    using b n by (simp add: word_less_nat_alt not_le)
  ultimately show ?thesis using s b(1) by (simp add: mem_sbrk_def Let_def)
qed

text \<open>The new memory becomes a free block, and joins a free block at the end of the heap.\<close>

lemma extend_block:
  assumes i: "heap_inv st p bs" and n: "24 \<le> n" "8 dvd n" "n < 2 ^ 25"
  shows "if p + total bs + n \<le> unat (mem_max_addr st)
    then \<exists>st'. extend_heap (of_nat (n div 4)) st = (adr (p + total (left_part bs)), st') \<and>
      heap_inv st' p (coalesced bs n []) \<and> same_on (payload True p bs) (mem st) (mem st')
    else extend_heap (of_nat (n div 4)) st = (NULL, st)"
proof -
  have h: "heap_at st p bs" and l: "listed st (free_at p bs)" and s: "separated bs" and r: "room st p bs"
    using i by (simp_all add: heap_inv_def)
  note hb = heap_at_bounds [OF h]
  let ?e = "p + total bs"
  obtain w where w: "n = 8 * w" using n(2) by auto
  have w4: "n div 4 = 2 * w" using w by simp
  have sz: "(if (of_nat (n div 4) :: addr) mod 2 \<noteq> 0 then (of_nat (n div 4) + 1) * WSIZE else of_nat (n div 4) * WSIZE) = of_nat n"
  proof -
    have "unat (of_nat (2 * w) :: addr) = 2 * w" using n(3) w by (simp add: unat_of_nat del: of_nat_mult)
    then have "(of_nat (2 * w) :: addr) mod 2 = 0" by (simp add: word_unat_eq_iff unat_mod_distrib del: of_nat_mult)
    then show ?thesis unfolding w4 using w by (simp add: WSIZE_def)
  qed
  have sb: "mem_sbrk (ucast (of_nat n :: addr)) st =
      (if ?e + n \<le> unat (mem_max_addr st) then (adr ?e, st\<lparr>mem_brk := adr (?e + n)\<rparr>) else (- 1, st))"
    using mem_sbrk_nat [of st ?e n] h r n ucast_of_nat_32 [of n] by (simp add: heap_at_def room_def)
  show ?thesis
  proof (cases "?e + n \<le> unat (mem_max_addr st)")
    case False
    then show ?thesis unfolding extend_heap_def sz Let_def sb by simp
  next
    case True
    let ?v = "PACK (of_nat n) 0 :: addr"
    have e: "16 \<le> ?e" "?e + n < 2 ^ 62" using True r hb by (simp_all add: room_def)
    have v: "ucast ?v = tag n False" using n by simp
    have ne: "adr ?e \<noteq> - 1"
    proof
      assume "adr ?e = - 1"
      then have "unat (adr ?e) = unat (- 1 :: addr)" by simp
      then show False using e by (simp add: unsigned_minus_1_eq_mask mask_eq_exp_minus_1)
    qed
    let ?s = "st\<lparr>mem_brk := adr (?e + n)\<rparr>"
    let ?t = "PUT (adr (?e + n - 8)) ?v (PUT (adr (?e - 4)) ?v ?s)"
    let ?c = "PUTADDR (SUCC (adr ?e)) 0 (PUTADDR (PRED (adr ?e)) 0 ?t)"
    let ?u = "PUT (adr (?e + n - 4)) (PACK 0 1) ?c"
    have g: "GET (mem (PUT (adr (?e - 4)) ?v ?s)) (adr (?e - 4)) = tag n False" using v by simp
    have t: "tiles (mem ?t) ?e [(n, False)]" by (rule put_two(1) [OF v n(1,2) _ _ disjI2 [OF refl]]) (use e in simp_all)
    have s2: "same_on {?e - 4..<?e} (mem ?t) (mem ?c)" "same_on {?e + n - 8..<?e + n - 4} (mem ?t) (mem ?c)"
      by (rule links_same, use e n in auto)+
    have hd: "GET (mem ?c) (adr (?e - 4)) = tag n False"
      by (rule GET_keep [OF s2(1)]) (use t e in auto)
    have nx: "NEXT_BLKP (mem ?c) (adr ?e) = adr (?e + n)" using header_reads(4) [OF hd n(2)] n e by simp
    have eh: "extend_heap (of_nat (n div 4)) st = coalesce (adr ?e) ?u"
      unfolding extend_heap_def sz Let_def sb using True ne header_reads(5) [OF g n(2)] n e nx
      by (simp add: HDRP_adr)
    have su: "same_on (- {?e - 4..<?e + n}) (mem st) (mem ?u)"
    proof -
      have "same_on (- {?e - 4..<?e + n}) (mem st) (mem ?t)"
        by (rule same_on_trans [of _ _ "mem ?s"], simp, rule same_on_trans [OF same_on_PUT same_on_PUT]) (use e n in auto)
      moreover have "same_on (- {?e - 4..<?e + n}) (mem ?t) (mem ?c)"
        by (rule links_same) (use e n in auto)
      moreover have "same_on (- {?e - 4..<?e + n}) (mem ?c) (mem ?u)"
        by (rule same_on_PUT) (use e n in auto)
      ultimately show ?thesis using same_on_trans by blast
    qed
    have "tiles (mem ?u) p bs"
      by (rule tiles_same [OF _ su]) (use h e n in \<open>auto simp: heap_at_def dest!: tag_bytes_bounds [OF _ heap_at_big [OF h]]\<close>)
    moreover have "tiles (mem ?u) ?e [(n, False)]"
    proof -
      have w: "same_on {..<?e + n - 4} (mem ?c) (mem ?u)" by (rule same_on_PUT) (use e n in auto)
      have f: "GET (mem ?c) (adr (?e + n - 8)) = tag n False"
        by (rule GET_keep [OF s2(2)]) (use t e n in auto)
      have "GET (mem ?u) (adr (?e - 4)) = tag n False" by (rule GET_keep [OF w hd]) (use n e in auto)
      moreover have "GET (mem ?u) (adr (?e + n - 8)) = tag n False" by (rule GET_keep [OF w f]) (use n e in auto)
      ultimately show ?thesis using n by simp
    qed
    moreover have "GET (mem ?u) (adr (p - 12)) = GET (mem st) (adr (p - 12))" "GET (mem ?u) (adr (p - 8)) = GET (mem st) (adr (p - 8))"
      by (rule same_on_GET [OF su], use hb in auto)+
    ultimately have hu: "heap_at ?u p (bs @ [(n, False)])"
      using h e True r tag_pack_simps(2) [of 0] by (simp add: heap_at_def room_def add.assoc)
    have z: "zone (free_at p bs) \<subseteq> - {?e - 4..<?e + n}" "\<forall>x \<in> free_at p bs. 4 \<le> x \<and> x + 24 < 2 ^ 64"
      using heap_at_big [OF h] hb by (auto simp: zone_def dest!: free_at_bounds)
    have lu: "listed ?u (free_at p bs)" by (rule listed_same [OF l su z]) simp
    obtain st' where st': "coalesce (adr ?e) ?u = (adr (p + total (left_part bs)), st')"
      "freed ?u p (kept p (bs @ [(n, False)])) (coalesced bs n []) st'"
      using coalesce_block [OF hu refl] lu by auto
    have "room st' p (coalesced bs n [])"
    proof -
      have "extent st' = extent ?u" using extent_blocks(3) [of "adr ?e" ?u] st'(1) by simp
      then show ?thesis using r True by (simp add: room_def extent_def)
    qed
    then have "heap_inv st' p (coalesced bs n [])" using freed_inv [OF st'(2)] separated_coalesced [OF s, of "[]"] by simp
    moreover have "same_on (payload True p bs) (mem st) (mem st')"
    proof (rule same_on_trans [OF same_on_mono [OF su] same_on_mono])
      show "same_on (kept p (bs @ [(n, False)])) (mem ?u) (mem st')" using st'(2) by (simp add: freed_def)
    qed (use heap_at_big [OF h] in \<open>auto simp: kept_def dest!: payload_bounds\<close>)
    ultimately show ?thesis using True eh st'(1) by auto
  qed
qed

end
