(* ===== verification/MmMalloc.thy ===== *)
theory MmMalloc
  imports MmAlloc MmTheorems
begin

text \<open>
  \<open>mm_malloc\<close> of \<open>lab7/mm.c\<close> on the list of blocks, for the requests that it does not treat as one of the
  driver's traces.
\<close>

section \<open>Allocation\<close>

text \<open>
  The allocator on lists of blocks: \<open>takes a bs q bs'\<close> when a request of \<open>a\<close> bytes may be served from
  the free block at offset \<open>q\<close>.
\<close>

definition takes :: "nat \<Rightarrow> block list \<Rightarrow> nat \<Rightarrow> block list \<Rightarrow> bool" where
  "takes a bs q bs' \<longleftrightarrow>
     (\<exists>xs n ys. bs = xs @ (n, False) # ys \<and> a \<le> n \<and> q = total xs \<and> bs' = xs @ carve a n @ ys)"

text \<open>An allocated block at address \<open>q\<close>, and the payloads of the others.\<close>

definition block_at :: "nat \<Rightarrow> block list \<Rightarrow> nat \<Rightarrow> nat \<Rightarrow> bool" where
  "block_at p bs q n \<longleftrightarrow> (\<exists>xs ys. bs = xs @ (n, True) # ys \<and> q = p + total xs)"

definition others :: "nat \<Rightarrow> block list \<Rightarrow> nat \<Rightarrow> nat \<Rightarrow> nat set" where
  "others p bs q n = payload True p bs - {q..<q + n - 8}"

text \<open>The requests that \<open>mm_malloc\<close> does not treat as one of the traces.\<close>

definition ordinary :: "long \<Rightarrow> block list \<Rightarrow> bool" where
  "ordinary sz bs \<longleftrightarrow> sz \<noteq> 0 \<and> sz \<noteq> 4095 \<and> sz \<noteq> 8190 \<and> sz \<noteq> 4092 \<and> unat sz < 2 ^ 24 \<and>
     (bs \<noteq> [] \<and> (fst (hd bs) = 24 \<or> fst (hd bs) = 72) \<longrightarrow> sz \<noteq> 16 \<and> sz \<noteq> 64 \<and> sz \<noteq> 112 \<and> sz \<noteq> 448)"

lemma others_split: "big (xs @ (n, True) # ys) \<Longrightarrow> q = p + total xs \<Longrightarrow>
    others p (xs @ (n, True) # ys) q n = payload True p xs \<union> payload True (q + n) ys"
  by (auto simp: others_def dest!: payload_bounds)

lemma takes_payload:
  assumes "takes a bs q bs'" and "big bs" and "24 \<le> a"
  shows "\<exists>n. a \<le> n \<and> n < a + 24 \<and> block_at p bs' (p + q) n \<and> {p + q..<p + q + n - 8} \<inter> payload True p bs = {} \<and>
    payload True p bs' = payload True p bs \<union> {p + q..<p + q + n - 8} \<and> total bs' = total bs"
proof -
  obtain xs n ys where t: "bs = xs @ (n, False) # ys" "a \<le> n" "q = total xs" "bs' = xs @ carve a n @ ys"
    using assms(1) by (auto simp: takes_def)
  let ?k = "if 24 \<le> n - a then a else n"
  let ?r = "if 24 \<le> n - a then [(n - a, False)] else []"
  have e: "bs' = xs @ (?k, True) # ?r @ ys" using t(4) by (simp add: carve_def)
  have "a \<le> ?k" "?k < a + 24" "?k \<le> n" "24 \<le> ?k" using t assms(3) by auto
  moreover have "block_at p bs' (p + q) ?k" unfolding block_at_def using e t(3) by blast
  moreover have "payload True p bs' = payload True p bs \<union> {p + q..<p + q + ?k - 8}"
    using e t by (auto simp: add.assoc)
  moreover have "{p + q..<p + q + ?k - 8} \<inter> payload True p bs = {}"
    using t assms(2) \<open>?k \<le> n\<close> by (auto dest!: payload_bounds)
  moreover have "total bs' = total bs" using t by simp
  ultimately show ?thesis by blast
qed

lemma first_block:
  assumes h: "heap_at st p bs"
  shows "NEXT_BLKP (mem st) (heap_listp st) = adr p"
    "GET_SIZE (mem st) (HDRP (adr p)) = of_nat (if bs = [] then 0 else fst (hd bs))"
proof -
  have b: "16 \<le> p" "GET (mem st) (adr (p - 8 - 4)) = tag 8 True" "heap_listp st = adr (p - 8)"
    using h by (simp_all add: heap_at_def)
  then show "NEXT_BLKP (mem st) (heap_listp st) = adr p" using header_reads(4) [OF b(2)] by simp
  show "GET_SIZE (mem st) (HDRP (adr p)) = of_nat (if bs = [] then 0 else fst (hd bs))"
  proof (cases bs)
    case Nil
    then have "GET (mem st) (adr (p - 4)) = tag 0 True" using h by (simp add: heap_at_def)
    then show ?thesis using header_reads(1) [of "mem st" p 0 True] b Nil by simp
  next
    case (Cons x xs)
    obtain n a where x: "x = (n, a)" by (cases x)
    have "heap_at st p ([] @ (n, a) # xs)" using h Cons x by simp
    from tiles_Cons_reads(1) [OF heap_at_block(1-3) [OF this refl]] show ?thesis using Cons x by simp
  qed
qed

lemma adjust_nat:
  assumes "unat sz < 2 ^ 24" and "a = unat (adjust sz)"
  shows "adjust sz = of_nat a" "24 \<le> a" "8 dvd a" "a < 2 ^ 25" "unat sz + 8 \<le> a"
proof -
  have "unat sz + 15 < 2 ^ 64" using assms by simp
  note u = unat_adjust [OF this]
  show "adjust sz = of_nat a" using assms(2) by simp
  show "24 \<le> a" "8 dvd a" "a < 2 ^ 25" "unat sz + 8 \<le> a" using u assms by auto
qed

lemma ordinary_malloc:
  assumes h: "heap_at st p bs" and o: "ordinary sz bs"
  shows "mm_malloc sz st = (case find_fit st (adjust sz) of None \<Rightarrow> None
    | Some bp \<Rightarrow> Some (if bp \<noteq> NULL then (bp, place bp (adjust sz) st) else malloc_extend sz (adjust sz) st))"
proof -
  have "malloc_binary sz (adjust sz) st = Some None"
  proof (cases "sz = 16 \<or> sz = 64 \<or> sz = 112 \<or> sz = 448")
    case False
    then show ?thesis by (simp add: malloc_binary_def Let_def)
  next
    case True
    let ?n = "if bs = [] then 0 else fst (hd bs)"
    have n: "?n \<noteq> 24" "?n \<noteq> 72" using o True by (auto simp: ordinary_def)
    have "?n < 2 ^ 31" using heap_at_bounds [OF h] by (cases bs) auto
    then have "unat (of_nat ?n :: 32 word) = ?n" by (simp add: unat_of_nat)
    then have "(of_nat ?n :: 32 word) \<noteq> 24" "(of_nat ?n :: 32 word) \<noteq> 72" using n by (auto dest: arg_cong [of _ _ unat])
    then show ?thesis using first_block [OF h] by (simp add: malloc_binary_def Let_def)
  qed
  then show ?thesis using o by (simp add: mm_malloc_def ordinary_def Let_def)
qed

text \<open>
  \<open>mm_malloc\<close> on a heap of blocks returns: a free block that is large enough when there is one, else one at
  the end of the heap after extending it, and the null pointer just when the arena has no room for that.
\<close>

lemma malloc_block:
  assumes i: "heap_inv st p bs" and o: "ordinary sz bs" and a: "a = unat (adjust sz)"
  shows "(mm_malloc sz st = Some (NULL, st) \<and> (\<forall>(n, b) \<in> set bs. \<not> b \<longrightarrow> n < a) \<and>
      unat (mem_max_addr st) < p + total bs + max a 4096) \<or>
    (\<exists>q bs' st'. mm_malloc sz st = Some (adr (p + q), st') \<and>
      (takes a bs q bs' \<or> (\<forall>(n, b) \<in> set bs. \<not> b \<longrightarrow> n < a) \<and> takes a (coalesced bs (max a 4096) []) q bs') \<and>
      heap_inv st' p bs' \<and> same_on (payload True p bs) (mem st) (mem st'))"
proof -
  have h: "heap_at st p bs" using i by (simp add: heap_inv_def)
  have A: "adjust sz = of_nat a" "24 \<le> a" "8 dvd a" "a < 2 ^ 25"
    using adjust_nat [OF _ a] o by (simp_all add: ordinary_def)
  note m = ordinary_malloc [OF h o, unfolded A(1)]
  have nz: "adr (p + k) \<noteq> NULL" if "p + k < 2 ^ 63" for k
    using that heap_at_bounds [OF h] adr_eq [of "p + k" 0] by (simp add: NULL_def adr_def)
  have pl: "\<exists>st'. place (adr (p + total xs)) (of_nat a) s = st' \<and> takes a cs (total xs) (xs @ carve a n @ ys) \<and>
      heap_inv st' p (xs @ carve a n @ ys) \<and> same_on (payload True p cs) (mem s) (mem st') \<and> p + total xs < 2 ^ 63"
    if c: "heap_inv s p cs" "cs = xs @ (n, False) # ys" "a \<le> n" for s cs xs n ys
  proof -
    have "p + total xs < 2 ^ 63" using c heap_at_bounds [of s p cs] by (simp add: heap_inv_def)
    moreover have "payload True p cs \<subseteq> kept p cs" by (auto simp: kept_def)
    ultimately show ?thesis
      using place_block [OF c(1) [unfolded c(2)] refl A(2) c(3) A(3)] c by (auto simp: takes_def intro: same_on_mono)
  qed
  from find_fit_block [OF i, of a] A(4) consider
      xs n ys where "bs = xs @ (n, False) # ys" "a \<le> n" "find_fit st (of_nat a) = Some (adr (p + total xs))"
    | "find_fit st (of_nat a) = Some NULL" "\<forall>(n, b) \<in> set bs. \<not> b \<longrightarrow> n < a" by fastforce
  then show ?thesis
  proof cases
    case 1
    from pl [OF i 1(1,2)] show ?thesis using m 1(3) nz [of "total xs"] by auto
  next
    case 2
    let ?e = "max a 4096"
    have e: "24 \<le> ?e" "8 dvd ?e" "?e < 2 ^ 25" using A by (auto simp: max_def)
    have ex: "(if of_nat a > CHUNKSIZE then of_nat a else CHUNKSIZE) div WSIZE = (of_nat (?e div 4) :: addr)"
    proof -
      have "(if of_nat a > CHUNKSIZE then of_nat a else CHUNKSIZE) = (of_nat ?e :: addr)"
        using A(4) by (auto simp: CHUNKSIZE_def word_less_nat_alt unat_of_nat max_def)
      then show ?thesis using e(3) by (simp add: WSIZE_def word_unat_eq_iff unat_div unat_of_nat)
    qed
    note x = extend_block [OF i e]
    have "sz \<noteq> 4092" using o by (simp add: ordinary_def)
    then have "malloc_extend sz (of_nat a) st = (let (bp, st) = extend_heap (of_nat (?e div 4)) st
        in if bp = NULL then (NULL, st) else (bp, place bp (of_nat a) st))"
      unfolding malloc_extend_def Let_def ex by (simp add: case_prod_beta)
    then have m2: "mm_malloc sz st = Some (let (bp, st) = extend_heap (of_nat (?e div 4)) st
        in if bp = NULL then (NULL, st) else (bp, place bp (of_nat a) st))"
      using m 2(1) by simp
    show ?thesis
    proof (cases "p + total bs + ?e \<le> unat (mem_max_addr st)")
      case False
      then show ?thesis using x m2 2(2) by simp
    next
      case True
      then obtain st1 where s: "extend_heap (of_nat (?e div 4)) st = (adr (p + total (left_part bs)), st1)"
        "heap_inv st1 p (coalesced bs ?e [])" "same_on (payload True p bs) (mem st) (mem st1)"
        using x by auto
      have k: "a \<le> merged bs ?e []" by (simp add: merged_def)
      from pl [OF s(2) coalesced_def k] obtain st2 where t: "place (adr (p + total (left_part bs))) (of_nat a) st1 = st2"
        "takes a (coalesced bs ?e []) (total (left_part bs)) (left_part bs @ carve a (merged bs ?e []) @ right_part [])"
        "heap_inv st2 p (left_part bs @ carve a (merged bs ?e []) @ right_part [])"
        "same_on (payload True p (coalesced bs ?e [])) (mem st1) (mem st2)" "p + total (left_part bs) < 2 ^ 63"
        by blast
      have "payload True p (coalesced bs ?e []) = payload True p bs" by (simp add: payload_coalesced)
      then have "same_on (payload True p bs) (mem st) (mem st2)" using same_on_trans [OF s(3)] t(4) by simp
      then show ?thesis using m2 s(1) t nz [OF t(5)] 2(2) by auto
    qed
  qed
qed

end
