(* ===== verification/MmResize.thy ===== *)
theory MmResize
  imports MmMalloc
begin

text \<open>
  The steps of \<open>mm_realloc\<close> of \<open>lab7/mm.c\<close> on the list of blocks: a block is cut, or takes the free block
  behind it.  What the owners of blocks write into their payloads keeps the invariant.
\<close>

section \<open>Writing into payloads\<close>

lemma payload_True_apart:
  assumes "big bs" and "16 \<le> p"
  shows "tag_bytes p bs \<subseteq> - payload True p bs" "{..<p} \<subseteq> - payload True p bs" "{p + total bs - 8..} \<subseteq> - payload True p bs"
    "zone (free_at p bs) \<subseteq> - payload True p bs"
proof -
  show t: "tag_bytes p bs \<subseteq> - payload True p bs" using assms payload_tags by blast
  show "{..<p} \<subseteq> - payload True p bs" "{p + total bs - 8..} \<subseteq> - payload True p bs"
    using assms(1) by (auto dest!: payload_bounds)
  have "zone (free_at p bs) \<subseteq> links (free_at p bs) \<union> tag_bytes p bs"
  proof
    fix y assume "y \<in> zone (free_at p bs)"
    then obtain x where x: "x \<in> free_at p bs" "x - 4 \<le> y" "y < x + 16" by (auto simp: zone_def)
    show "y \<in> links (free_at p bs) \<union> tag_bytes p bs"
    proof (cases "y < x")
      case True
      then have "y \<in> {x - 4..<x}" using x by simp
      then show ?thesis using free_at_header [OF x(1)] by blast
    next
      case False
      then have "y \<in> {x..<x + 16}" using x by simp
      then show ?thesis using x(1) unfolding links_def by blast
    qed
  qed
  moreover have "links (free_at p bs) \<subseteq> - payload True p bs"
    using links_payload [OF assms(1), of p] payload_disjoint [of _ p bs] assms(1) by blast
  ultimately show "zone (free_at p bs) \<subseteq> - payload True p bs" using t by blast
qed

text \<open>The owner of a block may write its payload.\<close>

lemma payload_write:
  assumes i: "heap_inv st p bs" and s: "same_on (- payload True p bs) (mem st) m'"
  shows "heap_inv (st\<lparr>mem := m'\<rparr>) p bs"
proof -
  let ?t = "st\<lparr>mem := m'\<rparr>"
  have h: "heap_at st p bs" and l: "listed st (free_at p bs)" using i by (simp_all add: heap_inv_def)
  have b: "big bs" "16 \<le> p" "p + total bs < 2 ^ 63" using heap_at_big [OF h] heap_at_bounds [OF h] by simp_all
  note ap = payload_True_apart [OF b(1,2)]
  have s': "same_on (- payload True p bs) (mem st) (mem ?t)" using s by simp
  have "heap_at ?t p bs"
    by (rule heap_at_same [OF h s' ap(1) order_trans [OF _ ap(2)] order_trans [OF _ ap(3)]]) (use b in auto)
  moreover have "listed ?t (free_at p bs)"
    by (rule listed_same [OF l s' ap(4)]) (use b in \<open>auto dest!: free_at_bounds\<close>)
  ultimately show ?thesis using i by (simp add: heap_inv_def room_def)
qed

section \<open>Blocks that stay\<close>

lemma block_at_takes:
  assumes "block_at p bs q n" and "takes a bs r bs'"
  shows "block_at p bs' q n"
proof -
  obtain xs ys where b: "bs = xs @ (n, True) # ys" "q = p + total xs" using assms(1) by (auto simp: block_at_def)
  obtain us m vs where t: "bs = us @ (m, False) # vs" "a \<le> m" "bs' = us @ carve a m @ vs" using assms(2) by (auto simp: takes_def)
  from b(1) t(1) have "xs @ (n, True) # ys = us @ (m, False) # vs" by simp
  then consider ws where "us = xs @ (n, True) # ws" "ys = ws @ (m, False) # vs"
    | ws where "xs = us @ (m, False) # ws" "vs = ws @ (n, True) # ys"
    by (auto simp: append_eq_append_conv2 Cons_eq_append_conv append_eq_Cons_conv)
  then show ?thesis
  proof cases
    case 1
    then have "bs' = xs @ (n, True) # (ws @ carve a m @ vs)" using t(3) by simp
    then show ?thesis unfolding block_at_def using b(2) by blast
  next
    case 2
    then have "bs' = (us @ carve a m @ ws) @ (n, True) # ys" "q = p + total (us @ carve a m @ ws)"
      using t b(2) by simp_all
    then show ?thesis unfolding block_at_def by blast
  qed
qed

lemma coalesced_end: "coalesced (xs @ (n, True) # ys) e [] = xs @ (n, True) # coalesced ys e []"
  by (cases ys rule: rev_cases) (auto simp: coalesced_def left_part_def right_part_def merged_def free_left_def butlast_append)

lemma block_at_end: "block_at p bs q n \<Longrightarrow> block_at p (coalesced bs e []) q n"
  unfolding block_at_def using coalesced_end by metis

lemma ordinary_same: "ordinary sz bs \<Longrightarrow> bs \<noteq> [] \<Longrightarrow> bs' \<noteq> [] \<Longrightarrow> fst (hd bs') = fst (hd bs) \<Longrightarrow> ordinary sz bs'"
  by (simp add: ordinary_def)

section \<open>Dividing a block\<close>

text \<open>
  The block at \<open>q\<close> has got its new size \<open>a\<close>, and the \<open>k\<close> bytes behind it are made a free block by
  \<open>make_free\<close>, whatever they held.
\<close>

lemma split_finish:
  assumes h: "heap_at st p (xs @ old @ ys)" and n: "total old = a + k" "24 \<le> a" "24 \<le> k" "8 dvd a" "8 dvd k"
    and q: "q = p + total xs"
    and s: "same_on (- ({q - 4..<q + total old - 4} \<union> payload False p xs \<union> payload False (q + total old) ys)) (mem st) (mem s2)"
    and t: "tiles (mem s2) q [(a, True)]" and l: "listed s2 (free_at p xs \<union> free_at (q + a + k) ys)"
    and f: "heap_listp s2 = heap_listp st" "mem_brk s2 = mem_brk st"
  shows "heap_at (make_free (adr (q + a)) (of_nat k) s2) p (xs @ (a, True) # (k, False) # ys)"
    "listed (make_free (adr (q + a)) (of_nat k) s2) (free_at p (xs @ (a, True) # (k, False) # ys))"
    "same_on (payload True p xs \<union> {q..<q + a - 8} \<union> payload True (q + a + k) ys) (mem s2) (mem (make_free (adr (q + a)) (of_nat k) s2))"
proof -
  note hb = heap_at_bounds [OF h] heap_at_big [OF h]
  have b: "a + k < 2 ^ 31" "4 \<le> q" "q + a + k < 2 ^ 63" using hb n q by simp_all
  let ?v = "PACK (of_nat k) 0 :: addr"
  let ?u = "put_tags (adr (q + a)) ?v s2" and ?w = "clear_links (adr (q + a)) (put_tags (adr (q + a)) ?v s2)"
  have v: "ucast ?v = tag k False" using b by simp
  have ub: "k < 2 ^ 31" "4 \<le> q + a" "q + a + k < 2 ^ 63" using b by simp_all
  note u = put_tags_block [OF v n(3,5) ub, of s2]
  have w: "same_on A (mem ?u) (mem ?w)" if "{q + a..<q + a + 16} \<inter> A = {}" for A
    unfolding clear_links_def by (rule links_same [OF that]) (use b in simp)
  have uw: "same_on A (mem s2) (mem ?w)" if "{q + a - 4..<q + a + k - 4} \<subseteq> - A" for A
  proof (rule same_on_trans [OF same_on_mono [OF u(2)] w])
    have "tag_bytes (q + a) [(k, False)] \<subseteq> {q + a - 4..<q + a + k - 4}" using n by auto
    then show "A \<subseteq> - tag_bytes (q + a) [(k, False)]" using that by blast
    have "{q + a..<q + a + 16} \<subseteq> {q + a - 4..<q + a + k - 4}" using n b by auto
    then show "{q + a..<q + a + 16} \<inter> A = {}" using that by blast
  qed
  have fw: "free_listp ?w = free_listp s2" "heap_listp ?w = heap_listp s2" "mem_brk ?w = mem_brk s2"
    using u by (simp_all add: clear_links_def)
  have g1: "tiles (mem ?w) q [(a, True)]" by (rule tiles_same [OF t uw [of "{..<q + a - 4}"]]) (use n b in auto)
  have g2: "tiles (mem ?w) (q + a) [(k, False)]"
    by (rule tiles_same [OF u(1) w [of "tag_bytes (q + a) [(k, False)]"]]) (use n b in auto)
  have st: "same_on (- ({q - 4..<q + total old - 4} \<union> payload False p xs \<union> payload False (q + total old) ys)) (mem st) (mem ?w)"
    by (rule same_on_trans [OF s uw]) (use n b in auto)
  have "heap_at ?w p (xs @ [(a, True), (k, False)] @ ys)"
    unfolding q by (rule heap_at_divide [OF h _ _ st [unfolded q]]) (use g1 g2 n(1) fw f q in simp_all)
  then have hw: "heap_at ?w p ((xs @ [(a, True)]) @ (k, False) # ys)" by simp
  have z: "zone (free_at p xs \<union> free_at (q + a + k) ys) \<subseteq> - {q + a - 4..<q + a + k - 4}"
  proof (rule order_trans)
    show "zone (free_at p xs \<union> free_at (q + a + k) ys) \<subseteq> - {q - 4..<q + a + k - 4}"
      using free_zone(1) [OF h] n(1) q by (simp add: add.assoc)
  qed (use n b in auto)
  have lw: "listed ?w (free_at p xs \<union> free_at (q + a + k) ys)"
    by (rule listed_same [OF l uw z _ fw(1)]) (use free_zone(2) [OF h] n q in \<open>auto simp: add.assoc\<close>)
  have q': "q + a = p + total (xs @ [(a, True)])" using q by simp
  have m: "make_free (adr (q + a)) (of_nat k) s2 = insert_block (adr (q + a)) ?w" by (simp add: make_free_def)
  have "listed ?w (free_at p (xs @ [(a, True)]) \<union> free_at (q + a + k) ys)" using lw by simp
  note e = enter_block [OF hw q' this]
  show "heap_at (make_free (adr (q + a)) (of_nat k) s2) p (xs @ (a, True) # (k, False) # ys)"
    "listed (make_free (adr (q + a)) (of_nat k) s2) (free_at p (xs @ (a, True) # (k, False) # ys))"
    unfolding m using e(1,2) by simp_all
  let ?K = "payload True p xs \<union> {q..<q + a - 8} \<union> payload True (q + a + k) ys"
  have "same_on ?K (mem s2) (mem ?w)"
    by (rule uw) (use hb n q b in \<open>auto dest!: payload_bounds\<close>)
  moreover have "?K \<subseteq> kept p ((xs @ [(a, True)]) @ (k, False) # ys)"
    using q by (auto simp: kept_def add.assoc)
  ultimately show "same_on ?K (mem s2) (mem (make_free (adr (q + a)) (of_nat k) s2))"
    unfolding m using same_on_trans same_on_mono [OF e(3)] by blast
qed

lemma inv_of_parts:
  "heap_at st' p bs' \<Longrightarrow> listed st' (free_at p bs') \<Longrightarrow> separated bs' \<Longrightarrow> room st p bs \<Longrightarrow> extent st' = extent st \<Longrightarrow>
     total bs' = total bs \<Longrightarrow> heap_inv st' p bs'"
  by (simp add: heap_inv_def room_same)

text \<open>A smaller size: what is cut off joins the next block when that is free.\<close>

lemma shrink_block:
  assumes i: "heap_inv st p (xs @ (n, True) # ys)" and q: "q = p + total xs" and a: "24 \<le> a" "8 dvd a" "a + 24 \<le> n"
  shows "heap_inv (realloc_shrink (adr q) (of_nat n) (of_nat a) st) p
      (xs @ (a, True) # (merged [] (n - a) ys, False) # right_part ys)"
    "same_on (payload True p xs \<union> {q..<q + a - 8} \<union> payload True (q + n) ys) (mem st)
      (mem (realloc_shrink (adr q) (of_nat n) (of_nat a) st))"
proof -
  let ?bs = "xs @ (n, True) # ys"
  have h: "heap_at st p ?bs" and l: "listed st (free_at p xs \<union> free_at (q + n) ys)" and s: "separated xs" "separated ys"
    and r: "room st p ?bs"
    using i q by (simp_all add: heap_inv_def)
  note b = heap_at_block [OF h q] and big = heap_at_big [OF h]
  let ?v = "PACK (of_nat a) 1 :: addr"
  let ?t = "put_tags (adr q) ?v st"
  have v: "ucast ?v = tag a True" using b a by simp
  have ab: "a < 2 ^ 31" "q + a < 2 ^ 63" using a b by simp_all
  note t = put_tags_block [OF v a(1,2) ab(1) b(2) ab(2), of st]
  have d: "of_nat n - of_nat a = (of_nat (n - a) :: addr)" using a by (simp add: of_nat_diff)
  have h2: "heap_at st p ((xs @ [(n, True)]) @ ys)" using h by simp
  have nx: "NEXT_BLKP (mem st) (adr q) = adr (q + n)" "NEXT_BLKP (mem ?t) (adr q) = adr (q + a)"
    using tiles_Cons_reads(4) [OF b(1-3)] tiles_Cons_reads(4) [OF t(1) b(2) ab(1)] by simp_all
  have hn: "GET (mem ?t) (adr (q + n - 4)) = GET (mem st) (adr (q + n - 4))"
    by (rule same_on_GET [OF t(2)]) (use a b in auto)
  have na: "GET_ALLOC (mem ?t) (HDRP (adr (q + n))) \<longleftrightarrow> \<not> free_right ys"
    using next_alloc [OF h2, of "q + n"] q hn b by (auto simp: GET_ALLOC_def HDRP_adr free_right_def)
  have tt: "same_on (payload True p xs \<union> {q..<q + a - 8} \<union> payload True (q + n) ys) (mem st) (mem ?t)"
    by (rule same_on_mono [OF t(2)]) (use big q a in \<open>auto dest!: payload_bounds\<close>)
  have lt: "listed ?t (free_at p xs \<union> free_at (q + n) ys)"
  proof (rule listed_same [OF l t(2) _ _ t(3)])
    have h1: "heap_at st p (xs @ [(n, True)] @ ys)" using h by simp
    have "zone (free_at p xs \<union> free_at (q + n) ys) \<subseteq> - {q - 4..<q + n - 4}" using free_zone(1) [OF h1] q by simp
    then show "zone (free_at p xs \<union> free_at (q + n) ys) \<subseteq> - tag_bytes q [(a, True)]"
      by (rule order_trans) (use a in auto)
    show "\<forall>x \<in> free_at p xs \<union> free_at (q + n) ys. 4 \<le> x \<and> x + 24 < 2 ^ 64" using free_zone(2) [OF h1] q by simp
  qed
  let ?R = "realloc_shrink (adr q) (of_nat n) (of_nat a) st"
  have x: "extent ?R = extent st" by simp
  have *: "heap_inv ?R p (xs @ (a, True) # (merged [] (n - a) ys, False) # right_part ys) \<and>
    same_on (payload True p xs \<union> {q..<q + a - 8} \<union> payload True (q + n) ys) (mem st) (mem ?R)"
  proof (cases "free_right ys")
    case False
    have e: "?R = make_free (adr (q + a)) (of_nat (n - a)) ?t"
      using na False nx d by (simp add: realloc_shrink_def Let_def)
    have h0: "heap_at st p (xs @ [(n, True)] @ ys)" using h by simp
    have k: "total [(n, True)] = a + (n - a)" "24 \<le> n - a" "8 dvd n - a" using a b by simp_all
    have st: "same_on (- ({q - 4..<q + total [(n, True)] - 4} \<union> payload False p xs \<union>
        payload False (q + total [(n, True)]) ys)) (mem st) (mem ?t)"
      by (rule same_on_mono [OF t(2)]) (use a in auto)
    have lt': "listed ?t (free_at p xs \<union> free_at (q + a + (n - a)) ys)" using lt a by simp
    note f = split_finish [OF h0 k(1) a(1) k(2) a(2) k(3) q st t(1) lt' t(4,5)]
    have "heap_inv ?R p (xs @ (a, True) # (n - a, False) # ys)"
      by (rule inv_of_parts [OF _ _ _ r x]) (use f(1,2) e s False a in simp_all)
    moreover have "same_on (payload True p xs \<union> {q..<q + a - 8} \<union> payload True (q + n) ys) (mem ?t) (mem ?R)"
      unfolding e using f(3) a by simp
    ultimately show ?thesis using False same_on_trans [OF tt] by (simp add: merged_def right_part_def)
  next
    case True
    then obtain j zs where y: "ys = (j, False) # zs" by (cases ys) (auto simp: free_right_def)
    have h0: "heap_at st p (xs @ [(n, True), (j, False)] @ zs)" using h y by simp
    have h3: "heap_at st p ((xs @ [(n, True)]) @ (j, False) # zs)" using h y by simp
    have q3: "q + n = p + total (xs @ [(n, True)])" using q by simp
    note bj = heap_at_block [OF h3 q3]
    let ?F = "free_at p xs \<union> free_at (q + n) ys" and ?u = "remove_block (adr (q + n)) ?t"
    have F: "?F \<subseteq> free_at p ?bs" using q by auto
    note rm = remove_block_listed [OF lt spaced_free [OF h F], of "q + n"]
    have lk: "links ?F \<subseteq> payload False p xs \<union> payload False (q + n) ys"
      using links_payload [of xs p] links_payload [of ys "q + n"] big by (auto simp: links_def)
    have un: "q + n \<in> ?F" using y by simp
    have su: "same_on (- (payload False p xs \<union> payload False (q + n) ys)) (mem ?t) (mem ?u)"
      by (rule same_on_mono [OF rm(2) [OF un]]) (use lk in blast)
    let ?k = "n - a + j"
    have sz: "SIZE (mem ?u) (HDRP (adr (q + n))) = of_nat j"
    proof -
      have "same_on {q + n - 4..<q + n} (mem ?t) (mem ?u)"
        by (rule same_on_mono [OF su]) (use big q b in \<open>auto dest!: payload_bounds\<close>)
      then have "GET (mem ?u) (adr (q + n - 4)) = GET (mem ?t) (adr (q + n - 4))" by (rule same_on_GET) (use b in auto)
      then show ?thesis using header_reads(2) [of "mem ?u" "q + n" j False] hn bj by simp
    qed
    have e: "?R = make_free (adr (q + a)) (of_nat ?k) ?u"
      using na True nx d sz by (simp add: realloc_shrink_def Let_def)
    have k: "total [(n, True), (j, False)] = a + ?k" "24 \<le> ?k" "8 dvd ?k" using a b bj by simp_all
    have tu: "tiles (mem ?u) q [(a, True)]"
      by (rule tiles_same [OF t(1) su]) (use a b ab big q in \<open>auto dest!: payload_bounds\<close>)
    have st: "same_on (- ({q - 4..<q + total [(n, True), (j, False)] - 4} \<union> payload False p xs \<union>
        payload False (q + total [(n, True), (j, False)]) zs)) (mem st) (mem ?u)"
      by (rule same_on_trans [OF same_on_mono [OF t(2)] same_on_mono [OF su]]) (use a y in \<open>auto simp: add.assoc\<close>)
    have lu: "listed ?u (free_at p xs \<union> free_at (q + a + ?k) zs)"
    proof -
      have "?F - {q + n} = free_at p xs \<union> free_at (q + n + j) zs" using big q y by (auto dest!: free_at_bounds)
      moreover have "q + a + ?k = q + n + j" using a by simp
      ultimately show ?thesis using rm(1) [OF un] by (simp add: add.assoc)
    qed
    have f: "heap_listp ?u = heap_listp st" "mem_brk ?u = mem_brk st"
      using t(4,5) by (simp_all add: remove_block_def Let_def)
    note f = split_finish [OF h0 k(1) a(1) k(2) a(2) k(3) q st tu lu f]
    have A: "heap_inv ?R p (xs @ (a, True) # (?k, False) # zs)"
      by (rule inv_of_parts [OF _ _ _ r x]) (use f(1,2) e s y a in simp_all)
    have B: "same_on (payload True p xs \<union> {q..<q + a - 8} \<union> payload True (q + n) ys) (mem ?u) (mem ?R)"
      unfolding e using f(3) y a by (simp add: add.assoc)
    have C: "same_on (payload True p xs \<union> {q..<q + a - 8} \<union> payload True (q + n) ys) (mem ?t) (mem ?u)"
    proof (rule same_on_mono [OF su])
      have "payload False p xs \<union> payload False (q + n) ys \<subseteq> payload False p ?bs" using q by auto
      moreover have "payload True p xs \<union> {q..<q + a - 8} \<union> payload True (q + n) ys \<subseteq> payload True p ?bs" using q a by auto
      ultimately show "payload True p xs \<union> {q..<q + a - 8} \<union> payload True (q + n) ys \<subseteq>
          - (payload False p xs \<union> payload False (q + n) ys)"
        using payload_disjoint [of _ p ?bs] big by blast
    qed
    have "merged [] (n - a) ys = ?k" "right_part ys = zs" using y by (simp_all add: merged_def right_part_def)
    then show ?thesis using A same_on_trans [OF tt same_on_trans [OF C B]] by simp
  qed
  then show "heap_inv ?R p (xs @ (a, True) # (merged [] (n - a) ys, False) # right_part ys)"
    "same_on (payload True p xs \<union> {q..<q + a - 8} \<union> payload True (q + n) ys) (mem st) (mem ?R)" by simp_all
qed

lemma lt_of_nat: "n < 2 ^ 64 \<Longrightarrow> a < 2 ^ 64 \<Longrightarrow> (of_nat n :: addr) < of_nat a \<longleftrightarrow> n < a"
  by (simp add: word_less_nat_alt unat_of_nat)

text \<open>A larger size: the block takes the free block behind it and gives back what it does not need.\<close>

lemma merge_next_block:
  assumes i: "heap_inv st p (xs @ (n, True) # (j, False) # ys)" and q: "q = p + total xs"
    and a: "24 \<le> a" "8 dvd a" "n \<le> a" "a \<le> n + j"
  shows "heap_inv (merge_next (adr q) (of_nat (n + j)) (of_nat a) st) p (xs @ carve a (n + j) @ ys)"
    "same_on (payload True p (xs @ (n, True) # (j, False) # ys)) (mem st) (mem (merge_next (adr q) (of_nat (n + j)) (of_nat a) st))"
proof -
  let ?bs = "xs @ (n, True) # (j, False) # ys"
  let ?K = "payload True p ?bs"
  have h: "heap_at st p ?bs" and l: "listed st (free_at p ?bs)" and s: "separated ?bs" and r: "room st p ?bs"
    using i by (simp_all add: heap_inv_def)
  have h3: "heap_at st p ((xs @ [(n, True)]) @ (j, False) # ys)" using h by simp
  have q3: "q + n = p + total (xs @ [(n, True)])" using q by simp
  note b = heap_at_block [OF h q] and bj = heap_at_block [OF h3 q3] and big = heap_at_big [OF h]
  let ?u = "remove_block (adr (q + n)) st"
  have l3: "listed st (free_at p ((xs @ [(n, True)]) @ (j, False) # ys))" using l by simp
  have F: "q + n \<in> free_at p ((xs @ [(n, True)]) @ (j, False) # ys)" using q by simp
  note lv = leave_block [OF h3 q3 l3 order_refl F]
  have m: "free_at p ((xs @ [(n, True)]) @ (j, False) # ys) - {q + n} = free_at p xs \<union> free_at (q + (n + j)) ys"
    using free_at_minus [OF heap_at_big [OF h3] q3] by (simp add: add.assoc)
  have hu: "heap_at ?u p (xs @ [(n, True), (j, False)] @ ys)" using lv(1) by simp
  have lu: "listed ?u (free_at p xs \<union> free_at (q + (n + j)) ys)" using lv(2) unfolding m .
  have "?K \<subseteq> kept p ((xs @ [(n, True)]) @ (j, False) # ys)" by (auto simp: kept_def)
  then have ku: "same_on ?K (mem st) (mem ?u)" by (rule same_on_mono [OF lv(3)])
  have d: "of_nat (n + j) - of_nat a = (of_nat (n + j - a) :: addr)" "(of_nat (n + j - a) :: addr) < 24 \<longleftrightarrow> n + j - a < 24"
  proof -
    have "n + j - a < 2 ^ 64" using b bj by simp
    then show "(of_nat (n + j - a) :: addr) < 24 \<longleftrightarrow> n + j - a < 24"
      using lt_of_nat [of "n + j - a" 24] by (simp only: of_nat_numeral) simp
  qed (rule of_nat_diff_word [OF a(4)])
  have nx: "NEXT_BLKP (mem st) (adr q) = adr (q + n)" using tiles_Cons_reads(4) [OF b(1-3)] .
  let ?R = "merge_next (adr q) (of_nat (n + j)) (of_nat a) st"
  have x: "extent ?R = extent st" by simp
  have "freed st p ?K (xs @ carve a (n + j) @ ys) ?R"
  proof (cases "24 \<le> n + j - a")
    case False
    let ?v = "PACK (of_nat (n + j)) 1 :: addr"
    have nj: "24 \<le> n + j" "8 dvd n + j" "n + j < 2 ^ 31" "q + (n + j) < 2 ^ 63"
      using b bj heap_at_bounds [OF h] by simp_all
    have v: "ucast ?v = tag (n + j) True" by (rule tag_pack_simps(2)) (use nj in simp)
    have e: "?R = put_tags (adr q) ?v ?u"
      unfolding merge_next_def Let_def nx d(1) DSIZE_def using d(2) False by simp
    note t = put_tags_block [OF v nj(1-3) b(2) nj(4), of ?u]
    have k: "same_on ?K (mem ?u) (mem ?R)"
      unfolding e by (rule same_on_mono [OF t(2)]) (use big q b bj in \<open>auto dest!: payload_bounds\<close>)
    have "heap_at ?R p (xs @ (n + j, True) # ys)" "listed ?R (free_at p xs \<union> free_at (q + (n + j)) ys)"
      unfolding e using retag_one [OF hu, of "n + j" "put_tags (adr q) ?v ?u" True] t lu q nj(1) by (simp_all add: add.assoc)
    then show ?thesis using same_on_trans [OF ku k] False q by (simp add: carve_def freed_def add.assoc)
  next
    case True
    let ?v = "PACK (of_nat a) 1 :: addr" and ?k = "n + j - a"
    let ?t = "put_tags (adr q) ?v ?u"
    have ab: "a < 2 ^ 31" "q + a < 2 ^ 63" using a True b bj heap_at_bounds [OF h] by simp_all
    have v: "ucast ?v = tag a True" by (rule tag_pack_simps(2)) (use ab in simp)
    note t = put_tags_block [OF v a(1,2) ab(1) b(2) ab(2), of ?u]
    have e: "?R = make_free (adr (q + a)) (of_nat ?k) ?t"
      unfolding merge_next_def Let_def nx d(1) DSIZE_def using d(2) True tiles_Cons_reads(4) [OF t(1) b(2) ab(1)] by simp
    have k: "total [(n, True), (j, False)] = a + ?k" "8 dvd ?k" using a b bj by simp_all
    have st: "same_on (- ({q - 4..<q + total [(n, True), (j, False)] - 4} \<union> payload False p xs \<union>
        payload False (q + total [(n, True), (j, False)]) ys)) (mem ?u) (mem ?t)"
      by (rule same_on_mono [OF t(2)]) (use a True in auto)
    have lt: "listed ?t (free_at p xs \<union> free_at (q + a + ?k) ys)"
    proof -
      have "zone (free_at p xs \<union> free_at (q + (n + j)) ys) \<subseteq> - {q - 4..<q + (n + j) - 4}"
        using free_zone(1) [OF hu] q by (simp add: add.assoc)
      then have "zone (free_at p xs \<union> free_at (q + (n + j)) ys) \<subseteq> - tag_bytes q [(a, True)]"
        by (rule order_trans) (use a True in auto)
      then show ?thesis
        using listed_same [OF lu t(2) _ _ t(3)] free_zone(2) [OF hu] q a by (simp add: add.assoc)
    qed
    note f = split_finish [OF hu k(1) a(1) True a(2) k(2) q st t(1) lt t(4,5)]
    have sub: "?K \<subseteq> payload True p xs \<union> {q..<q + a - 8} \<union> payload True (q + a + ?k) ys"
      using q a by (auto simp: add.assoc)
    have "same_on ?K (mem ?u) (mem ?t)"
      by (rule same_on_mono [OF t(2)]) (use big q a b bj in \<open>auto dest!: payload_bounds\<close>)
    then have "same_on ?K (mem ?u) (mem ?R)" unfolding e using same_on_trans same_on_mono [OF f(3) sub] by blast
    then show ?thesis using f(1,2) True same_on_trans [OF ku] e by (simp add: carve_def freed_def)
  qed
  moreover have "separated (xs @ carve a (n + j) @ ys)" using s by (auto simp: carve_def)
  ultimately show "heap_inv ?R p (xs @ carve a (n + j) @ ys)" "same_on ?K (mem st) (mem ?R)"
    using inv_of_parts [OF _ _ _ r x] a by (simp_all add: freed_def)
qed

end
