(* ===== verification/MmRealloc.thy ===== *)
theory MmRealloc
  imports MmResize
begin

text \<open>
  \<open>mm_realloc\<close> of \<open>lab7/mm.c\<close> on the list of blocks: whatever way it takes, the heap stays one of blocks,
  the contents of the block are kept and no other payload changes.
\<close>

lemma same_on_adr: "same_on A m m' \<Longrightarrow> x \<in> A \<Longrightarrow> x < 2 ^ 64 \<Longrightarrow> m' (adr x) = m (adr x)"
  by (simp add: same_on_def)

lemma adr_NULL: "r < 2 ^ 64 \<Longrightarrow> 0 < r \<Longrightarrow> adr r \<noteq> NULL"
  using unat_adr [of r] by (metis NULL_def unat_0 less_irrefl)

section \<open>Extending the heap behind a block\<close>

definition extended :: "mm_t \<Rightarrow> nat \<Rightarrow> block list \<Rightarrow> nat \<Rightarrow> block list \<Rightarrow> mm_t \<Rightarrow> block list \<Rightarrow> bool" where
  "extended st p xs n ys st' ys' \<longleftrightarrow> heap_inv st' p (xs @ (n, True) # ys') \<and>
     payload True p (xs @ (n, True) # ys') = payload True p (xs @ (n, True) # ys) \<and>
     same_on (payload True p (xs @ (n, True) # ys)) (mem st) (mem st')"

lemma extended_refl: "heap_inv st p (xs @ (n, True) # ys) \<Longrightarrow> extended st p xs n ys st ys"
  by (simp add: extended_def)

lemma extended_trans: "extended st p xs n ys st1 ys1 \<Longrightarrow> extended st1 p xs n ys1 st2 ys2 \<Longrightarrow> extended st p xs n ys st2 ys2"
  unfolding extended_def using same_on_trans by metis

lemma extended_inv: "extended st p xs n ys st' ys' \<Longrightarrow> heap_inv st' p (xs @ (n, True) # ys')"
  by (simp add: extended_def)

lemma extend_if_block:
  assumes i: "heap_inv st p (xs @ (n, True) # ys)"
  shows "extend_if c st = Inl st \<or>
    (\<exists>st'. extend_if c st = Inr st' \<and> extended st p xs n ys st' (if c then coalesced ys 4096 [] else ys))"
proof (cases c)
  case False
  then show ?thesis using extended_refl [OF i] by (simp add: extend_if_def)
next
  case True
  have w: "CHUNKSIZE div WSIZE = of_nat (4096 div 4)" by (simp add: CHUNKSIZE_def WSIZE_def)
  let ?bs = "xs @ (n, True) # ys"
  have h: "heap_at st p ?bs" using i by (simp add: heap_inv_def)
  note x = extend_block [OF i, of 4096, folded w]
  show ?thesis
  proof (cases "p + total ?bs + 4096 \<le> unat (mem_max_addr st)")
    case False
    then show ?thesis using x True by (simp add: extend_if_def)
  next
    case room: True
    then obtain st' where s: "extend_heap (CHUNKSIZE div WSIZE) st = (adr (p + total (left_part ?bs)), st')"
      "heap_inv st' p (coalesced ?bs 4096 [])" "same_on (payload True p ?bs) (mem st) (mem st')"
      using x by auto
    have "total (left_part ?bs) \<le> total ?bs" by (cases ys rule: rev_cases) (auto simp: left_part_def butlast_append)
    then have "adr (p + total (left_part ?bs)) \<noteq> NULL"
      using heap_at_bounds [OF h] adr_eq [of "p + total (left_part ?bs)" 0] by (simp add: NULL_def adr_def)
    moreover have "payload True p (coalesced ?bs 4096 []) = payload True p ?bs" by (simp add: payload_coalesced)
    ultimately show ?thesis using s True by (simp add: extend_if_def extended_def coalesced_end)
  qed
qed

lemma extend_before_block:
  assumes i: "heap_inv st p (xs @ (n, True) # ys)"
  shows "\<exists>st' ys'. (extend_before r st = Inl st' \<or> extend_before r st = Inr st') \<and> extended st p xs n ys st' ys'"
proof -
  have e: "\<exists>ys'. extended st p xs n ys st' ys'" if t: "extended st p xs n ys t ts" "extend_if c t = Inl st' \<or> extend_if c t = Inr st'"
    for c t ts st'
  proof -
    from extend_if_block [OF extended_inv [OF t(1)], of c] consider "extend_if c t = Inl t"
      | u us where "extend_if c t = Inr u" "extended t p xs n ts u us" by blast
    then show ?thesis using t extended_trans [OF t(1)] by cases auto
  qed
  from extend_before_cases [where q = r and st = st, OF refl] consider
      c t where "extend_if c st = Inl t" "extend_before r st = Inl t"
    | c t c' u where "extend_if c st = Inr t" "extend_if c' t = Inl u" "extend_before r st = Inl u"
    | c t c' u c'' where "extend_if c st = Inr t" "extend_if c' t = Inr u" "extend_if c'' u = extend_before r st"
    by blast
  then show ?thesis
  proof cases
    case 1
    then show ?thesis using e [OF extended_refl [OF i]] by blast
  next
    case 2
    then obtain ts where "extended st p xs n ys t ts" using e [OF extended_refl [OF i]] by blast
    then show ?thesis using e 2 by blast
  next
    case 3
    then obtain ts where "extended st p xs n ys t ts" using e [OF extended_refl [OF i]] by blast
    then obtain us where "extended st p xs n ys u us" using e 3(2) by blast
    then show ?thesis using e [of u us c''] 3(3) by (cases "extend_before r st") auto
  qed
qed

section \<open>Moving a block\<close>

lemma big_coalesced: "big xs \<Longrightarrow> big ys \<Longrightarrow> 24 \<le> n \<Longrightarrow> big (coalesced xs n ys)"
proof -
  assume a: "big xs" "big ys" "24 \<le> n"
  have "big (left_part xs)" using a(1) by (cases xs rule: rev_cases) (auto simp: left_part_def)
  moreover have "big (right_part ys)" using a(2) by (cases ys) (auto simp: right_part_def)
  ultimately show ?thesis using a(3) by (simp add: coalesced_def merged_def)
qed

lemma coalesced_inner:
  "coalesced (ws @ (m, True) # zs) n ys = ws @ (m, True) # coalesced zs n ys"
  "coalesced xs n (zs @ (m, True) # ws) = coalesced xs n zs @ (m, True) # ws"
  by (cases zs rule: rev_cases; auto simp: coalesced_def left_part_def right_part_def merged_def free_left_def butlast_append)
    (cases zs; auto simp: coalesced_def left_part_def right_part_def merged_def free_right_def)

lemma block_at_coalesced:
  assumes "block_at p (us @ (n, True) # vs) r m" and "q = p + total us" and "r \<noteq> q"
  shows "block_at p (coalesced us n vs) r m"
proof -
  obtain xs ys where b: "us @ (n, True) # vs = xs @ (m, True) # ys" "r = p + total xs" using assms(1) by (auto simp: block_at_def)
  have "xs \<noteq> us" using assms b(2) by auto
  with b(1) consider ws where "us = xs @ (m, True) # ws" | ws where "xs = us @ (n, True) # ws" "vs = ws @ (m, True) # ys"
    by (auto simp: append_eq_append_conv2 Cons_eq_append_conv append_eq_Cons_conv)
  then show ?thesis
  proof cases
    case 1
    then show ?thesis unfolding block_at_def using b(2) coalesced_inner(1) by blast
  next
    case 2
    then have "r = p + total (coalesced us n ws)" using b(2) by simp
    then show ?thesis unfolding block_at_def 2(2) coalesced_inner(2) by blast
  qed
qed

lemma memcpy_nat:
  assumes "r + k < 2 ^ 63" and "s + k < 2 ^ 63"
  shows "i < k \<Longrightarrow> memcpy m (adr r) (adr s) (of_nat k) (adr (r + i)) = m (adr (s + i))"
    "same_on (- {r..<r + k}) m (memcpy m (adr r) (adr s) (of_nat k))"
proof -
  show "memcpy m (adr r) (adr s) (of_nat k) (adr (r + i)) = m (adr (s + i))" if "i < k"
  proof -
    have "adr (r + i) - adr r = of_nat i" by (simp add: adr_def)
    moreover have "(of_nat i :: addr) < of_nat k" using that assms by (intro lt_of_nat [THEN iffD2]) simp_all
    ultimately show ?thesis by (simp add: memcpy_def adr_add)
  qed
  show "same_on (- {r..<r + k}) m (memcpy m (adr r) (adr s) (of_nat k))"
    unfolding same_on_def
  proof (intro allI impI)
    fix a :: addr assume a: "unat a \<in> - {r..<r + k}"
    have "\<not> a - adr r < of_nat k"
    proof
      assume "a - adr r < of_nat k"
      then have u: "unat (a - adr r) < k" using assms by (simp add: word_less_nat_alt unat_of_nat)
      have "a = adr (r + unat (a - adr r))" by (simp add: adr_def)
      moreover have "unat (adr (r + unat (a - adr r))) = r + unat (a - adr r)" by (rule unat_adr) (use u assms in simp)
      ultimately have "unat a = r + unat (a - adr r)" by simp
      then show False using a u by simp
    qed
    then show "memcpy m (adr r) (adr s) (of_nat k) a = m a" by (simp add: memcpy_def)
  qed
qed

text \<open>
  The block \<open>q\<close> of \<open>n\<close> bytes has become the block \<open>r\<close> of \<open>m\<close> bytes with the same contents, as far as
  both reach; the other payloads are what they were.
\<close>

definition resized :: "mm_t \<Rightarrow> nat \<Rightarrow> block list \<Rightarrow> nat \<Rightarrow> nat \<Rightarrow> mm_t \<Rightarrow> block list \<Rightarrow> nat \<Rightarrow> nat \<Rightarrow> bool" where
  "resized st p bs q n st' bs' r m \<longleftrightarrow> heap_inv st' p bs' \<and> block_at p bs' r m \<and>
     others p bs' r m = others p bs q n \<and> same_on (others p bs q n) (mem st) (mem st') \<and>
     (\<forall>i < min n m - 8. mem st' (adr (r + i)) = mem st (adr (q + i)))"

lemma block_at_bounds:
  assumes "heap_inv st p bs" and "block_at p bs q n"
  shows "q + n < 2 ^ 63" "16 \<le> q" "{q..<q + n - 8} \<subseteq> payload True p bs" "24 \<le> n" "n < 2 ^ 31" "8 dvd n"
proof -
  obtain xs ys where b: "bs = xs @ (n, True) # ys" "q = p + total xs" using assms(2) by (auto simp: block_at_def)
  have h: "heap_at st p (xs @ (n, True) # ys)" using assms(1) b by (simp add: heap_inv_def)
  show "q + n < 2 ^ 63" "16 \<le> q" "{q..<q + n - 8} \<subseteq> payload True p bs" "24 \<le> n" "n < 2 ^ 31" "8 dvd n"
    using heap_at_block [OF h b(2)] heap_at_bounds [OF h] b by auto
qed

text \<open>
  After the copy both blocks are allocated.  When \<open>mm_free\<close> then takes the old one for a block, and not for
  one of the coalescing trace, the block has moved.
\<close>

lemma move_block:
  assumes i: "heap_inv st p bs" and b: "block_at p bs q n" and o: "ordinary sz bs" and a: "a = unat (adjust sz)" "n \<le> a"
  shows "realloc_move (adr q) sz (of_nat n) st = Some (NULL, st) \<or>
    (\<exists>r m st3. realloc_move (adr q) sz (of_nat n) st = Some (adr r, mm_free (adr q) st3) \<and> r \<noteq> q \<and>
      a \<le> m \<and> (mem st3 (adr (q + 4095)) \<noteq> - 1 \<and> mem st3 (adr (q + 8191)) \<noteq> - 1 \<longrightarrow>
        (\<exists>bs'. resized st p bs q n (mm_free (adr q) st3) bs' r m)))"
proof -
  have h: "heap_at st p bs" using i by (simp add: heap_inv_def)
  have A: "24 \<le> a" using adjust_nat(2) [OF _ a(1)] o by (simp add: ordinary_def)
  note bb = block_at_bounds [OF i b]
  from malloc_block [OF i o a(1)] consider
      "mm_malloc sz st = Some (NULL, st)"
    | k bs2 st2 cs where "mm_malloc sz st = Some (adr (p + k), st2)" "takes a cs k bs2" "heap_inv st2 p bs2"
        "same_on (payload True p bs) (mem st) (mem st2)" "cs = bs \<or> cs = coalesced bs (max a 4096) []"
    by blast
  then show ?thesis
  proof cases
    case 1
    then show ?thesis by (simp add: realloc_move_def)
  next
    case 2
    have c: "block_at p cs q n" using 2(5) b block_at_end by blast
    have b2: "block_at p bs2 q n" by (rule block_at_takes [OF c 2(2)])
    have pc: "payload True p cs = payload True p bs" using 2(5) by (auto simp: payload_coalesced)
    have "big cs" using 2(5) heap_at_big [OF h] A by (auto intro: big_coalesced)
    then obtain m where m: "a \<le> m" "block_at p bs2 (p + k) m" "{p + k..<p + k + m - 8} \<inter> payload True p cs = {}"
      "payload True p bs2 = payload True p cs \<union> {p + k..<p + k + m - 8}"
      using takes_payload [OF 2(2) _ A, of p] by blast
    note mb = block_at_bounds [OF 2(3) m(2)]
    let ?r = "p + k" and ?w = "memcpy (mem st2) (adr (p + k)) (adr q) (of_nat n - DSIZE)"
    have "q \<in> payload True p cs" using bb(3,4) pc by auto
    moreover have "p + k \<in> {p + k..<p + k + m - 8}" using mb(4) by simp
    ultimately have ne: "?r \<noteq> q" using m(3) by auto
    have rb: "?r < 2 ^ 64" "q < 2 ^ 64" using mb(1) bb(1) by simp_all
    have "adr ?r \<noteq> NULL" by (rule adr_NULL [OF rb(1)]) (use mb(2) in linarith)
    moreover have "adr ?r \<noteq> adr q" using ne adr_eq [OF rb] by simp
    ultimately have nn: "adr ?r \<noteq> NULL" "adr ?r \<noteq> adr q" .
    have d: "of_nat n - DSIZE = (of_nat (n - 8) :: addr)" using of_nat_diff_word [of 8 n] bb(4) by (simp add: DSIZE_def)
    have le: "?r + (n - 8) < 2 ^ 63" "q + (n - 8) < 2 ^ 63" using mb(1,4) bb(1,4) m(1) a(2) by simp_all
    note cp = memcpy_nat [OF le, folded d]
    let ?s = "st2\<lparr>mem := ?w\<rparr>"
    have rng: "{?r..<?r + (n - 8)} \<subseteq> {?r..<?r + m - 8}" using m(1) a(2) bb(4) by auto
    have iw: "heap_inv ?s p bs2"
      by (rule payload_write [OF 2(3) same_on_mono [OF cp(2)]]) (use m(4) rng in blast)
    have e: "realloc_move (adr q) sz (of_nat n) st = Some (adr ?r, mm_free (adr q) ?s)"
      using 2(1) nn by (simp add: realloc_move_def Let_def)
    have keep: "same_on (payload True p bs) (mem st) (mem ?s)"
    proof (rule same_on_trans [OF 2(4)])
      have "payload True p bs \<subseteq> - {?r..<?r + (n - 8)}" using rng m(3) pc by blast
      then show "same_on (payload True p bs) (mem st2) (mem ?s)" using same_on_mono [OF cp(2)] by simp
    qed
    have "\<exists>bs'. resized st p bs q n (mm_free (adr q) ?s) bs' ?r m"
      if ff: "mem ?s (adr (q + 4095)) \<noteq> - 1" "mem ?s (adr (q + 8191)) \<noteq> - 1"
    proof -
      obtain us vs where u: "bs2 = us @ (n, True) # vs" "q = p + total us" using b2 by (auto simp: block_at_def)
      note f = free_block [OF iw [unfolded u(1)] u(2) ff]
      let ?bs' = "coalesced us n vs"
      have pl: "payload True p ?bs' = others p bs2 q n"
        using others_split [of us n vs q p] heap_at_big [of ?s p bs2] iw u by (simp add: payload_coalesced heap_inv_def)
      have pp: "others p bs2 q n = others p bs q n \<union> {?r..<?r + m - 8}"
        using m(3,4) pc bb(3) by (auto simp: others_def)
      have oth: "others p ?bs' ?r m = others p bs q n"
        using pl pp m(3) pc by (auto simp: others_def)
      have kp: "payload True p ?bs' \<subseteq> kept p (us @ (n, False) # vs)" by (auto simp: payload_coalesced kept_def)
      have "same_on (payload True p ?bs') (mem ?s) (mem (mm_free (adr q) ?s))" by (rule same_on_mono [OF f(2) kp])
      moreover have s1: "same_on (others p bs q n) (mem st) (mem ?s)" by (rule same_on_mono [OF keep]) (auto simp: others_def)
      ultimately have so: "same_on (others p bs q n) (mem st) (mem (mm_free (adr q) ?s))"
        using same_on_trans [OF s1 same_on_mono] pl pp by blast
      have ct: "mem (mm_free (adr q) ?s) (adr (?r + i)) = mem st (adr (q + i))" if j: "i < min n m - 8" for i
      proof -
        have "?r + i \<in> payload True p ?bs'" using j pl pp by auto
        then have "mem (mm_free (adr q) ?s) (adr (?r + i)) = mem ?s (adr (?r + i))"
          using same_on_mono [OF f(2) kp] j mb(1) by (simp add: same_on_def)
        also have "\<dots> = mem st2 (adr (q + i))" using cp(1) [of i] j by simp
        also have "\<dots> = mem st (adr (q + i))"
        proof (rule same_on_adr [OF 2(4)])
          have "q + i \<in> {q..<q + n - 8}" using j by auto
          then show "q + i \<in> payload True p bs" using bb(3) by blast
        qed (use j bb(1) in simp)
        finally show ?thesis .
      qed
      have "block_at p ?bs' ?r m" by (rule block_at_coalesced [OF m(2) [unfolded u(1)] u(2) ne])
      then show ?thesis using f(1) oth so ct unfolding resized_def by blast
    qed
    then show ?thesis using e ne m(1) by blast
  qed
qed

section \<open>\<open>mm_realloc\<close>\<close>

text \<open>
  What \<open>mm_realloc\<close> may return for a block: the null pointer, with the block as it was; the same address,
  with the block resized; or another address, when the copied block was freed.
\<close>

definition realloc_ok :: "mm_t \<Rightarrow> nat \<Rightarrow> block list \<Rightarrow> nat \<Rightarrow> nat \<Rightarrow> nat \<Rightarrow> (addr \<times> mm_t) option \<Rightarrow> bool" where
  "realloc_ok st p bs q n a res \<longleftrightarrow>
     (\<exists>st' bs'. res = Some (NULL, st') \<and> resized st p bs q n st' bs' q n) \<or>
     (\<exists>st' bs' m. res = Some (adr q, st') \<and> a \<le> m \<and> resized st p bs q n st' bs' q m) \<or>
     (\<exists>r m st3. res = Some (adr r, mm_free (adr q) st3) \<and> r \<noteq> q \<and> a \<le> m \<and>
       (mem st3 (adr (q + 4095)) \<noteq> - 1 \<and> mem st3 (adr (q + 8191)) \<noteq> - 1 \<longrightarrow>
         (\<exists>bs'. resized st p bs q n (mm_free (adr q) st3) bs' r m)))"

lemma resized_extended:
  assumes e: "extended st p xs n ys st1 ys1" and i: "heap_inv st p (xs @ (n, True) # ys)" and q: "q = p + total xs"
    and r: "resized st1 p (xs @ (n, True) # ys1) q n st' bs' r m"
  shows "resized st p (xs @ (n, True) # ys) q n st' bs' r m"
proof -
  let ?bs = "xs @ (n, True) # ys"
  have o: "others p (xs @ (n, True) # ys1) q n = others p ?bs q n" using e by (simp add: extended_def others_def)
  have s: "same_on (payload True p ?bs) (mem st) (mem st1)" using e by (simp add: extended_def)
  have "same_on (others p ?bs q n) (mem st) (mem st1)" by (rule same_on_mono [OF s]) (auto simp: others_def)
  moreover have "mem st1 (adr (q + i)) = mem st (adr (q + i))" if j: "i < n - 8" for i
  proof (rule same_on_adr [OF s])
    show "q + i \<in> payload True p ?bs" using j q by auto
    have "heap_at st p ?bs" using i by (simp add: heap_inv_def)
    from heap_at_block(6) [OF this q] show "q + i < 2 ^ 64" using j by simp
  qed
  ultimately show ?thesis using r o same_on_trans by (auto simp: resized_def)
qed

lemma realloc_ok_extended:
  assumes "extended st p xs n ys st1 ys1" and "heap_inv st p (xs @ (n, True) # ys)" and "q = p + total xs"
    and "realloc_ok st1 p (xs @ (n, True) # ys1) q n a res"
  shows "realloc_ok st p (xs @ (n, True) # ys) q n a res"
  using assms(4) resized_extended [OF assms(1-3)] unfolding realloc_ok_def by blast

lemma resized_refl:
  assumes "heap_inv st p (xs @ (n, True) # ys)" and "q = p + total xs"
  shows "resized st p (xs @ (n, True) # ys) q n st (xs @ (n, True) # ys) q n"
  using assms by (auto simp: resized_def block_at_def)

lemma realloc_ok_same:
  assumes "heap_inv st p (xs @ (n, True) # ys)" and "q = p + total xs"
  shows "realloc_ok st p (xs @ (n, True) # ys) q n a (Some (NULL, st))"
    "a \<le> n \<Longrightarrow> realloc_ok st p (xs @ (n, True) # ys) q n a (Some (adr q, st))"
  using resized_refl [OF assms] unfolding realloc_ok_def by blast+

text \<open>The block keeps its address and its payload is written by nobody.\<close>

lemma resized_in_place:
  assumes i: "heap_inv st p (xs @ (n, True) # ys)" and i': "heap_inv st' p (xs @ (m, True) # zs)" and q: "q = p + total xs"
    and p: "payload True (q + m) zs = payload True (q + n) ys"
    and s: "same_on (payload True p xs \<union> {q..<q + min n m - 8} \<union> payload True (q + n) ys) (mem st) (mem st')"
  shows "resized st p (xs @ (n, True) # ys) q n st' (xs @ (m, True) # zs) q m"
proof -
  let ?bs = "xs @ (n, True) # ys" and ?bs' = "xs @ (m, True) # zs"
  have h: "heap_at st p ?bs" "heap_at st' p ?bs'" using i i' by (simp_all add: heap_inv_def)
  have o: "others p ?bs q n = payload True p xs \<union> payload True (q + n) ys"
    "others p ?bs' q m = payload True p xs \<union> payload True (q + m) zs"
    using others_split [OF heap_at_big [OF h(1)] q] others_split [OF heap_at_big [OF h(2)] q] .
  have "same_on (others p ?bs q n) (mem st) (mem st')" by (rule same_on_mono [OF s]) (use o in blast)
  moreover have "mem st' (adr (q + i)) = mem st (adr (q + i))" if j: "i < min n m - 8" for i
    by (rule same_on_adr [OF s]) (use j heap_at_block(6) [OF h(1) q] in auto)
  moreover have "block_at p ?bs' q m" unfolding block_at_def using q by blast
  ultimately show ?thesis using i' o p by (simp add: resized_def)
qed

lemma shrink_ok:
  assumes i: "heap_inv st p (xs @ (n, True) # ys)" and q: "q = p + total xs" and a: "24 \<le> a" "8 dvd a" "a + 24 \<le> n"
  shows "realloc_ok st p (xs @ (n, True) # ys) q n a (Some (adr q, realloc_shrink (adr q) (of_nat n) (of_nat a) st))"
proof -
  note s = shrink_block [OF i q a]
  have "payload True (q + a) (coalesced [] (n - a) ys) = payload True (q + a) ([] @ (n - a, False) # ys)" by (rule payload_coalesced)
  then have "payload True (q + a) ((merged [] (n - a) ys, False) # right_part ys) = payload True (q + n) ys"
    using a by (simp add: coalesced_def left_part_def)
  moreover have "{q..<q + min n a - 8} = {q..<q + a - 8}" using a by simp
  ultimately have "resized st p (xs @ (n, True) # ys) q n (realloc_shrink (adr q) (of_nat n) (of_nat a) st)
      (xs @ (a, True) # (merged [] (n - a) ys, False) # right_part ys) q a"
    using resized_in_place [OF i s(1) q] s(2) by simp
  then show ?thesis unfolding realloc_ok_def by blast
qed

lemma grow_ok:
  assumes i: "heap_inv st p (xs @ (n, True) # (j, False) # ys)" and q: "q = p + total xs"
    and a: "24 \<le> a" "8 dvd a" "n \<le> a" "a \<le> n + j"
  shows "realloc_ok st p (xs @ (n, True) # (j, False) # ys) q n a
    (Some (adr q, merge_next (adr q) (of_nat (n + j)) (of_nat a) st))"
proof -
  note m = merge_next_block [OF i q a]
  let ?k = "if 24 \<le> n + j - a then a else n + j"
  let ?zs = "(if 24 \<le> n + j - a then [(n + j - a, False)] else []) @ ys"
  have c: "xs @ carve a (n + j) @ ys = xs @ (?k, True) # ?zs" by (simp add: carve_def)
  have mn: "min n ?k = n" using a by simp
  have "payload True (q + ?k) ?zs = payload True (q + n) ((j, False) # ys)" using a by (auto simp: add.assoc)
  moreover have "payload True p xs \<union> {q..<q + min n ?k - 8} \<union> payload True (q + n) ((j, False) # ys) =
      payload True p (xs @ (n, True) # (j, False) # ys)"
    unfolding mn using q by auto
  ultimately have "resized st p (xs @ (n, True) # (j, False) # ys) q n (merge_next (adr q) (of_nat (n + j)) (of_nat a) st)
      (xs @ (?k, True) # ?zs) q ?k"
    using resized_in_place [OF i m(1) [unfolded c] q] m(2) by simp
  moreover have "a \<le> ?k" using a by simp
  ultimately show ?thesis unfolding realloc_ok_def by blast
qed

lemma move_ok:
  assumes i: "heap_inv st p (xs @ (n, True) # ys)" and q: "q = p + total xs" and o: "ordinary sz (xs @ (n, True) # ys)"
    and a: "a = unat (adjust sz)" "n \<le> a"
  shows "realloc_ok st p (xs @ (n, True) # ys) q n a (realloc_move (adr q) sz (of_nat n) st)"
proof -
  have "block_at p (xs @ (n, True) # ys) q n" unfolding block_at_def using q by blast
  from move_block [OF i this o a] show ?thesis
    unfolding realloc_ok_def using resized_refl [OF i q] by blast
qed

lemma at_end_block:
  assumes h: "heap_at st p (xs @ (n, a) # ys)" and q: "q = p + total xs"
  shows "at_end (adr q) st \<longleftrightarrow> ys = []"
proof -
  have h2: "heap_at st p ((xs @ [(n, a)]) @ ys)" using h by simp
  note b = heap_at_block [OF h q]
  have nx: "NEXT_BLKP (mem st) (adr q) = adr (q + n)" using tiles_Cons_reads(4) [OF b(1-3)] .
  show ?thesis
  proof (cases ys)
    case Nil
    have g: "GET (mem st) (adr (q + n - 4)) = tag 0 True" using h2 Nil q by (simp add: heap_at_def add.assoc)
    then show ?thesis using header_reads(1,3) [OF g] b Nil nx by (simp add: at_end_def)
  next
    case (Cons y zs)
    obtain k c where y: "y = (k, c)" by (cases y)
    have h3: "heap_at st p ((xs @ [(n, a)]) @ (k, c) # zs)" using h2 Cons y by simp
    note bk = heap_at_block [OF h3, of "q + n"]
    have "GET_SIZE (mem st) (HDRP (adr (q + n))) = of_nat k" using tiles_Cons_reads(1) [OF bk(1-3)] q by simp
    moreover have "(of_nat k :: 32 word) \<noteq> 0"
    proof
      assume "(of_nat k :: 32 word) = 0"
      then have "unat (of_nat k :: 32 word) = 0" by simp
      then show False using bk q by (simp add: unat_of_nat)
    qed
    ultimately show ?thesis using nx Cons by (simp add: at_end_def)
  qed
qed

lemma grow_block:
  assumes i: "heap_inv st p (xs @ (n, True) # ys)" and q: "q = p + total xs" and o: "ordinary sz (xs @ (n, True) # ys)"
    and a: "a = unat (adjust sz)" "n \<le> a"
  shows "realloc_ok st p (xs @ (n, True) # ys) q n a (realloc_grow (adr q) sz (of_nat n) (of_nat a) st)"
proof -
  have A: "24 \<le> a" "8 dvd a" "a < 2 ^ 25" using adjust_nat(2-4) [OF _ a(1)] o by (simp_all add: ordinary_def)
  have ord: "ordinary sz (xs @ (n, True) # zs)" for zs
    using o by (cases xs) (simp_all add: ordinary_def)
  obtain st1 ys1 where e: "extend_before (adr q) st = Inl st1 \<or> extend_before (adr q) st = Inr st1"
      "extended st p xs n ys st1 ys1" using extend_before_block [OF i] by blast
  have i1: "heap_inv st1 p (xs @ (n, True) # ys1)" by (rule extended_inv [OF e(2)])
  have "realloc_ok st1 p (xs @ (n, True) # ys1) q n a (realloc_grow (adr q) sz (of_nat n) (of_nat a) st)"
  proof (cases "extend_before (adr q) st")
    case (Inl t)
    then show ?thesis using e(1) realloc_ok_same(1) [OF i1 q] by (simp add: realloc_grow_def)
  next
    case (Inr t)
    then have t: "t = st1" using e(1) by simp
    have h1: "heap_at st1 p (xs @ (n, True) # ys1)" using i1 by (simp add: heap_inv_def)
    have h2: "heap_at st1 p ((xs @ [(n, True)]) @ ys1)" using h1 by simp
    have q2: "q + n = p + total (xs @ [(n, True)])" using q by simp
    note b = heap_at_block [OF h1 q]
    have nx: "NEXT_BLKP (mem st1) (adr q) = adr (q + n)" using tiles_Cons_reads(4) [OF b(1-3)] .
    have mv: "realloc_ok s p (xs @ (n, True) # zs) q n a (realloc_move (adr q) sz (of_nat n) s)"
      if "heap_inv s p (xs @ (n, True) # zs)" for s zs
      by (rule move_ok [OF that q ord a])
    show ?thesis
    proof (cases "free_right ys1")
      case False
      then have "GET_ALLOC (mem st1) (HDRP (adr (q + n)))" using next_alloc [OF h2 q2] by (simp add: free_right_def)
      then show ?thesis using mv [OF i1] Inr t nx by (simp add: realloc_grow_def)
    next
      case True
      then obtain j zs where y: "ys1 = (j, False) # zs" by (cases ys1) (auto simp: free_right_def)
      have h3: "heap_at st1 p ((xs @ [(n, True)]) @ (j, False) # zs)" using h2 y by simp
      note bj = heap_at_block [OF h3 q2]
      have fr: "\<not> GET_ALLOC (mem st1) (HDRP (adr (q + n)))" using next_alloc [OF h2 q2] y by simp
      have sz: "of_nat n + SIZE (mem st1) (HDRP (adr (q + n))) = (of_nat (n + j) :: addr)"
        using tiles_Cons_reads(2) [OF bj(1-3)] by simp
      have le: "(of_nat a :: addr) \<le> of_nat k \<longleftrightarrow> a \<le> k" if "k < 2 ^ 32" for k
        using le_of_nat [of k a] that A(3) by simp
      have g: "realloc_grow (adr q) sz (of_nat n) (of_nat a) st =
          (if a \<le> n + j then Some (adr q, merge_next (adr q) (of_nat (n + j)) (of_nat a) st1)
           else if zs = [] then (case extend_if True st1 of Inl st \<Rightarrow> Some (NULL, st)
             | Inr st \<Rightarrow> if a \<le> n + j + 4096 then Some (adr q, merge_next (adr q) (of_nat (n + j + 4096)) (of_nat a) st)
                 else realloc_move (adr q) sz (of_nat n) st)
           else realloc_move (adr q) sz (of_nat n) st1)"
      proof -
        have "n + j < 2 ^ 31" using heap_at_bounds [OF h3] by simp
        then have "(of_nat a :: addr) \<le> of_nat (n + j) \<longleftrightarrow> a \<le> n + j"
          "(of_nat a :: addr) \<le> of_nat (n + j + 4096) \<longleftrightarrow> a \<le> n + j + 4096" by (intro le; simp)+
        moreover have "of_nat (n + j) + CHUNKSIZE = (of_nat (n + j + 4096) :: addr)" by (simp add: CHUNKSIZE_def)
        ultimately show ?thesis
          using Inr t fr at_end_block [OF h3 q2]
          by (simp add: realloc_grow_def nx sz Let_def del: of_nat_add cong: sum.case_cong)
      qed
      show ?thesis
      proof (cases "a \<le> n + j")
        case True
        then show ?thesis using grow_ok [OF i1 [unfolded y] q A(1,2) a(2)] g y by simp
      next
        case big: False
        show ?thesis
        proof (cases "zs = []")
          case False
          then show ?thesis using g big mv [OF i1] by simp
        next
          case True
          from extend_if_block [OF i1, of True] consider "extend_if True st1 = Inl st1"
            | u where "extend_if True st1 = Inr u" "extended st1 p xs n ys1 u (coalesced ys1 4096 [])" by auto
          then show ?thesis
          proof cases
            case 1
            then show ?thesis using g big True realloc_ok_same(1) [OF i1 q] by simp
          next
            case 2
            have c: "coalesced ys1 4096 [] = [(j + 4096, False)]"
              using coalesced_cases(3) [of "[]" "[]" j 4096] y True by simp
            note iu = extended_inv [OF 2(2)]
            have "realloc_ok u p (xs @ (n, True) # coalesced ys1 4096 []) q n a (realloc_grow (adr q) sz (of_nat n) (of_nat a) st)"
            proof (cases "a \<le> n + j + 4096")
              case True
              have "realloc_ok u p (xs @ (n, True) # coalesced ys1 4096 []) q n a
                  (Some (adr q, merge_next (adr q) (of_nat (n + (j + 4096))) (of_nat a) u))"
                unfolding c by (rule grow_ok [OF iu [unfolded c] q A(1,2) a(2)]) (use True in simp)
              then show ?thesis using g big \<open>zs = []\<close> 2(1) True by (simp add: add.assoc)
            next
              case False
              then show ?thesis using mv [OF iu] g big \<open>zs = []\<close> 2(1) by simp
            qed
            then show ?thesis by (rule realloc_ok_extended [OF 2(2) i1 q])
          qed
        qed
      qed
    qed
  qed
  then show ?thesis by (rule realloc_ok_extended [OF e(2) i q])
qed

lemma realloc_block:
  assumes i: "heap_inv st p bs" and b: "block_at p bs q n" and o: "ordinary sz bs" and a: "a = unat (adjust sz)"
  shows "realloc_ok st p bs q n a (mm_realloc (adr q) sz st)"
proof -
  obtain xs ys where x: "bs = xs @ (n, True) # ys" "q = p + total xs" using b by (auto simp: block_at_def)
  have A: "adjust sz = of_nat a" "24 \<le> a" "8 dvd a" "a < 2 ^ 25" using adjust_nat(1-4) [OF _ a] o by (simp_all add: ordinary_def)
  have h: "heap_at st p (xs @ (n, True) # ys)" using i x by (simp add: heap_inv_def)
  note hb = heap_at_block [OF h x(2)]
  have z: "SIZE (mem st) (HDRP (adr q)) = of_nat n" using tiles_Cons_reads(2) [OF hb(1-3)] .
  have nn: "adr q \<noteq> NULL" using adr_NULL [of q] block_at_bounds(1,2) [OF i b] by simp
  have c: "(of_nat a :: addr) \<le> of_nat n \<longleftrightarrow> a \<le> n" "(of_nat a + 3 * DSIZE :: addr) \<le> of_nat n \<longleftrightarrow> a + 24 \<le> n"
    "(of_nat n :: addr) < of_nat a + 3 * DSIZE \<longleftrightarrow> n < a + 24"
    using le_of_nat [of n a] le_of_nat [of n "a + 24"] lt_of_nat [of n "a + 24"] A(4) hb(3) by (simp_all add: DSIZE_def)
  have r: "mm_realloc (adr q) sz st =
      (if a \<le> n \<and> n < a + 24 then Some (adr q, st)
       else if a + 24 \<le> n then Some (adr q, realloc_shrink (adr q) (of_nat n) (of_nat a) st)
       else realloc_grow (adr q) sz (of_nat n) (of_nat a) st)"
    using nn o by (simp add: mm_realloc_def z A(1) c Let_def ordinary_def)
  show ?thesis unfolding r x(1)
    using realloc_ok_same(2) [OF i [unfolded x(1)] x(2)] shrink_ok [OF i [unfolded x(1)] x(2) A(2,3)]
      grow_block [OF i [unfolded x(1)] x(2) o [unfolded x(1)] a]
    by auto
qed

end
