(* ===== verification/MmInvariant.thy ===== *)
theory MmInvariant
  imports MmRealloc
begin

text \<open>
  The invariant of the heap of blocks: \<open>mm_init\<close> establishes it, and the heap checker of \<open>lab7/mm.c\<close>
  accepts every heap that satisfies it.
\<close>

section \<open>The initial heap\<close>

lemma initial_inv:
  assumes i: "initial_heap b s" and b: "unat b + 20971520 < 2 ^ 62" "b \<noteq> NULL" and m: "mem_max_addr s = b + MAX_HEAP"
  shows "heap_inv s (unat b + 16) [(4096, False)]"
proof -
  let ?p = "unat b + 16"
  have t: "tags (mem s) [(b + 4, 9), (b + 8, 9), (b + 12, 4096), (b + 4104, 4096), (b + 4108, 1)]"
    and l: "lists_ok s ((replicate 16 [])[6 := [b + 16]])" and f: "heap_listp s = b + 8" "mem_brk s = b + 4112"
    using i by (simp_all add: initial_heap_def)
  have a: "adr (unat b + k) = b + of_nat k" for k by (simp add: adr_def)
  have tg: "tag 4096 False = 4096" by (simp add: tag_def)
  have at: "adr (?p - 12) = b + 4" "adr (?p - 8) = b + 8" "adr (?p - 4) = b + 12" "adr (?p + 4096 - 8) = b + 4104"
    "adr (?p + 4096 - 4) = b + 4108" "adr (?p + 4096) = b + 4112" "adr ?p = b + 16"
    using a [of 4] a [of 8] a [of 12] a [of 4104] a [of 4108] a [of 4112] a [of 16] by (simp_all add: add.commute)
  have h: "heap_at s ?p [(4096, False)]"
    using t f b at by (simp add: heap_at_def tg)
  have "listed s (free_at ?p [(4096, False)])"
    unfolding listed_def
  proof (intro exI conjI allI impI ballI)
    show "lists_ok s ((replicate 16 [])[6 := [b + 16]])" by (rule l)
    show "set (concat ((replicate 16 [])[6 := [b + 16]])) = adr ` free_at ?p [(4096, False)]"
      using at by (simp add: numeral_eq_Suc)
    fix j x assume j: "j < 16" "x \<in> set ((replicate 16 [])[6 := [b + 16]] ! j)"
    then have "j = 6" "x = b + 16" by (auto simp: nth_list_update split: if_splits)
    then show "index_of (mem s) x = j"
      using t by (simp add: index_of_def tag_eval numeral_plus get_block_index_def)
  qed
  moreover have "unat (mem_max_addr s) = unat b + 20971520"
    using b m by (simp add: MAX_HEAP_def unat_plus_numeral)
  ultimately show ?thesis using h b by (simp add: heap_inv_def room_def)
qed

section \<open>The checker accepts every heap of the invariant\<close>

fun addrs :: "nat \<Rightarrow> block list \<Rightarrow> nat list" where
  "addrs p [] = []"
| "addrs p ((n, a) # bs) = p # addrs (p + n) bs"

lemma tiles_walk:
  "tiles m p bs \<Longrightarrow> 16 \<le> p \<Longrightarrow> p + total bs < 2 ^ 63 \<Longrightarrow> total bs < 2 ^ 31 \<Longrightarrow>
     walk m (adr p) (map adr (addrs p bs)) (adr (p + total bs)) \<and>
     (\<forall>x \<in> set (map adr (addrs p bs)). GET_SIZE m (HDRP x) \<noteq> 0) \<and>
     length (filter (\<lambda>x. \<not> GET_ALLOC m (HDRP x)) (map adr (addrs p bs))) = length (filter (\<lambda>(n, a). \<not> a) bs)"
proof (induction m p bs rule: tiles.induct)
  case (2 m p n a bs)
  have b: "4 \<le> p" "n < 2 ^ 31" "24 \<le> n" using "2.prems" by simp_all
  note r = tiles_Cons_reads [OF "2.prems"(1) b(1,2)]
  have "adr p \<noteq> NULL" by (rule adr_NULL) (use "2.prems" in simp_all)
  moreover have "(of_nat n :: 32 word) \<noteq> 0"
  proof
    assume "(of_nat n :: 32 word) = 0"
    then have "unat (of_nat n :: 32 word) = 0" by simp
    then show False using b by (simp add: unat_of_nat)
  qed
  moreover have "walk m (adr (p + n)) (map adr (addrs (p + n) bs)) (adr (p + n + total bs)) \<and>
     (\<forall>x \<in> set (map adr (addrs (p + n) bs)). GET_SIZE m (HDRP x) \<noteq> 0) \<and>
     length (filter (\<lambda>x. \<not> GET_ALLOC m (HDRP x)) (map adr (addrs (p + n) bs))) = length (filter (\<lambda>(n, a). \<not> a) bs)"
    using "2.IH" "2.prems" by simp
  ultimately show ?case using r by (simp add: add.assoc)
qed simp

lemma addrs_split: "x \<in> set (addrs p bs) \<Longrightarrow> \<exists>xs y ys. bs = xs @ y # ys \<and> x = p + total xs"
proof (induction p bs rule: addrs.induct)
  case (2 p n a bs)
  show ?case
  proof (cases "x = p")
    case True
    then show ?thesis by (intro exI [of _ "[]"]) simp
  next
    case False
    then obtain xs y ys where "bs = xs @ y # ys" "x = p + n + total xs" using 2 by auto
    then show ?thesis by (intro exI [of _ "(n, a) # xs"]) simp
  qed
qed simp

lemma card_free_at: "big bs \<Longrightarrow> card (free_at p bs) = length (filter (\<lambda>(n, a). \<not> a) bs) \<and> finite (free_at p bs)"
proof (induction p bs rule: free_at.induct)
  case (2 p n a bs)
  then have "p \<notin> free_at (p + n) bs" by (auto dest!: free_at_bounds)
  then show ?case using 2 by simp
qed simp

lemma inv_check:
  assumes i: "heap_inv st p bs"
  shows "mm_check st = Some 0"
proof -
  have h: "heap_at st p bs" and s: "separated bs" using i by (simp_all add: heap_inv_def)
  note hb = heap_at_bounds [OF h] and big = heap_at_big [OF h]
  obtain ls where ls: "lists_ok st ls" "set (concat ls) = adr ` free_at p bs"
    using i by (auto simp: heap_inv_def listed_def)
  let ?xs = "adr (p - 8) # map adr (addrs p bs)" and ?e = "adr (p + total bs)"
  have t: "tiles (mem st) p bs" "GET (mem st) (adr (p - 8 - 4)) = tag 8 True" "heap_listp st = adr (p - 8)"
    "GET (mem st) (adr (p + total bs - 4)) = tag 0 True"
    using h by (simp_all add: heap_at_def)
  have p4: "4 \<le> p - 8" "p - 8 + 8 = p" using hb by auto
  note tw = tiles_walk [OF t(1)] and pr = header_reads [OF t(2) _ _ p4(1), unfolded p4(2)]
  have e: "GET (mem st) (HDRP ?e) = 1" using t(4) hb by (simp add: HDRP_adr)
  have p8: "adr (p - 8) \<noteq> NULL"
    by (rule adr_NULL) (use hb in auto)
  have w: "walk (mem st) (heap_listp st) ?xs ?e" using tw hb pr(4) t(3) p8 by simp
  have z: "\<forall>x \<in> set ?xs. GET_SIZE (mem st) (HDRP x) \<noteq> 0" using tw hb pr(1) by simp
  have blk: "GET_ALLOC (mem st) (HDRP x) = snd y \<and> NEXT_BLKP (mem st) x = adr (p + total xs + fst y)"
    if "bs = xs @ y # ys" "x = adr (p + total xs)" for x xs y ys
  proof -
    obtain n a where y: "y = (n, a)" by (cases y)
    have h': "heap_at st p (xs @ (n, a) # ys)" using h that y by simp
    show ?thesis using tiles_Cons_reads(3,4) [OF heap_at_block(1-3) [OF h' refl]] that(2) y by simp
  qed
  have "\<not> GET_ALLOC (mem st) (HDRP x)" if x: "x \<in> set (concat ls)" for x
  proof -
    obtain xs n ys where "bs = xs @ (n, False) # ys" "x = adr (p + total xs)"
      using x unfolding ls(2) by (auto simp: free_at_split)
    then show ?thesis using blk by simp
  qed
  moreover have "GET_ALLOC (mem st) (HDRP (NEXT_BLKP (mem st) x))" if x: "x \<in> set ?xs" "\<not> GET_ALLOC (mem st) (HDRP x)" for x
  proof -
    have "x \<noteq> adr (p - 8)" using x(2) pr(3) hb by auto
    then obtain xs y ys where y: "bs = xs @ y # ys" "x = adr (p + total xs)" using x(1) by (auto dest!: addrs_split)
    obtain n a where ya: "y = (n, a)" by (cases y)
    have "\<not> a" using x(2) blk [OF y] ya by simp
    then have fr: "\<not> free_right ys" using s y ya by simp
    have h': "heap_at st p ((xs @ [(n, a)]) @ ys)" using h y ya by simp
    have "GET_ALLOC (mem st) (HDRP (adr (p + total (xs @ [(n, a)]))))"
      using next_alloc [OF h' refl] fr by (simp add: free_right_def)
    then show ?thesis using blk [OF y] ya by (simp add: add.assoc)
  qed
  moreover have "length (filter (\<lambda>x. \<not> GET_ALLOC (mem st) (HDRP x)) ?xs) = length (concat ls)"
  proof -
    have d: "distinct (concat ls)" using nodes_ok_distinct ls(1) by (auto simp: lists_ok_def)
    have "inj_on adr (free_at p bs)"
    proof (rule inj_onI)
      fix x y assume "x \<in> free_at p bs" "y \<in> free_at p bs" "adr x = adr y"
      moreover from this have "x < 2 ^ 64" "y < 2 ^ 64" using hb big by (auto dest!: free_at_bounds)
      ultimately show "x = y" by simp
    qed
    then have "length (concat ls) = card (free_at p bs)"
      using distinct_card [OF d] ls(2) card_image by metis
    then show ?thesis using card_free_at [OF big, of p] tw hb pr(3) by simp
  qed
  ultimately show ?thesis unfolding mm_check_eq [OF ls(1) w e z] by auto
qed

end
