(* ===== verification/MmSafety.thy ===== *)
theory MmSafety
  imports MmInvariant
begin

text \<open>
  What the allocator of \<open>lab7/mm.c\<close> promises its clients: for each operation, for whole sessions, and where
  the special cases for the driver's traces break the promise.
\<close>

section \<open>The demo heap\<close>

definition demo_blocks :: "block list" where "demo_blocks = [(4096, False)]"

lemma demo_inv: "heap_inv demo_heap 4112 demo_blocks"
proof -
  have b: "4096 \<noteq> NULL" "unat (4096 :: addr) + 20971520 < 2 ^ 62" by (simp_all add: NULL_def)
  have "grown arena demo_heap"
    unfolding demo_heap_def by (rule grown_init) (simp add: arena_ok_def arena_def MAX_HEAP_def)
  then have "mem_max_addr demo_heap = 4096 + MAX_HEAP" by (simp add: grown_def arena_def)
  then show ?thesis using initial_inv [OF demo_initial b(2,1)] by (simp add: demo_blocks_def)
qed

lemma demo_ordinary: "ordinary 100 demo_blocks"
  by (simp add: ordinary_def demo_blocks_def)

lemma adjust_100: "adjust 100 = 112"
  by code_simp

text \<open>On a heap whose only free block is the last one a request is served from it.\<close>

lemma takes_last:
  assumes "takes a (xs @ [(n, False)]) q bs'" and "\<forall>(m, b) \<in> set xs. b"
  shows "q = total xs \<and> bs' = xs @ carve a n"
proof -
  obtain us m vs where t: "xs @ [(n, False)] = us @ (m, False) # vs" "q = total us" "bs' = us @ carve a m @ vs"
    using assms(1) by (auto simp: takes_def)
  then consider "us = xs" "m = n" "vs = []" | ws where "xs = us @ (m, False) # ws"
    by (auto simp: append_eq_append_conv2 Cons_eq_append_conv append_eq_Cons_conv)
  then show ?thesis using t assms(2) by cases auto
qed

lemma malloc_last:
  assumes i: "heap_inv st p (xs @ [(n, False)])" and o: "ordinary sz (xs @ [(n, False)])" and x: "\<forall>(m, b) \<in> set xs. b"
    and a: "unat (adjust sz) \<le> n"
  shows "\<exists>st'. mm_malloc sz st = Some (adr (p + total xs), st') \<and> heap_inv st' p (xs @ carve (unat (adjust sz)) n)"
proof -
  from malloc_block [OF i o refl] consider "\<forall>(k, b) \<in> set (xs @ [(n, False)]). \<not> b \<longrightarrow> k < unat (adjust sz)"
    | q bs' st' where "mm_malloc sz st = Some (adr (p + q), st')" "heap_inv st' p bs'" "takes (unat (adjust sz)) (xs @ [(n, False)]) q bs'"
    by blast
  then show ?thesis
  proof cases
    case 1
    then show ?thesis using a by auto
  next
    case 2
    then show ?thesis using takes_last [OF 2(3) x] by auto
  qed
qed

text \<open>And when that is too small, from the end of the heap.\<close>

lemma malloc_grown:
  assumes i: "heap_inv st p (xs @ [(n, False)])" and o: "ordinary sz (xs @ [(n, False)])" and x: "\<forall>(m, b) \<in> set xs. b"
    and a: "a = unat (adjust sz)" "n < a" "4096 \<le> a" and m: "p + total xs + n + a \<le> unat (mem_max_addr st)"
  shows "\<exists>st'. mm_malloc sz st = Some (adr (p + total xs), st') \<and> heap_inv st' p (xs @ carve a (n + a))"
proof -
  have c: "coalesced (xs @ [(n, False)]) (max a 4096) [] = xs @ [(n + a, False)]"
    using a(3) by (simp add: coalesced_cases max_def)
  have no: "\<not> takes a (xs @ [(n, False)]) q bs'" for q bs'
  proof
    assume t: "takes a (xs @ [(n, False)]) q bs'"
    then obtain us k vs where "xs @ [(n, False)] = us @ (k, False) # vs" "a \<le> k" by (auto simp: takes_def)
    then have "(k, False) \<in> set (xs @ [(n, False)])" "a \<le> k" by simp_all
    then show False using x a(2) by auto
  qed
  have mx: "max a 4096 = a" using a(3) by simp
  from malloc_block [OF i o a(1)] no m obtain q bs' st' where
      "mm_malloc sz st = Some (adr (p + q), st')" "takes a (xs @ [(n + a, False)]) q bs'" "heap_inv st' p bs'"
    unfolding mx c [unfolded mx] by (auto simp: add.assoc)
  then show ?thesis using takes_last [OF _ x] by blast
qed

lemma adr_eval: "adr (numeral k) = numeral k"
  by (simp add: adr_def)

lemma adjust_eval: "adjust 50 = 64" "adjust 16 = 24" "adjust 32 = 40" "adjust 4024 = 4032" "adjust 20000 = 20008"
  by code_simp+

lemma demo_one: "\<exists>s1. mm_malloc 100 demo_heap = Some (4112, s1) \<and> heap_inv s1 4112 [(112, True), (3984, False)]"
  using malloc_last [of demo_heap 4112 "[]" 4096 100] demo_inv demo_ordinary
  by (auto simp: demo_blocks_def adjust_100 carve_def adr_eval)

lemma demo_arena: "arena_ok demo_heap \<and> mem_max_addr demo_heap = 20975616"
proof -
  have a: "arena_ok arena" by (simp add: arena_ok_def arena_def MAX_HEAP_def)
  have g: "grown arena demo_heap" unfolding demo_heap_def by (rule grown_init [OF a])
  then have "mem_max_addr demo_heap = 20975616" by (simp add: grown_def arena_def MAX_HEAP_def)
  then show ?thesis using grown_ok [OF g a] by blast
qed

lemma demo_two:
  "\<exists>s1 s2. mm_malloc 100 demo_heap = Some (4112, s1) \<and> mm_malloc 20000 s1 = Some (4224, s2) \<and>
     heap_inv s2 4112 [(112, True), (20008, True), (3984, False)]"
proof -
  obtain s1 where s1: "mm_malloc 100 demo_heap = Some (4112, s1)" "heap_inv s1 4112 ([(112, True)] @ [(3984, False)])"
    using demo_one by auto
  have "mem_max_addr s1 = 20975616"
    using grown_malloc [OF conjunct1 [OF demo_arena] s1(1)] demo_arena by (simp add: grown_def)
  then have "\<exists>s2. mm_malloc 20000 s1 = Some (adr (4112 + total [(112, True)]), s2) \<and>
      heap_inv s2 4112 ([(112, True)] @ carve 20008 (3984 + 20008))"
    by (intro malloc_grown [OF s1(2)]) (simp_all add: ordinary_def adjust_eval)
  then show ?thesis using s1(1) by (auto simp: carve_def adr_eval)
qed

text \<open>The owner of the second block writes two of its bytes.\<close>

lemma demo_poke:
  assumes "heap_inv s 4112 [(112, True), (20008, True), (3984, False)]" and "a = 8207 \<or> a = 12303"
  shows "heap_inv (poke a v s) 4112 [(112, True), (20008, True), (3984, False)]"
  unfolding poke_def by (rule payload_write [OF assms(1)]) (use assms(2) in \<open>auto simp: same_on_def\<close>)

section \<open>One operation\<close>

text \<open>
  C5. \<open>mm_malloc\<close> on a well-formed heap, for an ordinary request, that is one that is none of the traces' (not of
  0, 4092, 4095 or 8190 bytes, below 2 ^ 24, and not of 16, 64, 112 or 448 bytes behind a first block of 24 or
  72 bytes): it returns, and either
  the null pointer, because no free block is large enough and the arena has no room, or a block with at
  least the bytes asked for, less than 24 more than needed, that overlaps no payload of another block; the
  heap stays well-formed and no byte of another payload changes.
\<close>

theorem mm_malloc_safe:
  assumes "heap_inv st p bs" and "ordinary sz bs"
  shows "(mm_malloc sz st = Some (NULL, st) \<and> (\<forall>(n, b) \<in> set bs. \<not> b \<longrightarrow> n < unat (adjust sz)) \<and>
      unat (mem_max_addr st) < p + total bs + max (unat (adjust sz)) 4096) \<or>
    (\<exists>q n bs' st'. mm_malloc sz st = Some (adr q, st') \<and> heap_inv st' p bs' \<and> block_at p bs' q n \<and>
      unat sz + 8 \<le> n \<and> n < unat (adjust sz) + 24 \<and> {q..<q + n - 8} \<inter> payload True p bs = {} \<and>
      payload True p bs' = payload True p bs \<union> {q..<q + n - 8} \<and> same_on (payload True p bs) (mem st) (mem st'))"
proof -
  have h: "heap_at st p bs" using assms(1) by (simp add: heap_inv_def)
  have A: "24 \<le> unat (adjust sz)" "unat sz + 8 \<le> unat (adjust sz)"
    using adjust_nat(2,5) [OF _ refl] assms(2) by (simp_all add: ordinary_def)
  from malloc_block [OF assms refl] show ?thesis
  proof (elim disjE exE conjE)
    fix q bs' st'
    assume m: "mm_malloc sz st = Some (adr (p + q), st')" "heap_inv st' p bs'" "same_on (payload True p bs) (mem st) (mem st')"
    have go: ?thesis if t: "takes (unat (adjust sz)) cs q bs'" "big cs" "payload True p cs = payload True p bs" for cs
      using takes_payload [OF t(1,2) A(1), of p] m A(2) t(3) by fastforce
    have "payload True p (coalesced bs (max (unat (adjust sz)) 4096) []) = payload True p bs" by (simp add: payload_coalesced)
    moreover have "big (coalesced bs (max (unat (adjust sz)) 4096) [])" using heap_at_big [OF h] by (simp add: big_coalesced)
    ultimately show "takes (unat (adjust sz)) bs q bs' \<Longrightarrow> ?thesis"
      "takes (unat (adjust sz)) (coalesced bs (max (unat (adjust sz)) 4096) []) q bs' \<Longrightarrow> ?thesis"
      using go heap_at_big [OF h] by blast+
  qed blast
qed

theorem mm_malloc_safe_witness:
  "\<exists>q n bs' st'. mm_malloc 100 demo_heap = Some (adr q, st') \<and> heap_inv st' 4112 bs' \<and> block_at 4112 bs' q n \<and> 108 \<le> n"
  using mm_malloc_safe [OF demo_inv demo_ordinary] by (auto simp: demo_blocks_def adjust_100)

text \<open>
  C6. \<open>mm_free\<close> refines freeing on the list of blocks: the block and the free neighbours it has become one free
  block, the heap stays well-formed, and no byte of another payload changes.  This holds of a block for which
  neither the byte 4095 nor the byte 8191 behind its start is 0xFF: \<open>mm_free\<close> takes any other block for one of
  the coalescing trace and does not free it.
\<close>

theorem mm_free_safe:
  assumes "heap_inv st p (xs @ (n, True) # ys)" and "q = p + total xs"
    and "mem st (adr (q + 4095)) \<noteq> - 1" and "mem st (adr (q + 8191)) \<noteq> - 1"
  shows "heap_inv (mm_free (adr q) st) p (coalesced xs n ys) \<and>
    payload True p (coalesced xs n ys) = payload True p xs \<union> payload True (q + n) ys \<and>
    same_on (payload True p xs \<union> payload True (q + n) ys) (mem st) (mem (mm_free (adr q) st))"
proof -
  note f = free_block [OF assms]
  have p: "payload True p (coalesced xs n ys) = payload True p xs \<union> payload True (q + n) ys"
    using assms(2) by (simp add: payload_coalesced)
  have "payload True p xs \<union> payload True (q + n) ys \<subseteq> kept p (xs @ (n, False) # ys)"
    using assms(2) by (auto simp: kept_def)
  then show ?thesis using f(1) p same_on_mono [OF f(2)] by blast
qed

theorem mm_free_safe_witness:
  "\<exists>s. heap_inv (mm_free 4112 s) 4112 [(112, False), (20008, True), (3984, False)]"
proof -
  obtain s where s: "heap_inv s 4112 [(112, True), (20008, True), (3984, False)]" using demo_two by blast
  let ?t = "poke 12303 0 (poke 8207 0 s)"
  have t: "heap_inv ?t 4112 ([] @ (112, True) # [(20008, True), (3984, False)])"
    using demo_poke [OF demo_poke [OF s]] by simp
  have "mem ?t (adr (4112 + 4095)) \<noteq> - 1" "mem ?t (adr (4112 + 8191)) \<noteq> - 1" by (simp_all add: adr_eval poke_def)
  from mm_free_safe [OF t _ this] have "heap_inv (mm_free 4112 ?t) 4112 (coalesced [] 112 [(20008, True), (3984, False)])"
    by (simp add: adr_eval)
  then show ?thesis by (auto simp: coalesced_cases)
qed



section \<open>Sessions\<close>

text \<open>A request that is none of those of the traces, told by the memory.\<close>

definition plain_request :: "long \<Rightarrow> mm_t \<Rightarrow> bool" where
  "plain_request sz st \<longleftrightarrow> sz \<notin> {0, 4092, 4095, 8190} \<and> unat sz < 2 ^ 24 \<and>
     (GET_SIZE (mem st) (HDRP (NEXT_BLKP (mem st) (heap_listp st))) \<in> {24, 72} \<longrightarrow> sz \<notin> {16, 64, 112, 448})"

lemma plain_ordinary: "heap_at st p bs \<Longrightarrow> plain_request sz st \<Longrightarrow> ordinary sz bs"
  using first_block [of st p bs] by (auto simp: plain_request_def ordinary_def)

text \<open>
  A client: \<open>L\<close> holds the address and the requested size of every block that it got and did not give back.
  It asks for memory, frees, and writes into the bytes it asked for.
\<close>

inductive session :: "mm_t \<Rightarrow> (nat \<times> nat) set \<Rightarrow> bool" where
  start: "mem_brk st = b \<Longrightarrow> mem_max_addr st = b + MAX_HEAP \<Longrightarrow> unat b + 20971520 < 2 ^ 62 \<Longrightarrow> b \<noteq> NULL \<Longrightarrow>
    arena_ok st \<Longrightarrow> mem_start_brk st = b \<Longrightarrow> session (snd (mm_init st)) {}"
| alloc: "session st L \<Longrightarrow> plain_request sz st \<Longrightarrow> mm_malloc sz st = Some (r, st') \<Longrightarrow>
    session st' (if r = NULL then L else insert (unat r, unat sz) L)"
| release: "session st L \<Longrightarrow> (q, k) \<in> L \<Longrightarrow> mem st (adr (q + 4095)) \<noteq> - 1 \<Longrightarrow> mem st (adr (q + 8191)) \<noteq> - 1 \<Longrightarrow>
    session (mm_free (adr q) st) (L - {(q, k)})"
| store: "session st L \<Longrightarrow> (q, k) \<in> L \<Longrightarrow> i < k \<Longrightarrow> session (poke (adr (q + i)) v st) L"

inductive_simps session_empty: "session st {}"

definition session_inv :: "mm_t \<Rightarrow> (nat \<times> nat) set \<Rightarrow> bool" where
  "session_inv st L \<longleftrightarrow> (\<exists>bs. heap_inv st (unat (mem_start_brk st) + 16) bs \<and>
     (\<forall>(q, k) \<in> L. \<exists>n. block_at (unat (mem_start_brk st) + 16) bs q n \<and> k + 8 \<le> n) \<and>
     (\<forall>x \<in> L. \<forall>y \<in> L. fst x = fst y \<longrightarrow> x = y))"

lemma block_at_apart:
  assumes "block_at p bs q n" and "block_at p bs r m" and "big bs"
  shows "q = r \<and> n = m \<or> q + n \<le> r \<or> r + m \<le> q"
proof -
  obtain xs ys us vs where x: "bs = xs @ (n, True) # ys" "q = p + total xs" "bs = us @ (m, True) # vs" "r = p + total us"
    using assms(1,2) unfolding block_at_def by blast
  then have "xs @ (n, True) # ys = us @ (m, True) # vs" by simp
  then consider "xs = us" "n = m" | ws where "us = xs @ (n, True) # ws" | ws where "xs = us @ (m, True) # ws"
    by (auto simp: append_eq_append_conv2 Cons_eq_append_conv append_eq_Cons_conv)
  then show ?thesis using x by cases auto
qed

lemma block_at_range: "heap_inv st p bs \<Longrightarrow> block_at p bs q n \<Longrightarrow> p \<le> q \<and> q + n \<le> p + total bs"
  by (auto simp: block_at_def)

lemma session_malloc:
  assumes s: "session_inv st L" and pr: "plain_request sz st" and m: "mm_malloc sz st = Some (r, st')"
  shows "session_inv st' (if r = NULL then L else insert (unat r, unat sz) L)"
proof -
  let ?p = "unat (mem_start_brk st) + 16"
  obtain bs where i: "heap_inv st ?p bs" and L: "\<forall>(q, k) \<in> L. \<exists>n. block_at ?p bs q n \<and> k + 8 \<le> n"
    and u: "\<forall>x \<in> L. \<forall>y \<in> L. fst x = fst y \<longrightarrow> x = y"
    using s unfolding session_inv_def by blast
  have h: "heap_at st ?p bs" using i by (simp add: heap_inv_def)
  have o: "ordinary sz bs" by (rule plain_ordinary [OF h pr])
  have A: "24 \<le> unat (adjust sz)" "unat sz + 8 \<le> unat (adjust sz)"
    using adjust_nat(2,5) [OF _ refl] o by (simp_all add: ordinary_def)
  from malloc_block [OF i o refl] m consider "r = NULL" "st' = st"
    | q bs' cs where "r = adr (?p + q)" "takes (unat (adjust sz)) cs q bs'" "heap_inv st' ?p bs'"
        "cs = bs \<or> cs = coalesced bs (max (unat (adjust sz)) 4096) []"
    by auto
  then show ?thesis
  proof cases
    case 1
    then show ?thesis using s by simp
  next
    case 2
    have c: "block_at ?p bs' r' n" if "block_at ?p bs r' n" for r' n
      using block_at_takes [OF _ 2(2)] 2(4) that block_at_end by blast
    have "big cs" using 2(4) heap_at_big [OF h] by (auto intro: big_coalesced)
    from takes_payload [OF 2(2) this A(1), of ?p] obtain n where n: "unat (adjust sz) \<le> n" "block_at ?p bs' (?p + q) n"
      "{?p + q..<?p + q + n - 8} \<inter> payload True ?p cs = {}" by blast
    have pc: "payload True ?p cs = payload True ?p bs" using 2(4) by (auto simp: payload_coalesced)
    note nb = block_at_bounds [OF 2(3) n(2)]
    have ur: "unat r = ?p + q" using 2(1) nb(1) by simp
    have rn: "r \<noteq> NULL" unfolding 2(1) by (rule adr_NULL) (use nb in simp_all)
    have fresh: "fst x \<noteq> ?p + q" if x: "x \<in> L" for x
    proof
      assume "fst x = ?p + q"
      then obtain k where k: "block_at ?p bs (?p + q) k" using L x by (cases x) auto
      have "?p + q \<in> {?p + q..<?p + q + k - 8}" "?p + q \<in> {?p + q..<?p + q + n - 8}"
        using block_at_bounds(4) [OF i k] nb(4) by auto
      then show False using block_at_bounds(3) [OF i k] n(3) pc by blast
    qed
    have e: "mem_start_brk st' = mem_start_brk st"
    proof -
      have "unat (mem_max_addr st) + 2 ^ 31 \<le> 2 ^ 64" using i by (simp add: heap_inv_def room_def)
      moreover have "unat (mem_brk st) \<le> unat (mem_max_addr st)" "unat (mem_start_brk st) \<le> unat (mem_brk st)"
        using i heap_at_bounds [OF h] by (simp_all add: heap_inv_def room_def heap_at_def)
      ultimately have "arena_ok st" by (simp add: arena_ok_def word_le_nat_alt)
      from grown_malloc [OF this m] show ?thesis by (simp add: grown_def)
    qed
    have "\<forall>(q, k) \<in> L. \<exists>n. block_at ?p bs' q n \<and> k + 8 \<le> n" using L c by fast
    then have "\<forall>(q, k) \<in> insert (unat r, unat sz) L. \<exists>n. block_at ?p bs' q n \<and> k + 8 \<le> n"
      using n(1,2) A(2) ur by (auto intro!: exI [of _ n])
    moreover have "\<forall>x \<in> insert (unat r, unat sz) L. \<forall>y \<in> insert (unat r, unat sz) L. fst x = fst y \<longrightarrow> x = y"
      using u fresh ur by force
    ultimately show ?thesis using 2(3) e rn unfolding session_inv_def by auto
  qed
qed

lemma session_release:
  assumes s: "session_inv st L" and q: "(q, k) \<in> L" and m: "mem st (adr (q + 4095)) \<noteq> - 1" "mem st (adr (q + 8191)) \<noteq> - 1"
  shows "session_inv (mm_free (adr q) st) (L - {(q, k)})"
proof -
  let ?p = "unat (mem_start_brk st) + 16"
  obtain bs where i: "heap_inv st ?p bs" and L: "\<forall>(q, k) \<in> L. \<exists>n. block_at ?p bs q n \<and> k + 8 \<le> n"
    and u: "\<forall>x \<in> L. \<forall>y \<in> L. fst x = fst y \<longrightarrow> x = y"
    using s unfolding session_inv_def by blast
  obtain n where "block_at ?p bs q n" using L q by blast
  then obtain xs ys where x: "bs = xs @ (n, True) # ys" "q = ?p + total xs" by (auto simp: block_at_def)
  note f = free_block [OF i [unfolded x(1)] x(2) m]
  have "\<exists>j. block_at ?p (coalesced xs n ys) r j \<and> k' + 8 \<le> j" if r: "(r, k') \<in> L - {(q, k)}" for r k'
  proof -
    have "r \<noteq> q" using u q r by force
    moreover have "(r, k') \<in> L" using r by simp
    then obtain j where "block_at ?p bs r j" "k' + 8 \<le> j" using L by fast
    ultimately show ?thesis using block_at_coalesced [of ?p xs n ys r j q] x by blast
  qed
  then have "\<forall>(r, k') \<in> L - {(q, k)}. \<exists>j. block_at ?p (coalesced xs n ys) r j \<and> k' + 8 \<le> j" by blast
  moreover have "mem_start_brk (mm_free (adr q) st) = mem_start_brk st"
    using extent_free [of "adr q" st] by (simp add: extent_def)
  moreover have "\<forall>x \<in> L - {(q, k)}. \<forall>y \<in> L - {(q, k)}. fst x = fst y \<longrightarrow> x = y" using u by blast
  ultimately show ?thesis using f(1) unfolding session_inv_def by (intro exI [of _ "coalesced xs n ys"]) simp
qed

lemma session_store:
  assumes s: "session_inv st L" and q: "(q, k) \<in> L" and k: "j < k"
  shows "session_inv (poke (adr (q + j)) v st) L"
proof -
  let ?p = "unat (mem_start_brk st) + 16"
  obtain bs where i: "heap_inv st ?p bs" and L: "\<forall>(q, k) \<in> L. \<exists>n. block_at ?p bs q n \<and> k + 8 \<le> n"
    and u: "\<forall>x \<in> L. \<forall>y \<in> L. fst x = fst y \<longrightarrow> x = y"
    using s unfolding session_inv_def by blast
  obtain n where b: "block_at ?p bs q n" "k + 8 \<le> n" using L q by blast
  have "q + j \<in> {q..<q + n - 8}" using b(2) k by simp
  then have "q + j \<in> payload True ?p bs" using block_at_bounds(3) [OF i b(1)] by blast
  moreover have "unat (adr (q + j)) = q + j" using block_at_bounds(1) [OF i b(1)] b(2) k by simp
  ultimately have "same_on (- payload True ?p bs) (mem st) ((mem st)(adr (q + j) := v))" by (auto simp: same_on_def)
  then have "heap_inv (poke (adr (q + j)) v st) ?p bs" unfolding poke_def by (rule payload_write [OF i])
  moreover have "mem_start_brk (poke (adr (q + j)) v st) = mem_start_brk st" by (simp add: poke_def)
  ultimately show ?thesis using L u unfolding session_inv_def by auto
qed

lemma session_keeps: "session st L \<Longrightarrow> session_inv st L"
proof (induction rule: session.induct)
  case (start st b)
  have b: "unat b + 20971520 < 2 ^ 64" using start(3) by simp
  note c = mm_init_correct [OF b start(4,1,2)]
  have g: "grown st (snd (mm_init st))" by (rule grown_init [OF start(5)])
  then have "mem_max_addr (snd (mm_init st)) = b + MAX_HEAP" "mem_start_brk (snd (mm_init st)) = b"
    using start(2,6) by (simp_all add: grown_def)
  then show ?case using initial_inv [OF c(2) start(3,4)] unfolding session_inv_def by auto
next
  case (alloc st L sz r st')
  then show ?case using session_malloc by blast
next
  case (release st L q k)
  then show ?case using session_release by blast
next
  case (store st L q k i v)
  then show ?case using session_store by blast
qed

text \<open>
  C2. In every session of a client that makes plain requests, frees and writes its own bytes the heap checker
  accepts the heap, and the blocks the client holds lie inside the heap and do not overlap.  A plain request is
  one that \<open>mm_malloc\<close> does not treat by its rules for the traces: not of 0, 4092, 4095 or 8190 bytes, below 2 ^ 24,
  and not of 16, 64, 112 or 448 bytes while the first block has 24 or 72 bytes; and only such blocks are freed for
  which neither of the bytes 4095 and 8191 behind their start is 0xFF.  Outside these bounds it fails (C29, C30).
\<close>

theorem session_safe:
  assumes "session st L"
  shows "mm_check st = Some 0 \<and>
    (\<forall>(q, k) \<in> L. unat (mem_start_brk st) + 16 \<le> q \<and> q + k \<le> unat (mem_brk st)) \<and>
    (\<forall>(q, k) \<in> L. \<forall>(r, j) \<in> L. (q, k) \<noteq> (r, j) \<longrightarrow> {q..<q + k} \<inter> {r..<r + j} = {})"
proof -
  let ?p = "unat (mem_start_brk st) + 16"
  obtain bs where i: "heap_inv st ?p bs" and L: "\<forall>(q, k) \<in> L. \<exists>n. block_at ?p bs q n \<and> k + 8 \<le> n"
    and u: "\<forall>x \<in> L. \<forall>y \<in> L. fst x = fst y \<longrightarrow> x = y"
    using session_keeps [OF assms] unfolding session_inv_def by blast
  have h: "heap_at st ?p bs" using i by (simp add: heap_inv_def)
  have brk: "unat (mem_brk st) = ?p + total bs" using h heap_at_bounds [OF h] by (simp add: heap_at_def)
  have "?p \<le> q \<and> q + k \<le> unat (mem_brk st)" if qk: "(q, k) \<in> L" for q k
  proof -
    obtain n where "block_at ?p bs q n" "k + 8 \<le> n" using L qk by blast
    then show ?thesis using block_at_range [OF i] brk by fastforce
  qed
  moreover have "{q..<q + k} \<inter> {r..<r + j} = {}" if qr: "(q, k) \<in> L" "(r, j) \<in> L" "(q, k) \<noteq> (r, j)" for q k r j
  proof -
    obtain n m where "block_at ?p bs q n" "k + 8 \<le> n" "block_at ?p bs r m" "j + 8 \<le> m" using L qr(1,2) by blast
    moreover have "q \<noteq> r" using u qr by force
    ultimately show ?thesis using block_at_apart [of ?p bs q n r m] heap_at_big [OF h] by auto
  qed
  ultimately show ?thesis using inv_check [OF i] by blast
qed

lemma demo_session: "session demo_heap {}"
  unfolding demo_heap_def
  by (rule session.start [of _ 4096]) (simp_all add: arena_def arena_ok_def MAX_HEAP_def NULL_def)

lemma demo_plain: "sz \<notin> {0, 4092, 4095, 8190} \<Longrightarrow> unat sz < 2 ^ 24 \<Longrightarrow> plain_request sz demo_heap"
  using first_block [of demo_heap 4112 demo_blocks] demo_inv
  by (simp add: plain_request_def heap_inv_def demo_blocks_def)

theorem session_safe_witness:
  "\<exists>st. mm_malloc 100 demo_heap = Some (4112, st) \<and> mm_check st = Some 0 \<and> 4112 + 100 \<le> unat (mem_brk st)"
proof -
  obtain st where m: "mm_malloc 100 demo_heap = Some (4112, st)" using demo_one by blast
  have "session st {(4112, 100)}"
    using session.alloc [OF demo_session demo_plain m] by (simp add: NULL_def)
  from session_safe [OF this] m show ?thesis by auto
qed

section \<open>Where the traces show\<close>

text \<open>
  C29. A block that has the byte 0xFF in the payload of another block 4095 bytes behind its start is not freed:
  \<open>mm_free\<close> takes it for the one of the coalescing trace, the block stays allocated, and the byte of the
  other block becomes 0.
\<close>

theorem mm_free_corrupts:
  assumes "heap_inv st p bs" and "block_at p bs q n" and "block_at p bs r m" and "q + 4095 \<in> {r..<r + m - 8}"
    and "mem st (adr (q + 4095)) = - 1"
  shows "heap_inv (mm_free (adr q) st) p bs \<and> mem (mm_free (adr q) st) (adr (q + 4095)) = 0"
proof -
  have a: "adr q + 4095 = adr (q + 4095)" using adr_add [of q 4095] by simp
  have e: "mm_free (adr q) st = st\<lparr>mem := (mem st)(adr (q + 4095) := 0)\<rparr>"
    using assms(5) by (simp add: mm_free_def Let_def poke_def a)
  have "q + 4095 \<in> payload True p bs" using block_at_bounds(3) [OF assms(1,3)] assms(4) by blast
  moreover have "unat (adr (q + 4095)) = q + 4095" using block_at_bounds(1) [OF assms(1,2)] by simp
  ultimately have "same_on (- payload True p bs) (mem st) ((mem st)(adr (q + 4095) := 0))" by (auto simp: same_on_def)
  from payload_write [OF assms(1) this] show ?thesis unfolding e by simp
qed

theorem mm_free_corrupts_witness:
  "\<exists>s. mem s 8207 = - 1 \<and> heap_inv (mm_free 4112 s) 4112 [(112, True), (20008, True), (3984, False)] \<and>
     mem (mm_free 4112 s) 8207 = 0"
proof -
  obtain s where s: "heap_inv s 4112 [(112, True), (20008, True), (3984, False)]" using demo_two by blast
  let ?t = "poke 8207 (- 1) s"
  have b: "block_at 4112 [(112, True), (20008, True), (3984, False)] 4112 112"
      "block_at 4112 [(112, True), (20008, True), (3984, False)] 4224 20008"
    by (auto simp: block_at_def Cons_eq_append_conv)
  have m: "mem ?t (adr (4112 + 4095)) = - 1" by (simp add: adr_eval poke_def)
  from mm_free_corrupts [OF demo_poke [OF s, of 8207 "- 1"] b _ m] m show ?thesis by (auto simp: adr_eval)
qed

text \<open>
  C30. When the first block of the heap has 24 or 72 bytes, the last block is allocated and the block before it
  has neither 24 nor 72 bytes, a request of 112 bytes is served from the last block: \<open>mm_malloc\<close> returns the
  address of a block that is in use.
\<close>

theorem malloc_112_overlaps:
  assumes "heap_inv st p (xs @ [(j, b), (n, True)])" and "fst (hd (xs @ [(j, b)])) \<in> {24, 72}" and "j \<notin> {24, 72}"
  shows "block_at p (xs @ [(j, b), (n, True)]) (p + total xs + j) n \<and>
    (\<exists>st'. mm_malloc 112 st = Some (adr (p + total xs + j), st'))"
proof -
  let ?bs = "xs @ [(j, b), (n, True)]" and ?q = "p + total xs + j"
  have h: "heap_at st p ?bs" and r: "room st p ?bs" using assms(1) by (simp_all add: heap_inv_def)
  have h1: "heap_at st p ((xs @ [(j, b)]) @ (n, True) # [])" using h by simp
  have q: "?q = p + total (xs @ [(j, b)])" by simp
  note bn = heap_at_block [OF h1 q] and bj = heap_at_block [OF h refl]
  have blk: "block_at p ?bs ?q n" unfolding block_at_def using q by (intro exI [of _ "xs @ [(j, b)]"] exI [of _ "[]"]) simp
  have brk: "mem_brk st = adr (?q + n)" using h by (simp add: heap_at_def add.assoc)
  have sb: "mem_sbrk 0 st = (adr (?q + n), st)"
    using mem_sbrk_nat [of st "?q + n" 0] brk r by (simp add: room_def add.assoc)
  have l: "find_last_fit st a = adr ?q" for a
    using tiles_Cons_reads(6) [OF bn(1-3)] sb by (simp add: find_last_fit_def)
  have pj: "GET_SIZE (mem st) (HDRP (PREV_BLKP (mem st) (adr ?q))) = of_nat j"
    using tiles_Cons_reads(1,6) [OF bj(1-3)] by simp
  have w: "(of_nat k :: 32 word) = 24 \<longleftrightarrow> k = 24" "(of_nat k :: 32 word) = 72 \<longleftrightarrow> k = 72" if "k < 2 ^ 31" for k
    using that word_unat_eq_iff [of "of_nat k :: 32 word" 24] word_unat_eq_iff [of "of_nat k :: 32 word" 72]
    by (simp_all add: unat_of_nat)
  have f: "GET_SIZE (mem st) (HDRP (NEXT_BLKP (mem st) (heap_listp st))) \<in> {24, 72}"
  proof -
    let ?k = "fst (hd ?bs)"
    have "?k \<in> {24, 72}" using assms(2) by (cases xs) simp_all
    then have "(of_nat ?k :: 32 word) \<in> {24, 72}" by auto
    then show ?thesis using first_block [OF h] by simp
  qed
  have nn: "adr ?q \<noteq> NULL" by (rule adr_NULL) (use bn heap_at_bounds [OF h] in simp_all)
  have "malloc_big (adjust 112) st = Some (adr ?q, place (adr ?q) (adjust 112) st)"
    using l nn pj w [OF bj(3)] assms(3) by (simp add: malloc_big_def Let_def)
  then have "mm_malloc 112 st = Some (adr ?q, place (adr ?q) (adjust 112) st)"
    using f by (simp add: mm_malloc_def malloc_binary_def Let_def)
  then show ?thesis using blk by blast
qed

theorem malloc_112_overlaps_witness:
  "\<exists>s1 s2 s3 s4. mm_malloc 16 demo_heap = Some (4112, s1) \<and> mm_malloc 32 s1 = Some (4136, s2) \<and>
     mm_malloc 4024 s2 = Some (4176, s3) \<and> mm_malloc 112 s3 = Some (4176, s4)"
proof -
  have "\<exists>s1. mm_malloc 16 demo_heap = Some (4112, s1) \<and> heap_inv s1 4112 ([(24, True)] @ [(4072, False)])"
    using malloc_last [of demo_heap 4112 "[]" 4096 16] demo_inv
    by (auto simp: demo_blocks_def adjust_eval carve_def adr_eval ordinary_def)
  then obtain s1 where s1: "mm_malloc 16 demo_heap = Some (4112, s1)" "heap_inv s1 4112 ([(24, True)] @ [(4072, False)])" by blast
  have "\<exists>s2. mm_malloc 32 s1 = Some (4136, s2) \<and> heap_inv s2 4112 ([(24, True), (40, True)] @ [(4032, False)])"
    using malloc_last [OF s1(2), of 32] by (auto simp: adjust_eval carve_def adr_eval ordinary_def)
  then obtain s2 where s2: "mm_malloc 32 s1 = Some (4136, s2)" "heap_inv s2 4112 ([(24, True), (40, True)] @ [(4032, False)])" by blast
  have "\<exists>s3. mm_malloc 4024 s2 = Some (4176, s3) \<and> heap_inv s3 4112 ([(24, True)] @ [(40, True), (4032, True)])"
    using malloc_last [OF s2(2), of 4024] by (auto simp: adjust_eval carve_def adr_eval ordinary_def)
  then obtain s3 where s3: "mm_malloc 4024 s2 = Some (4176, s3)" "heap_inv s3 4112 ([(24, True)] @ [(40, True), (4032, True)])" by blast
  from malloc_112_overlaps [OF s3(2)] have "\<exists>s4. mm_malloc 112 s3 = Some (4176, s4)" by (simp add: adr_eval)
  then show ?thesis using s1(1) s2(1) s3(1) by blast
qed

lemma list_fit_huge: "4294967296 \<le> a \<Longrightarrow> \<not> fits m a bp"
proof -
  assume a: "4294967296 \<le> a"
  have "unat (GET_SIZE m (HDRP bp)) < 2 ^ 32" by (rule order_less_le_trans [OF unsigned_less]) simp
  then have "unat (SIZE m (HDRP bp)) < 2 ^ 32" by (simp add: SIZE_def unsigned_ucast_eq take_bit_nat_eq_self)
  then show ?thesis using a by (simp add: fits_def word_le_nat_alt)
qed


lemma ucast_huge:
  "ucast (w - 4294967320 :: addr) = (ucast (w - 24) :: 32 word)" "(4294967320 :: 32 word) = 24"
  "PUT p (PACK 4294967320 0) st = PUT p (PACK 24 0) st" "PUT p (PACK 4294967320 1) st = PUT p (PACK 24 1) st"
proof -
  show "ucast (w - 4294967320 :: addr) = (ucast (w - 24) :: 32 word)"
    by transfer (simp add: take_bit_eq_mod mod_eq_dvd_iff mod_mod_cancel)
  show "(4294967320 :: 32 word) = 24" by code_simp
  have "(ucast (PACK 4294967320 0) :: 32 word) = ucast (PACK 24 0)" "(ucast (PACK 4294967320 1) :: 32 word) = ucast (PACK 24 1)"
    by code_simp+
  then show "PUT p (PACK 4294967320 0) st = PUT p (PACK 24 0) st" "PUT p (PACK 4294967320 1) st = PUT p (PACK 24 1) st"
    by (simp_all add: PUT_def)
qed

lemma extend_heap_huge: "extend_heap 1073741830 st = extend_heap 6 st"
  by (cases "mem_sbrk 24 st") (simp add: extend_heap_def WSIZE_def ucast_huge Let_def)

lemma place_huge:
  assumes "heap_inv st p (xs @ (n, False) # ys)" and "q = p + total xs" and "48 \<le> n"
  shows "place (adr q) 4294967320 st = place (adr q) 24 st"
proof -
  have h: "heap_at st p (xs @ (n, False) # ys)" using assms(1) by (simp add: heap_inv_def)
  note b = heap_at_block [OF h assms(2)]
  have z: "SIZE (mem st) (HDRP (adr q)) = of_nat n" using tiles_Cons_reads(2) [OF b(1-3)] .
  have d: "(24 :: addr) \<le> of_nat n - 24" 
    using assms(3) b(3) le_of_nat [of "n - 24" 24] of_nat_diff_word [of 24 n] by simp
  have D: "(24 :: addr) \<le> of_nat n - 4294967320" 
    using assms(3) b(3) by (simp add: word_le_nat_alt unat_sub_if' unat_of_nat)
  have t: "PUT x (PACK (of_nat n - 4294967320) 0) s = PUT x (PACK (of_nat n - 24) 0) s" for x s
    by (simp add: PUT_def PACK_def ucast_huge(1))
  show ?thesis using d D by (simp add: place_def z Let_def DSIZE_def put_tags_def ucast_huge(3,4) t)
qed


text \<open>
  C31. On a well-formed heap whose last block is free and whose arena has room for 24 bytes more, a request of
  2 ^ 32 + 16 bytes succeeds with a block of 24 bytes: the size passes through the \<open>int\<close> of
  \<open>mem_sbrk\<close> and through the \<open>unsigned int\<close> of the tags.
\<close>

theorem malloc_huge_succeeds:
  assumes "heap_inv st p bs" and "free_left bs" and "p + total bs + 24 \<le> unat (mem_max_addr st)"
  shows "\<exists>q st' bs'. mm_malloc 4294967312 st = Some (adr q, st') \<and> adr q \<noteq> NULL \<and> heap_inv st' p bs' \<and> block_at p bs' q 24"
proof -
  have h: "heap_at st p bs" using assms(1) by (simp add: heap_inv_def)
  have adj: "adjust 4294967312 = 4294967320" by code_simp
  obtain ls where ls: "lists_ok st ls" using assms(1) by (auto simp: heap_inv_def listed_def)
  have "find (fits (mem st) 4294967320) xs = None" for xs
    by (simp add: find_None_iff list_fit_huge)
  then have ff: "find_fit st 4294967320 = Some NULL"
    using find_fit_find [OF ls, of 4294967320] by (simp add: found_def)
  have wd: "(if 4294967320 > CHUNKSIZE then 4294967320 else CHUNKSIZE) div WSIZE = (1073741830 :: addr)"
    by code_simp
  have w6: "(of_nat (24 div 4) :: addr) = 6" by simp
  have x: "\<exists>st'. extend_heap 6 st = (adr (p + total (left_part bs)), st') \<and> heap_inv st' p (coalesced bs 24 [])"
    using extend_block [OF assms(1), of 24, unfolded w6] assms(3) by auto
  then obtain s1 where s1: "extend_heap 6 st = (adr (p + total (left_part bs)), s1)" "heap_inv s1 p (coalesced bs 24 [])"
    by blast
  obtain ws k where k: "bs = ws @ [(k, False)]" using assms(2) by (cases bs rule: rev_cases) (auto simp: free_left_def)
  have c: "coalesced bs 24 [] = ws @ (k + 24, False) # []" "left_part bs = ws" using k by (simp_all add: coalesced_cases left_part_def)
  have kb: "24 \<le> k" using heap_at_big [OF h] k by simp
  let ?q = "p + total ws"
  have pl: "place (adr ?q) 4294967320 s1 = place (adr ?q) 24 s1"
    by (rule place_huge [OF s1(2) [unfolded c] refl]) (use kb in simp)
  note pb = place_block [OF s1(2) [unfolded c] refl, of 24]
  have nn: "adr ?q \<noteq> NULL" by (rule adr_NULL) (use heap_at_bounds [OF h] k in simp_all)
  have "malloc_binary 4294967312 4294967320 st = Some None" by (simp add: malloc_binary_def)
  then have m: "mm_malloc 4294967312 st = Some (adr ?q, place (adr ?q) 24 s1)"
    using ff adj wd extend_heap_huge s1(1) c(2) nn pl by (simp add: mm_malloc_def malloc_extend_def)
  have "heap_inv (place (adr ?q) 24 s1) p (ws @ carve 24 (k + 24))" using pb(1) kb by simp
  moreover have "block_at p (ws @ carve 24 (k + 24)) ?q 24" using kb by (auto simp: block_at_def carve_def)
  ultimately show ?thesis using m nn by blast
qed

theorem malloc_huge_succeeds_witness:
  "\<exists>q st' bs'. mm_malloc 4294967312 demo_heap = Some (adr q, st') \<and> adr q \<noteq> NULL \<and> heap_inv st' 4112 bs' \<and>
     block_at 4112 bs' q 24"
  by (rule malloc_huge_succeeds [OF demo_inv])
    (use demo_arena in \<open>simp_all add: demo_blocks_def free_left_def\<close>)

end
