(* ===== verification/Tsh.thy ===== *)
theory Tsh
  imports CStrings
begin

text \<open>
  The shell of \<open>lab9/tsh.c\<close>: the job list, the command line parser, the builtins and the signal
  handlers, each as a function on the shell's globals.

  \<open>jobs\<close> has \<open>MAXJOBS\<close> entries and a pointer to a job is an index.  \<open>out\<close> collects what is printed
  and \<open>kills\<close> the calls of \<open>kill\<close>, the newest last.  \<open>kill_ok\<close> tells whether a call of \<open>kill\<close>
  succeeds.  A function that may not return to its caller says so in its \<open>ctl\<close>.
\<close>

definition MAXLINE :: nat where "MAXLINE = 1024"
definition MAXARGS :: nat where "MAXARGS = 128"
definition MAXJOBS :: nat where "MAXJOBS = 16"

datatype job_state = UNDEF | FG | BG | ST

record job_t =
  pid :: int
  jid :: int
  state :: job_state
  cmdline :: string

datatype signal = SIGINT | SIGTSTP | SIGCONT

record tsh_t =
  verbose :: bool
  nextjid :: int
  jobs :: "job_t list"
  chld_reaped :: bool
  strerror :: string
  out :: string
  kills :: "(int \<times> signal) list"

text \<open>
  How a function, or the part of it up to the next point where a signal handler can interfere, ends: it returns, it
  calls \<open>waitfg\<close> as its last action, it ends the process, it uses a null pointer, it is at a stage of \<open>do_bgfg\<close> (for
  \<open>fg\<close> or \<open>bg\<close>, with a job), or it is about to announce a background job.  The stages of \<open>do_bgfg\<close> are the switch on
  the state of the job, which it has found, the writing of the new state, the call of \<open>kill\<close>, and what follows.
\<close>

datatype stage = Switch | Write job_state | Resume | Report

datatype ctl = Ret | Waitfg int | Exit int | Crash | Bgfg bool nat stage | Announce int string

definition print :: "string \<Rightarrow> tsh_t \<Rightarrow> tsh_t" where
  "print s sh = sh\<lparr>out := out sh @ s\<rparr>"

text \<open>\<open>unix_error\<close> prints a message and the text of \<open>errno\<close>, here a field, and exits with 1.\<close>

definition unix_error :: "string \<Rightarrow> tsh_t \<Rightarrow> ctl \<times> tsh_t" where
  "unix_error msg sh = (Exit 1, print (msg @ '': '' @ strerror sh @ [NEWLINE]) sh)"

section \<open>The job list\<close>

definition no_job :: job_t where
  "no_job = \<lparr>pid = 0, jid = 0, state = UNDEF, cmdline = []\<rparr>"

definition clearjob :: "nat \<Rightarrow> job_t list \<Rightarrow> job_t list" where
  "clearjob i js = js[i := no_job]"

definition initjobs :: "tsh_t \<Rightarrow> tsh_t" where
  "initjobs sh = sh\<lparr>jobs := replicate MAXJOBS no_job\<rparr>"

definition maxjid :: "job_t list \<Rightarrow> int" where
  "maxjid js = foldl (\<lambda>m j. if jid j > m then jid j else m) 0 js"

text \<open>The first index whose entry satisfies \<open>P\<close>: the loops of the helpers.\<close>

fun first_job :: "(job_t \<Rightarrow> bool) \<Rightarrow> job_t list \<Rightarrow> nat option" where
  "first_job P [] = None"
| "first_job P (j # js) = (if P j then Some 0 else map_option Suc (first_job P js))"

definition addjob :: "int \<Rightarrow> job_state \<Rightarrow> string \<Rightarrow> tsh_t \<Rightarrow> bool \<times> tsh_t" where
  "addjob p s cmd sh =
     (if p < 1 then (False, sh)
      else case first_job (\<lambda>j. pid j = 0) (jobs sh) of
             None \<Rightarrow> (False, print (''Tried to create too many jobs'' @ [NEWLINE]) sh)
           | Some i \<Rightarrow>
               let j = \<lparr>pid = p, jid = nextjid sh, state = s, cmdline = cmd\<rparr>;
                   n = nextjid sh + 1;
                   sh = sh\<lparr>jobs := (jobs sh)[i := j], nextjid := (if n > int MAXJOBS then 1 else n)\<rparr>
               in (True,
                   if verbose sh
                   then print (''Added job ['' @ show_int (jid j) @ ''] '' @ show_int p @ '' '' @ cmd @ [NEWLINE]) sh
                   else sh))"

definition deletejob :: "int \<Rightarrow> tsh_t \<Rightarrow> bool \<times> tsh_t" where
  "deletejob p sh =
     (if p < 1 then (False, sh)
      else case first_job (\<lambda>j. pid j = p) (jobs sh) of
             None \<Rightarrow> (False, sh)
           | Some i \<Rightarrow>
               let js = clearjob i (jobs sh) in (True, sh\<lparr>jobs := js, nextjid := maxjid js + 1\<rparr>))"

definition fgpid :: "job_t list \<Rightarrow> int" where
  "fgpid js = (case first_job (\<lambda>j. state j = FG) js of Some i \<Rightarrow> pid (js ! i) | None \<Rightarrow> 0)"

definition getjobpid :: "job_t list \<Rightarrow> int \<Rightarrow> nat option" where
  "getjobpid js p = (if p < 1 then None else first_job (\<lambda>j. pid j = p) js)"

definition getjobjid :: "job_t list \<Rightarrow> int \<Rightarrow> nat option" where
  "getjobjid js j = (if j < 1 then None else first_job (\<lambda>k. jid k = j) js)"

definition pid2jid :: "job_t list \<Rightarrow> int \<Rightarrow> int" where
  "pid2jid js p =
     (if p < 1 then 0
      else case first_job (\<lambda>j. pid j = p) js of Some i \<Rightarrow> jid (js ! i) | None \<Rightarrow> 0)"

fun state_name :: "nat \<Rightarrow> job_state \<Rightarrow> string" where
  "state_name i BG = ''Running ''"
| "state_name i FG = ''Foreground ''"
| "state_name i ST = ''Stopped ''"
| "state_name i UNDEF = ''listjobs: Internal error: job['' @ show_int (int i) @ ''].state=0 ''"

fun listjobs_from :: "nat \<Rightarrow> job_t list \<Rightarrow> string" where
  "listjobs_from i [] = []"
| "listjobs_from i (j # js) =
     (if pid j \<noteq> 0
      then ''['' @ show_int (jid j) @ ''] ('' @ show_int (pid j) @ '') '' @ state_name i (state j) @ cmdline j
      else []) @ listjobs_from (Suc i) js"

definition listjobs :: "tsh_t \<Rightarrow> tsh_t" where
  "listjobs sh = print (listjobs_from 0 (jobs sh)) sh"

definition set_state :: "nat \<Rightarrow> job_state \<Rightarrow> tsh_t \<Rightarrow> tsh_t" where
  "set_state i s sh = sh\<lparr>jobs := (jobs sh)[i := (jobs sh ! i)\<lparr>state := s\<rparr>]\<rparr>"

section \<open>Parsing\<close>

definition skip_spaces :: "string \<Rightarrow> string" where
  "skip_spaces s = dropWhile (\<lambda>c. c = CHR '' '') s"

text \<open>Where the next argument starts, and the text from its delimiter on.\<close>

definition next_delim :: "string \<Rightarrow> string \<times> string option" where
  "next_delim buf =
     (case buf of
        [] \<Rightarrow> (buf, strchr buf CHR '' '')
      | c # cs \<Rightarrow> if c = QUOTE then (cs, strchr cs QUOTE) else (buf, strchr buf CHR '' ''))"

lemma strchr_suffix: "strchr s c = Some t \<Longrightarrow> \<exists>u. s = u @ t \<and> t \<noteq> []"
proof (induction s)
  case (Cons x s)
  then show ?case by (cases "x = c") (auto intro: exI [of _ "[]"] exI [of _ "x # _"])
qed simp

lemma length_skip_spaces: "length (skip_spaces s) \<le> length s"
  by (simp add: skip_spaces_def length_dropWhile_le)

lemma next_delim_shorter:
  "next_delim buf = (b, Some d) \<Longrightarrow> length (skip_spaces (tl d)) < length buf"
proof -
  assume "next_delim buf = (b, Some d)"
  then obtain u c where "b = u @ d" "d \<noteq> []" "length b \<le> length buf"
    by (auto simp: next_delim_def split: list.splits if_splits dest!: strchr_suffix)
  then have "length (tl d) < length buf" by (cases d) auto
  then show ?thesis using length_skip_spaces [of "tl d"] by simp
qed

function parse_args :: "string \<Rightarrow> string list" where
  "parse_args buf =
     (case next_delim buf of
        (b, None) \<Rightarrow> []
      | (b, Some d) \<Rightarrow> take (length b - length d) b # parse_args (skip_spaces (tl d)))"
  by pat_completeness auto
termination
  by (relation "measure length") (auto dest: next_delim_shorter [OF sym])

declare parse_args.simps [simp del]

text \<open>
  The result is whether the job is a background job, and the arguments.  \<open>None\<close> is a write outside
  an array: an empty line, one that does not fit the local copy, or more arguments than fit with the terminating
  null pointer.
\<close>

definition parseline :: "string \<Rightarrow> (bool \<times> string list) option" where
  "parseline cmd =
     (if cmd = [] \<or> MAXLINE \<le> length cmd then None
      else
        let argv = parse_args (skip_spaces (butlast cmd @ '' ''))
        in if length argv \<ge> MAXARGS then None
           else if argv = [] then Some (True, [])
           else if last argv \<noteq> [] \<and> hd (last argv) = CHR ''&'' then Some (True, butlast argv)
           else Some (False, argv))"

section \<open>Builtins\<close>

text \<open>\<open>kill(-pid, sig)\<close> by the process group.\<close>

definition do_kill :: "(int \<Rightarrow> signal \<Rightarrow> bool) \<Rightarrow> int \<Rightarrow> signal \<Rightarrow> tsh_t \<Rightarrow> bool \<times> tsh_t" where
  "do_kill kill_ok p sig sh = (kill_ok (- p) sig, sh\<lparr>kills := kills sh @ [(- p, sig)]\<rparr>)"

text \<open>The stages: the job is read again at each, as a handler may have run in between.\<close>

fun bgfg_stage :: "(int \<Rightarrow> signal \<Rightarrow> bool) \<Rightarrow> bool \<Rightarrow> nat \<Rightarrow> stage \<Rightarrow> tsh_t \<Rightarrow> ctl \<times> tsh_t" where
  "bgfg_stage kill_ok fg i Switch sh =
     (case state (jobs sh ! i) of
        ST \<Rightarrow> (Bgfg fg i (Write ST), sh)
      | BG \<Rightarrow> (if fg then Bgfg fg i (Write BG) else Ret, sh)
      | FG \<Rightarrow> unix_error (if fg then ''foreground job exists'' else ''foreground job state'') sh
      | UNDEF \<Rightarrow> unix_error ''undefined job state'' sh)"
| "bgfg_stage kill_ok fg i (Write old) sh =
     (Bgfg fg i (if old = ST then Resume else Report), set_state i (if fg then FG else BG) sh)"
| "bgfg_stage kill_ok fg i Resume sh =
     (let (ok, sh) = do_kill kill_ok (pid (jobs sh ! i)) SIGCONT sh
      in if \<not> ok then unix_error ''kill error'' sh else (Bgfg fg i Report, sh))"
| "bgfg_stage kill_ok fg i Report sh =
     (let j = jobs sh ! i
      in if fg then (Waitfg (pid j), sh)
         else (Ret, print (''['' @ show_int (jid j) @ ''] ('' @ show_int (pid j) @ '') '' @ cmdline j) sh))"

text \<open>\<open>do_bgfg\<close> up to the switch, or to its end when it finds no job.\<close>

definition do_bgfg :: "string list \<Rightarrow> tsh_t \<Rightarrow> ctl \<times> tsh_t" where
  "do_bgfg argv sh =
     (let cmd = argv ! 0;
          bad = print (cmd @ '': argument must be a PID or %jobid'' @ [NEWLINE]) sh
      in if length argv < 2
         then (Ret, print (cmd @ '' command requires PID or %jobid argument'' @ [NEWLINE]) sh)
         else
           let para = argv ! 1
           in if para \<noteq> [] \<and> hd para = CHR ''%'' then
                let n = atoi (tl para)
                in if n = 0 then (Ret, bad)
                   else case getjobjid (jobs sh) n of
                          None \<Rightarrow> (Ret, print (para @ '': No such job'' @ [NEWLINE]) sh)
                        | Some i \<Rightarrow> (Bgfg (cmd = ''fg'') i Switch, sh)
              else
                let n = atoi para
                in if n = 0 then (Ret, bad)
                   else case getjobpid (jobs sh) n of
                          None \<Rightarrow> (Ret, print (''('' @ para @ ''): No such process'' @ [NEWLINE]) sh)
                        | Some i \<Rightarrow> (Bgfg (cmd = ''fg'') i Switch, sh))"

text \<open>\<open>None\<close> in the first component: not a builtin.\<close>

definition builtin_cmd :: "string list \<Rightarrow> tsh_t \<Rightarrow> ctl option \<times> tsh_t" where
  "builtin_cmd argv sh =
     (if argv ! 0 = ''quit'' then (Some (Exit 0), sh)
      else if argv ! 0 = ''jobs'' then (Some Ret, listjobs sh)
      else if argv ! 0 = ''fg'' \<or> argv ! 0 = ''bg'' then
        (let (c, sh) = do_bgfg argv sh in (Some c, sh))
      else if argv ! 0 = ''&'' then (Some Ret, sh)
      else (None, sh))"

section \<open>Evaluation\<close>

text \<open>
  \<open>eval\<close> up to the \<open>fork\<close>.  \<open>Forks bg\<close> is the parent behind the \<open>fork\<close>, with \<open>SIGCHLD\<close> blocked.
\<close>

datatype evaluated = Done ctl | Forks bool

definition eval_begin :: "string \<Rightarrow> tsh_t \<Rightarrow> (evaluated \<times> tsh_t) option" where
  "eval_begin cmd sh =
     (case parseline cmd of
        None \<Rightarrow> None
      | Some (bg, argv) \<Rightarrow>
          Some (if argv = [] then (Done Ret, sh)
                else case builtin_cmd argv sh of
                       (Some c, sh) \<Rightarrow> (Done c, sh)
                     | (None, sh) \<Rightarrow> (Forks bg, sh)))"

text \<open>
  The rest of \<open>eval\<close> in the parent, \<open>p\<close> being the result of \<open>fork\<close>: the job is added with all signals blocked; the
  message about a background job comes when they are unblocked.
\<close>

definition eval_parent :: "bool \<Rightarrow> int \<Rightarrow> string \<Rightarrow> tsh_t \<Rightarrow> ctl \<times> tsh_t" where
  "eval_parent bg p cmd sh =
     (if p < 0 then unix_error ''fork error'' sh
      else if \<not> bg then (Waitfg p, snd (addjob p FG cmd sh))
      else (Announce p cmd, snd (addjob p BG cmd sh)))"

definition announce :: "int \<Rightarrow> string \<Rightarrow> tsh_t \<Rightarrow> tsh_t" where
  "announce p cmd sh = print (''['' @ show_int (pid2jid (jobs sh) p) @ ''] ('' @ show_int p @ '') '' @ cmd) sh"

text \<open>\<open>waitfg\<close>: what it does on entry, and the test of its loop.\<close>

definition waitfg_enter :: "tsh_t \<Rightarrow> tsh_t" where
  "waitfg_enter sh = sh\<lparr>chld_reaped := False\<rparr>"

definition waitfg_done :: "tsh_t \<Rightarrow> bool" where
  "waitfg_done sh \<longleftrightarrow> chld_reaped sh"

section \<open>Signal handlers\<close>

datatype status = Exited | Signaled | Stopped

text \<open>\<open>waitpid(-1, &status, WNOHANG|WUNTRACED)\<close>: an error, no news, or a child and its status.\<close>

datatype waited = WaitError | NoChild | Child int status

text \<open>
  The parts of \<open>sigchld_handler\<close> behind \<open>waitpid\<close>, between which another signal can be handled: there is no child to
  reap; the flag for \<open>waitfg\<close>; the change of the job list, for which all signals are blocked, with its message.
\<close>

definition sigchld_idle :: "waited \<Rightarrow> tsh_t \<Rightarrow> ctl \<times> tsh_t" where
  "sigchld_idle w sh = (if w = WaitError then unix_error ''waitpid error'' sh else (Ret, sh))"

definition sigchld_note :: "int \<Rightarrow> tsh_t \<Rightarrow> tsh_t" where
  "sigchld_note p sh = (if p = fgpid (jobs sh) then sh\<lparr>chld_reaped := True\<rparr> else sh)"

definition sigchld_finish :: "int \<Rightarrow> status \<Rightarrow> tsh_t \<Rightarrow> ctl \<times> tsh_t" where
  "sigchld_finish p st sh =
     (if st = Stopped then
        (case getjobpid (jobs sh) p of
           None \<Rightarrow> (Crash, sh)
         | Some i \<Rightarrow>
             let sh = set_state i ST sh
             in (Ret, print (''Job ['' @ show_int (jid (jobs sh ! i)) @ ''] ('' @ show_int p @
                            '') stopped by signal 20'' @ [NEWLINE]) sh))
      else
        let sh = (if st = Signaled
                  then print (''Job ['' @ show_int (pid2jid (jobs sh) p) @ ''] ('' @ show_int p @
                              '') terminated by signal 2'' @ [NEWLINE]) sh
                  else sh)
        in (Ret, snd (deletejob p sh)))"

text \<open>The handler as a whole, when no other signal is handled meanwhile.\<close>

definition sigchld_handler :: "waited \<Rightarrow> tsh_t \<Rightarrow> ctl \<times> tsh_t" where
  "sigchld_handler w sh =
     (case w of Child p st \<Rightarrow> sigchld_finish p st (sigchld_note p sh) | _ \<Rightarrow> sigchld_idle w sh)"

text \<open>The handlers that forward a signal to the foreground job: its pid is read, then the signal is sent.\<close>

definition forward_kill :: "signal \<Rightarrow> (int \<Rightarrow> signal \<Rightarrow> bool) \<Rightarrow> int \<Rightarrow> tsh_t \<Rightarrow> ctl \<times> tsh_t" where
  "forward_kill sig kill_ok p sh =
     (let (ok, sh) = do_kill kill_ok p sig sh in if \<not> ok then unix_error ''kill error'' sh else (Ret, sh))"

definition forward_signal :: "signal \<Rightarrow> (int \<Rightarrow> signal \<Rightarrow> bool) \<Rightarrow> tsh_t \<Rightarrow> ctl \<times> tsh_t" where
  "forward_signal sig kill_ok sh =
     (let p = fgpid (jobs sh) in if p \<noteq> 0 then forward_kill sig kill_ok p sh else (Ret, sh))"

definition sigint_handler :: "(int \<Rightarrow> signal \<Rightarrow> bool) \<Rightarrow> tsh_t \<Rightarrow> ctl \<times> tsh_t" where
  "sigint_handler = forward_signal SIGINT"

definition sigtstp_handler :: "(int \<Rightarrow> signal \<Rightarrow> bool) \<Rightarrow> tsh_t \<Rightarrow> ctl \<times> tsh_t" where
  "sigtstp_handler = forward_signal SIGTSTP"

definition sigquit_handler :: "tsh_t \<Rightarrow> ctl \<times> tsh_t" where
  "sigquit_handler sh = (Exit 1, print (''Terminating after receipt of SIGQUIT signal'' @ [NEWLINE]) sh)"

section \<open>Reading commands\<close>

text \<open>
  One round of the loop of \<open>main\<close>: the line and the rest of the input, or \<open>None\<close> when \<open>feof\<close> holds
  after the read; a last line without a line end is not evaluated.
\<close>

definition read_command :: "string \<Rightarrow> (string \<times> string) option" where
  "read_command input =
     (let (l, r) = fgets (MAXLINE - 1) input
      in if l = [] \<or> (r = [] \<and> length l < MAXLINE - 1 \<and> last l \<noteq> NEWLINE) then None
         else Some (l, r))"

end
