(* ===== verification/TshSystem.thy ===== *)
theory TshSystem
  imports Tsh
begin

text \<open>
  The shell among its children: \<open>lab9/tsh.c\<close> as a step relation in which the main program and the
  signal handlers interleave.

  The main program is at one of a few points, and the handlers that have been entered and not left are a stack of
  frames over it; only the top of the stack moves.  A handler blocks its own signal only (\<open>Signal\<close> gives an empty
  mask), so that a \<open>SIGINT\<close> can be handled between \<open>waitpid\<close> and the deletion of the job, and a \<open>SIGCHLD\<close>
  between the stages of \<open>do_bgfg\<close>.  What is one step reads or writes the job list once or has all signals blocked,
  but for the loops over the job list of \<open>jobs\<close>, \<open>fgpid\<close> and the search of \<open>do_bgfg\<close>, and the arguments of one
  \<open>printf\<close>, which are taken to be undisturbed.  The message of the handler of \<open>SIGCHLD\<close> goes with the change that it
  reports: no handler that could come between changes the job list.

  \<open>SIGCHLD\<close> is blocked from the \<open>fork\<close> to the end of \<open>addjob\<close> (the point \<open>Parent\<close>), and is a single pending
  bit.  \<open>BeforeWait\<close> is the entry of \<open>waitfg\<close>, where the signal is not blocked, and \<open>Waiting\<close> its loop.  The kernel
  side is abstract: the children that have no status to report (\<open>live\<close>), those that have (\<open>ready\<close>), and the bit.
\<close>

section \<open>States and steps\<close>

datatype point = Prompt | Parent bool int string | Announcing int string | Builtin bool nat stage
  | BeforeWait int | Waiting int | Dead int | Crashed

text \<open>
  A handler of \<open>SIGCHLD\<close> before \<open>waitpid\<close>, with the child and status that it got, and past the flag; a handler of
  \<open>SIGINT\<close> or \<open>SIGTSTP\<close> before \<open>kill\<close>, with the pid that it read.
\<close>

datatype frame = Entered | Reaped int status | Noted int status | Forwards signal int

record sys =
  shell :: tsh_t
  at_point :: point
  frames :: "frame list"
  input :: string
  live :: "int list"
  ready :: "(int \<times> status) list"
  pending :: bool

fun goto :: "point \<Rightarrow> ctl \<Rightarrow> point" where
  "goto k Ret = k"
| "goto k (Waitfg p) = BeforeWait p"
| "goto k (Exit n) = Dead n"
| "goto k Crash = Crashed"
| "goto k (Bgfg fg i st) = Builtin fg i st"
| "goto k (Announce p l) = Announcing p l"

fun alive :: "point \<Rightarrow> bool" where
  "alive (Dead n) = False"
| "alive Crashed = False"
| "alive _ = True"

text \<open>\<open>eval\<close> has \<open>SIGCHLD\<close> blocked.\<close>

fun forking :: "point \<Rightarrow> bool" where
  "forking (Parent bg p l) = True"
| "forking _ = False"

fun of_sigchld :: "frame \<Rightarrow> bool" where
  "of_sigchld (Forwards sig p) = False"
| "of_sigchld _ = True"

definition chld_unblocked :: "sys \<Rightarrow> bool" where
  "chld_unblocked s \<longleftrightarrow> alive (at_point s) \<and> \<not> forking (at_point s) \<and> \<not> list_ex of_sigchld (frames s)"

definition unblocked :: "signal \<Rightarrow> sys \<Rightarrow> bool" where
  "unblocked sig s \<longleftrightarrow> alive (at_point s) \<and> \<not> list_ex (\<lambda>f. case f of Forwards g p \<Rightarrow> g = sig | _ \<Rightarrow> False) (frames s)"

text \<open>The main program, and a handler, go on after a part of their code.\<close>

definition proceed :: "ctl \<times> tsh_t \<Rightarrow> sys \<Rightarrow> sys" where
  "proceed r s = s\<lparr>shell := snd r, at_point := goto Prompt (fst r)\<rparr>"

definition handle :: "ctl \<times> tsh_t \<Rightarrow> frame list \<Rightarrow> sys \<Rightarrow> sys" where
  "handle r fs s = s\<lparr>shell := snd r, at_point := goto (at_point s) (fst r), frames := fs\<rparr>"

definition taken :: "int \<Rightarrow> status \<Rightarrow> sys \<Rightarrow> sys" where
  "taken p st s = s\<lparr>ready := remove1 (p, st) (ready s), live := (if st = Stopped then p # live s else live s)\<rparr>"

text \<open>
  First the main program, then the handlers (\<open>deliver\<close> to \<open>quit\<close>), then the children: one changes its status, one
  that was stopped changes it again before the shell has asked for it, and one is continued.
\<close>

inductive step :: "(int \<Rightarrow> signal \<Rightarrow> bool) \<Rightarrow> sys \<Rightarrow> sys \<Rightarrow> bool" for kill_ok where
  eof: "frames s = [] \<Longrightarrow> at_point s = Prompt \<Longrightarrow> read_command (input s) = None \<Longrightarrow> step kill_ok s (s\<lparr>at_point := Dead 0\<rparr>)"
| overflow: "frames s = [] \<Longrightarrow> at_point s = Prompt \<Longrightarrow> read_command (input s) = Some (l, r) \<Longrightarrow>
    eval_begin l (shell s) = None \<Longrightarrow> step kill_ok s (s\<lparr>at_point := Crashed\<rparr>)"
| builtin: "frames s = [] \<Longrightarrow> at_point s = Prompt \<Longrightarrow> read_command (input s) = Some (l, r) \<Longrightarrow>
    eval_begin l (shell s) = Some (Done c, sh') \<Longrightarrow> step kill_ok s (proceed (c, sh') (s\<lparr>input := r\<rparr>))"
| fork: "frames s = [] \<Longrightarrow> at_point s = Prompt \<Longrightarrow> read_command (input s) = Some (l, r) \<Longrightarrow>
    eval_begin l (shell s) = Some (Forks bg, sh') \<Longrightarrow> 0 < p \<Longrightarrow> p \<notin> set (live s) \<Longrightarrow> p \<notin> fst ` set (ready s) \<Longrightarrow>
    step kill_ok s (s\<lparr>shell := sh', at_point := Parent bg p l, input := r, live := p # live s\<rparr>)"
| fork_fails: "frames s = [] \<Longrightarrow> at_point s = Prompt \<Longrightarrow> read_command (input s) = Some (l, r) \<Longrightarrow>
    eval_begin l (shell s) = Some (Forks bg, sh') \<Longrightarrow>
    step kill_ok s (s\<lparr>shell := sh', at_point := Parent bg (-1) l, input := r\<rparr>)"
| parent: "frames s = [] \<Longrightarrow> at_point s = Parent bg p l \<Longrightarrow> step kill_ok s (proceed (eval_parent bg p l (shell s)) s)"
| message: "frames s = [] \<Longrightarrow> at_point s = Announcing p l \<Longrightarrow> step kill_ok s (proceed (Ret, announce p l (shell s)) s)"
| bgfg: "frames s = [] \<Longrightarrow> at_point s = Builtin fg i st \<Longrightarrow> step kill_ok s (proceed (bgfg_stage kill_ok fg i st (shell s)) s)"
| enter: "frames s = [] \<Longrightarrow> at_point s = BeforeWait p \<Longrightarrow>
    step kill_ok s (s\<lparr>shell := waitfg_enter (shell s), at_point := Waiting p\<rparr>)"
| leave: "frames s = [] \<Longrightarrow> at_point s = Waiting p \<Longrightarrow> waitfg_done (shell s) \<Longrightarrow> step kill_ok s (s\<lparr>at_point := Prompt\<rparr>)"
| deliver: "chld_unblocked s \<Longrightarrow> pending s \<Longrightarrow> step kill_ok s (s\<lparr>pending := False, frames := Entered # frames s\<rparr>)"
| reap: "alive (at_point s) \<Longrightarrow> frames s = Entered # fs \<Longrightarrow> (p, st) \<in> set (ready s) \<Longrightarrow>
    step kill_ok s (taken p st (s\<lparr>frames := Reaped p st # fs\<rparr>))"
| reap_none: "alive (at_point s) \<Longrightarrow> frames s = Entered # fs \<Longrightarrow> ready s = [] \<Longrightarrow>
    step kill_ok s (handle (sigchld_idle (if live s = [] then WaitError else NoChild) (shell s)) fs s)"
| note_flag: "alive (at_point s) \<Longrightarrow> frames s = Reaped p st # fs \<Longrightarrow>
    step kill_ok s (s\<lparr>shell := sigchld_note p (shell s), frames := Noted p st # fs\<rparr>)"
| finish: "alive (at_point s) \<Longrightarrow> frames s = Noted p st # fs \<Longrightarrow>
    step kill_ok s (handle (sigchld_finish p st (shell s)) fs s)"
| forward: "unblocked sig s \<Longrightarrow> sig \<in> {SIGINT, SIGTSTP} \<Longrightarrow> fgpid (jobs (shell s)) = p \<Longrightarrow>
    step kill_ok s (if p \<noteq> 0 then s\<lparr>frames := Forwards sig p # frames s\<rparr> else s)"
| sends: "alive (at_point s) \<Longrightarrow> frames s = Forwards sig p # fs \<Longrightarrow>
    step kill_ok s (handle (forward_kill sig kill_ok p (shell s)) fs s)"
| quit: "alive (at_point s) \<Longrightarrow> step kill_ok s (handle (sigquit_handler (shell s)) (frames s) s)"
| child: "p \<in> set (live s) \<Longrightarrow>
    step kill_ok s (s\<lparr>live := remove1 p (live s), ready := ready s @ [(p, st)], pending := True\<rparr>)"
| child_again: "(p, Stopped) \<in> set (ready s) \<Longrightarrow> st \<noteq> Stopped \<Longrightarrow>
    step kill_ok s (s\<lparr>ready := remove1 (p, Stopped) (ready s) @ [(p, st)], pending := True\<rparr>)"
| continued: "p \<in> set (live s) \<Longrightarrow> step kill_ok s (s\<lparr>pending := True\<rparr>)"

abbreviation steps :: "(int \<Rightarrow> signal \<Rightarrow> bool) \<Rightarrow> sys \<Rightarrow> sys \<Rightarrow> bool" where
  "steps kill_ok \<equiv> (step kill_ok)\<^sup>*\<^sup>*"

text \<open>The shell after \<open>initjobs\<close>, reading \<open>inp\<close>.\<close>

definition start_shell :: "bool \<Rightarrow> tsh_t" where
  "start_shell v = initjobs \<lparr>verbose = v, nextjid = 1, jobs = [], chld_reaped = False, strerror = [],
     out = [], kills = []\<rparr>"

definition start :: "bool \<Rightarrow> string \<Rightarrow> sys" where
  "start v inp = \<lparr>shell = start_shell v, at_point = Prompt, frames = [], input = inp, live = [], ready = [], pending = False\<rparr>"

section \<open>The job list as a set of jobs\<close>

text \<open>
  An entry is in use when its pid is not 0, and pids are not repeated.  An entry that is not in use can have a state:
  \<open>do_bgfg\<close> writes the state of a job that a handler may just have deleted.
\<close>

definition used :: "job_t \<Rightarrow> bool" where
  "used j \<longleftrightarrow> pid j \<noteq> 0"

definition pids :: "job_t list \<Rightarrow> int list" where
  "pids js = map pid (filter used js)"

definition jobs_ok :: "job_t list \<Rightarrow> bool" where
  "jobs_ok js \<longleftrightarrow> length js = MAXJOBS \<and> distinct (pids js) \<and> (\<forall>j \<in> set js. 0 \<le> pid j)"

definition fg_jobs :: "job_t list \<Rightarrow> job_t list" where
  "fg_jobs js = filter (\<lambda>j. state j = FG) js"

lemma first_job_Some:
  "first_job P js = Some i \<Longrightarrow> i < length js \<and> P (js ! i) \<and> (\<forall>k < i. \<not> P (js ! k))"
proof (induction js arbitrary: i)
  case (Cons j js)
  show ?case
  proof (cases "P j")
    case False
    then obtain k where "first_job P js = Some k" "i = Suc k" using Cons.prems by auto
    then show ?thesis using Cons.IH [of k] False by (auto simp: less_Suc_eq_0_disj)
  qed (use Cons.prems in auto)
qed simp

lemma first_job_None: "first_job P js = None \<longleftrightarrow> (\<forall>j \<in> set js. \<not> P j)"
  by (induction js) auto

lemma pids_middle: "pids (xs @ j # ys) = pids xs @ (if used j then [pid j] else []) @ pids ys"
  by (simp add: pids_def)

lemma pids_update:
  assumes "i < length js"
  shows "\<exists>xs ys. pids js = xs @ (if used (js ! i) then [pid (js ! i)] else []) @ ys \<and>
    pids (js[i := j]) = xs @ (if used j then [pid j] else []) @ ys"
proof -
  have "pids js = pids (take i js @ js ! i # drop (Suc i) js)"
    using id_take_nth_drop [OF assms] by simp
  moreover have "pids (js[i := j]) = pids (take i js @ j # drop (Suc i) js)"
    using upd_conv_take_nth_drop [OF assms] by simp
  ultimately show ?thesis unfolding pids_middle by blast
qed

lemma jobs_ok_update:
  assumes "jobs_ok js" and "i < length js" and "0 \<le> pid j" and "used j \<Longrightarrow> pid j = pid (js ! i) \<or> pid j \<notin> set (pids js)"
  shows "jobs_ok (js[i := j])"
    "set (pids (js[i := j])) = (set (pids js) - {pid (js ! i)}) \<union> (if used j then {pid j} else {})"
proof -
  obtain xs ys where p: "pids js = xs @ (if used (js ! i) then [pid (js ! i)] else []) @ ys"
      "pids (js[i := j]) = xs @ (if used j then [pid j] else []) @ ys"
    using pids_update [OF assms(2), of j] by blast
  have d: "distinct (pids js)" and ge: "\<forall>j \<in> set js. 0 \<le> pid j" using assms(1) by (auto simp: jobs_ok_def)
  have u: "pid (js ! i) \<notin> set (pids js)" if "\<not> used (js ! i)" using that by (auto simp: pids_def used_def)
  show "set (pids (js[i := j])) = (set (pids js) - {pid (js ! i)}) \<union> (if used j then {pid j} else {})"
    using p d u by (auto split: if_splits)
  have "distinct (pids (js[i := j]))" using p d assms(4) u by (auto split: if_splits)
  then show "jobs_ok (js[i := j])"
    using assms(1,3) ge by (auto simp: jobs_ok_def dest!: set_update_subset_insert [THEN subsetD])
qed

lemma jobs_ok_set_state:
  assumes "jobs_ok (jobs sh)" and "i < length (jobs sh)"
  shows "jobs_ok (jobs (set_state i s sh))" "set (pids (jobs (set_state i s sh))) = set (pids (jobs sh))"
proof -
  let ?j = "(jobs sh ! i)\<lparr>state := s\<rparr>"
  have "0 \<le> pid ?j" using assms by (auto simp: jobs_ok_def)
  note u = jobs_ok_update [OF assms this]
  show "jobs_ok (jobs (set_state i s sh))" using u(1) by (simp add: set_state_def)
  have "used (jobs sh ! i) \<Longrightarrow> pid (jobs sh ! i) \<in> set (pids (jobs sh))"
    using assms(2) by (auto simp: pids_def)
  moreover have "\<not> used (jobs sh ! i) \<Longrightarrow> pid (jobs sh ! i) \<notin> set (pids (jobs sh))"
    by (auto simp: pids_def used_def)
  ultimately show "set (pids (jobs (set_state i s sh))) = set (pids (jobs sh))"
    using u(2) by (auto simp: set_state_def used_def)
qed

lemma jobs_ok_clear:
  assumes "jobs_ok js" and "i < length js"
  shows "jobs_ok (clearjob i js)" "set (pids (clearjob i js)) = set (pids js) - {pid (js ! i)}"
  using jobs_ok_update [OF assms, of no_job] by (simp_all add: clearjob_def no_job_def used_def)

end
