(* ===== verification/TshInv.thy ===== *)
theory TshInv
  imports TshSystem
begin

text \<open>
  What the shell of \<open>lab9/tsh.c\<close> keeps: the effect of every function, and of every part of a handler, on the job
  list, and the invariant \<open>inv\<close> of the step relation: pids are not repeated, every job is a child that has not
  been reaped or the one that the handler is about to delete, and there is at most one foreground job.
\<close>

section \<open>Foreground jobs\<close>

text \<open>The entries that are in the foreground.\<close>

definition fgi :: "job_t list \<Rightarrow> nat set" where
  "fgi js = {i. i < length js \<and> state (js ! i) = FG}"

lemma fgi_update: "i < length js \<Longrightarrow> fgi (js[i := j]) = (if state j = FG then insert i (fgi js) else fgi js - {i})"
  by (auto simp: fgi_def nth_list_update)

lemma fgi_empty: "fgi js = {} \<longleftrightarrow> fg_jobs js = []"
  by (auto simp: fgi_def fg_jobs_def filter_empty_conv all_set_conv_all_nth)

lemma length_fg_jobs: "fgi js \<subseteq> {i} \<Longrightarrow> length (fg_jobs js) \<le> 1"
proof -
  assume "fgi js \<subseteq> {i}"
  then have "card (fgi js) \<le> card {i}" by (intro card_mono) auto
  then show ?thesis by (simp add: fg_jobs_def fgi_def length_filter_conv_card)
qed

lemma fgpid_fgi:
  "fgi js = {} \<Longrightarrow> fgpid js = 0" "fgi js \<subseteq> {i} \<Longrightarrow> fgi js \<noteq> {} \<Longrightarrow> i < length js \<and> fgpid js = pid (js ! i)"
proof -
  show "fgi js = {} \<Longrightarrow> fgpid js = 0"
    by (cases "first_job (\<lambda>j. state j = FG) js") (auto simp: fgi_def fgpid_def dest: first_job_Some)
  assume a: "fgi js \<subseteq> {i}" "fgi js \<noteq> {}"
  then obtain k where "k < length js" "state (js ! k) = FG" by (auto simp: fgi_def)
  then have "first_job (\<lambda>j. state j = FG) js \<noteq> None" by (auto simp: first_job_None)
  then obtain n where n: "first_job (\<lambda>j. state j = FG) js = Some n" by auto
  then have "n \<in> fgi js" using first_job_Some by (auto simp: fgi_def)
  then have "n = i" using a(1) by auto
  then show "i < length js \<and> fgpid js = pid (js ! i)" using n first_job_Some [OF n] by (simp add: fgpid_def)
qed

lemma distinct_map_filter_nth:
  "distinct (map f (filter P xs)) \<Longrightarrow> i < length xs \<Longrightarrow> k < length xs \<Longrightarrow> P (xs ! i) \<Longrightarrow> P (xs ! k) \<Longrightarrow>
     f (xs ! i) = f (xs ! k) \<Longrightarrow> i = k"
proof (induction xs arbitrary: i k)
  case (Cons x xs)
  have "f (xs ! n) \<noteq> f x" if "P x" "n < length xs" "P (xs ! n)" for n
    using Cons.prems(1) that by (auto simp: image_iff)
  then show ?case using Cons by (cases i; cases k) (auto split: if_splits)
qed simp

text \<open>The entry that a search for a pid finds is the only one with this pid.\<close>

lemma first_job_pid:
  assumes "jobs_ok js" and "0 < p" and "i < length js" and "pid (js ! i) = p"
  shows "first_job (\<lambda>j. pid j = p) js = Some i"
proof -
  have "first_job (\<lambda>j. pid j = p) js \<noteq> None" using assms(3,4) by (auto simp: first_job_None)
  then obtain k where k: "first_job (\<lambda>j. pid j = p) js = Some k" by auto
  then have "k < length js" "pid (js ! k) = p" using first_job_Some by blast+
  then have "k = i"
    using distinct_map_filter_nth [of pid used js k i] assms by (auto simp: jobs_ok_def pids_def used_def)
  then show ?thesis using k by simp
qed

section \<open>What the functions do to the job list\<close>

lemma print_jobs [simp]: "jobs (print s sh) = jobs sh" "chld_reaped (print s sh) = chld_reaped sh"
  by (simp_all add: print_def)

lemma unix_error_jobs [simp]: "jobs (snd (unix_error m sh)) = jobs sh" "fst (unix_error m sh) = Exit 1"
  "chld_reaped (snd (unix_error m sh)) = chld_reaped sh"
  by (simp_all add: unix_error_def)

lemma do_kill_jobs [simp]: "jobs (snd (do_kill k p g sh)) = jobs sh"
  "chld_reaped (snd (do_kill k p g sh)) = chld_reaped sh"
  by (simp_all add: do_kill_def)

lemma announce_jobs [simp]: "jobs (announce p l sh) = jobs sh" "chld_reaped (announce p l sh) = chld_reaped sh"
  by (simp_all add: announce_def)

lemma sigchld_note_jobs [simp]: "jobs (sigchld_note p sh) = jobs sh"
  "chld_reaped (sigchld_note p sh) \<longleftrightarrow> p = fgpid (jobs sh) \<or> chld_reaped sh"
  by (simp_all add: sigchld_note_def)

lemma set_state_fgi: "i < length (jobs sh) \<Longrightarrow>
    fgi (jobs (set_state i s sh)) = (if s = FG then insert i (fgi (jobs sh)) else fgi (jobs sh) - {i})"
  by (simp add: set_state_def fgi_update)

lemma addjob_jobs:
  assumes "jobs_ok (jobs sh)" and "0 < p" and "p \<notin> set (pids (jobs sh))" and "fgi (jobs sh) = {}"
  shows "jobs_ok (jobs (snd (addjob p s c sh)))"
    "set (pids (jobs (snd (addjob p s c sh)))) \<subseteq> insert p (set (pids (jobs sh)))"
    "\<exists>i. fgi (jobs (snd (addjob p s c sh))) \<subseteq> (if s = FG then {i} else {})"
proof -
  let ?j = "\<lparr>pid = p, jid = nextjid sh, state = s, cmdline = c\<rparr>"
  have "jobs_ok (jobs (snd (addjob p s c sh))) \<and>
    set (pids (jobs (snd (addjob p s c sh)))) \<subseteq> insert p (set (pids (jobs sh))) \<and>
    (\<exists>i. fgi (jobs (snd (addjob p s c sh))) \<subseteq> (if s = FG then {i} else {}))"
  proof (cases "first_job (\<lambda>j. pid j = 0) (jobs sh)")
    case None
    then show ?thesis using assms by (simp add: addjob_def subset_insertI)
  next
    case (Some i)
    then have i: "i < length (jobs sh)" using first_job_Some by blast
    have js: "jobs (snd (addjob p s c sh)) = (jobs sh)[i := ?j]"
      using assms(2) Some by (simp add: addjob_def Let_def)
    show ?thesis unfolding js
      using jobs_ok_update [OF assms(1) i, of ?j] assms(2,3,4) fgi_update [OF i, of ?j] by auto
  qed
  then show "jobs_ok (jobs (snd (addjob p s c sh)))"
    "set (pids (jobs (snd (addjob p s c sh)))) \<subseteq> insert p (set (pids (jobs sh)))"
    "\<exists>i. fgi (jobs (snd (addjob p s c sh))) \<subseteq> (if s = FG then {i} else {})"
    by blast+
qed

lemma deletejob_jobs:
  assumes "jobs_ok (jobs sh)" and "0 < p"
  shows "jobs_ok (jobs (snd (deletejob p sh)))"
    "set (pids (jobs (snd (deletejob p sh)))) = set (pids (jobs sh)) - {p}"
    "fgi (jobs (snd (deletejob p sh))) \<subseteq> fgi (jobs sh)"
    "i < length (jobs sh) \<Longrightarrow> pid (jobs sh ! i) = p \<Longrightarrow> i \<notin> fgi (jobs (snd (deletejob p sh)))"
    "chld_reaped (snd (deletejob p sh)) = chld_reaped sh"
proof -
  have n: "state no_job \<noteq> FG" by (simp add: no_job_def)
  have "jobs_ok (jobs (snd (deletejob p sh))) \<and>
    set (pids (jobs (snd (deletejob p sh)))) = set (pids (jobs sh)) - {p} \<and>
    fgi (jobs (snd (deletejob p sh))) \<subseteq> fgi (jobs sh) \<and> chld_reaped (snd (deletejob p sh)) = chld_reaped sh"
  proof (cases "first_job (\<lambda>j. pid j = p) (jobs sh)")
    case None
    then have "p \<notin> set (pids (jobs sh))" by (auto simp: first_job_None pids_def)
    then show ?thesis using assms None by (simp add: deletejob_def)
  next
    case (Some i)
    then have i: "i < length (jobs sh)" "pid (jobs sh ! i) = p" using first_job_Some by blast+
    have js: "jobs (snd (deletejob p sh)) = clearjob i (jobs sh)" "chld_reaped (snd (deletejob p sh)) = chld_reaped sh"
      using assms(2) Some by (simp_all add: deletejob_def Let_def)
    show ?thesis unfolding js
      using jobs_ok_clear [OF assms(1) i(1)] fgi_update [OF i(1), of no_job] i(2) n by (auto simp: clearjob_def)
  qed
  then show "jobs_ok (jobs (snd (deletejob p sh)))"
    "set (pids (jobs (snd (deletejob p sh)))) = set (pids (jobs sh)) - {p}"
    "fgi (jobs (snd (deletejob p sh))) \<subseteq> fgi (jobs sh)" "chld_reaped (snd (deletejob p sh)) = chld_reaped sh" by blast+
  assume i: "i < length (jobs sh)" "pid (jobs sh ! i) = p"
  then have "jobs (snd (deletejob p sh)) = clearjob i (jobs sh)"
    using first_job_pid [OF assms(1,2)] assms(2) by (simp add: deletejob_def Let_def)
  then show "i \<notin> fgi (jobs (snd (deletejob p sh)))" using fgi_update [OF i(1), of no_job] n by (simp add: clearjob_def)
qed

text \<open>The commands up to the first point: they leave the job list, and \<open>fg\<close> and \<open>bg\<close> have found a job.\<close>

definition begun :: "tsh_t \<Rightarrow> ctl \<Rightarrow> tsh_t \<Rightarrow> bool" where
  "begun sh c sh' \<longleftrightarrow> jobs sh' = jobs sh \<and>
     (c = Ret \<or> (\<exists>n. c = Exit n) \<or> (\<exists>fg i. c = Bgfg fg i Switch \<and> i < length (jobs sh)))"

lemma do_bgfg_begun: "begun sh (fst (do_bgfg argv sh)) (snd (do_bgfg argv sh))"
proof -
  have "i < length (jobs sh)" if "getjobpid (jobs sh) n = Some i \<or> getjobjid (jobs sh) n = Some i" for i n
    using that first_job_Some by (auto simp: getjobpid_def getjobjid_def split: if_splits)
  then show ?thesis by (auto simp: do_bgfg_def Let_def begun_def split: option.split)
qed

lemma builtin_cmd_begun:
  "case builtin_cmd argv sh of (Some c, sh') \<Rightarrow> begun sh c sh' | (None, sh') \<Rightarrow> sh' = sh"
  using do_bgfg_begun [of sh argv] by (auto simp: builtin_cmd_def listjobs_def case_prod_beta begun_def)

lemma eval_begin_begun:
  "eval_begin l sh = Some (Done c, sh') \<Longrightarrow> begun sh c sh'"
  "eval_begin l sh = Some (Forks bg, sh') \<Longrightarrow> sh' = sh"
proof -
  have b: "begun sh c s1" if "builtin_cmd argv sh = (Some c, s1)" for argv c s1
    using builtin_cmd_begun [where argv = argv and sh = sh] that by simp
  have n: "s1 = sh" if "builtin_cmd argv sh = (None, s1)" for argv s1
    using builtin_cmd_begun [where argv = argv and sh = sh] that by simp
  show "eval_begin l sh = Some (Done c, sh') \<Longrightarrow> begun sh c sh'"
    using b by (auto simp: eval_begin_def begun_def split: option.splits prod.splits if_splits)
  show "eval_begin l sh = Some (Forks bg, sh') \<Longrightarrow> sh' = sh"
    using n by (auto simp: eval_begin_def split: option.splits prod.splits if_splits)
qed

section \<open>The invariant\<close>

fun fg_ok :: "point \<Rightarrow> frame list \<Rightarrow> tsh_t \<Rightarrow> bool" where
  "fg_ok Prompt fs sh \<longleftrightarrow> fgi (jobs sh) = {}"
| "fg_ok (Parent bg p l) fs sh \<longleftrightarrow> fgi (jobs sh) = {} \<and> p \<notin> set (pids (jobs sh)) \<and> p \<noteq> 0"
| "fg_ok (Announcing p l) fs sh \<longleftrightarrow> fgi (jobs sh) = {}"
| "fg_ok (Builtin fg i st) fs sh \<longleftrightarrow> i < MAXJOBS \<and> fgi (jobs sh) \<subseteq> (if fg \<and> (st = Resume \<or> st = Report) then {i} else {})"
| "fg_ok (Waiting p) fs sh \<longleftrightarrow> (\<exists>i. fgi (jobs sh) \<subseteq> {i}) \<and>
     (chld_reaped sh \<longrightarrow> fgi (jobs sh) = {} \<or> (\<exists>st. 0 < fgpid (jobs sh) \<and> Noted (fgpid (jobs sh)) st \<in> set fs))"
| "fg_ok _ fs sh \<longleftrightarrow> (\<exists>i. fgi (jobs sh) \<subseteq> {i})"

fun forked :: "point \<Rightarrow> int set" where
  "forked (Parent bg p l) = (if 0 < p then {p} else {})"
| "forked _ = {}"

text \<open>The child of a frame, and the one that ended and is gone from the children.\<close>

fun concerns :: "frame \<Rightarrow> int set" where
  "concerns (Reaped p st) = {p}"
| "concerns (Noted p st) = {p}"
| "concerns _ = {}"

fun reaped :: "frame \<Rightarrow> int set" where
  "reaped (Reaped p st) = (if st = Stopped then {} else {p})"
| "reaped (Noted p st) = (if st = Stopped then {} else {p})"
| "reaped _ = {}"

definition children :: "sys \<Rightarrow> int set" where
  "children s = set (live s) \<union> fst ` set (ready s)"

definition being_reaped :: "sys \<Rightarrow> int set" where
  "being_reaped s = \<Union> (reaped ` set (frames s))"

definition inv :: "sys \<Rightarrow> bool" where
  "inv s \<longleftrightarrow> jobs_ok (jobs (shell s)) \<and> fg_ok (at_point s) (frames s) (shell s) \<and>
     set (pids (jobs (shell s))) \<subseteq> children s \<union> being_reaped s \<and> forked (at_point s) \<subseteq> children s \<and>
     distinct (live s @ map fst (ready s)) \<and> (\<forall>p \<in> children s \<union> \<Union> (concerns ` set (frames s)). 0 < p) \<and>
     length (filter of_sigchld (frames s)) \<le> (if forking (at_point s) then 0 else 1)"

lemma inv_start: "inv (start v inp)"
  by (auto simp: inv_def start_def start_shell_def initjobs_def jobs_ok_def pids_def used_def no_job_def
      fgi_def children_def being_reaped_def)

lemma fg_ok_one: "fg_ok at fs sh \<Longrightarrow> \<exists>i. fgi (jobs sh) \<subseteq> {i}"
  by (cases "(at, fs, sh)" rule: fg_ok.cases) (auto split: if_splits)

text \<open>The end of a part that leaves the job list and the flag alone, and of the process.\<close>

lemma fg_ok_frames:
  assumes "fg_ok at fs sh" and "jobs sh' = jobs sh" and "chld_reaped sh' = chld_reaped sh" and "\<And>q st. Noted q st \<in> set fs \<Longrightarrow> Noted q st \<in> set fs'"
  shows "fg_ok at fs' sh'"
  using assms by (cases at) auto

lemma fg_ok_smaller:
  assumes "fg_ok at fs sh" and "fgi (jobs sh') \<subseteq> fgi (jobs sh)" and "set (pids (jobs sh')) \<subseteq> set (pids (jobs sh))"
    and "\<And>p. at = Waiting p \<Longrightarrow> chld_reaped sh' \<Longrightarrow> fgi (jobs sh') = {}"
  shows "fg_ok at fs' sh'"
proof -
  have e: "\<exists>i. fgi (jobs sh') \<subseteq> {i}" using fg_ok_one [OF assms(1)] assms(2) by blast
  have z: "fgi (jobs sh) = {} \<Longrightarrow> fgi (jobs sh') = {}" using assms(2) by simp
  show ?thesis
  proof (cases at)
    case (Parent bg p l)
    then show ?thesis using assms(1,3) z by auto
  next
    case (Builtin fg i st)
    then have "fgi (jobs sh) \<subseteq> (if fg \<and> (st = Resume \<or> st = Report) then {i} else {})" "i < MAXJOBS" using assms(1) by simp_all
    then show ?thesis using Builtin subset_trans [OF assms(2)] by simp
  next
    case (Waiting p)
    then show ?thesis using e assms(4) by simp
  qed (use assms(1) e z in simp_all)
qed

lemma reaped_sigchld:
  "\<Union> (reaped ` set fs) = \<Union> (reaped ` set (filter of_sigchld fs))"
  "\<Union> (concerns ` set fs) = \<Union> (concerns ` set (filter of_sigchld fs))"
proof -
  have n: "reaped f = {}" "concerns f = {}" if "\<not> of_sigchld f" for f using that by (cases f; simp)+
  show "\<Union> (reaped ` set fs) = \<Union> (reaped ` set (filter of_sigchld fs))" by (induction fs) (simp_all add: n)
  show "\<Union> (concerns ` set fs) = \<Union> (concerns ` set (filter of_sigchld fs))" by (induction fs) (simp_all add: n)
qed

lemma inv_frames:
  assumes "inv s" and "jobs sh' = jobs (shell s)" and "chld_reaped sh' = chld_reaped (shell s)"
    and "filter of_sigchld fs = filter of_sigchld (frames s)" and "c = Ret \<or> (\<exists>n. c = Exit n)"
  shows "inv (handle (c, sh') fs s)"
proof -
  have "Noted q st \<in> set fs" if "Noted q st \<in> set (frames s)" for q st
  proof -
    have "Noted q st \<in> set (filter of_sigchld (frames s))" using that by simp
    then show ?thesis unfolding assms(4) [symmetric] by simp
  qed
  moreover have "fg_ok (at_point s) (frames s) (shell s)" using assms(1) by (simp add: inv_def)
  ultimately have f: "fg_ok (at_point s) fs sh'" using fg_ok_frames assms(2,3) by blast
  then have "fg_ok (goto (at_point s) c) fs sh'" using assms(5) fg_ok_one [OF f] by (elim disjE exE [of "\<lambda>n. c = Exit n"]) simp_all
  moreover have "forked (goto (at_point s) c) \<subseteq> forked (at_point s)" using assms(5) by auto
  moreover have "\<Union> (reaped ` set fs) = \<Union> (reaped ` set (frames s))" "\<Union> (concerns ` set fs) = \<Union> (concerns ` set (frames s))"
    using assms(4) reaped_sigchld by metis+
  moreover have "length (filter of_sigchld fs) \<le> (if forking (goto (at_point s) c) then 0 else 1)"
    using assms(1,4,5) by (auto simp: inv_def split: if_splits)
  ultimately show ?thesis using assms(1,2) unfolding inv_def handle_def children_def being_reaped_def by auto
qed

text \<open>The part of the handler that changes the job list: the child is no foreground job any more.\<close>

lemma sigchld_finish_jobs:
  assumes ok: "jobs_ok (jobs sh)" and p: "0 < p" and h: "sigchld_finish p st sh = (c, sh')"
  shows "jobs_ok (jobs sh')" "fgi (jobs sh') \<subseteq> fgi (jobs sh)" "set (pids (jobs sh')) \<subseteq> set (pids (jobs sh))"
    "st \<noteq> Stopped \<Longrightarrow> p \<notin> set (pids (jobs sh'))" "c = Ret \<or> c = Crash" "chld_reaped sh' = chld_reaped sh"
    "i < length (jobs sh) \<Longrightarrow> pid (jobs sh ! i) = p \<Longrightarrow> c = Ret \<and> i \<notin> fgi (jobs sh')"
proof -
  have "jobs_ok (jobs sh') \<and> fgi (jobs sh') \<subseteq> fgi (jobs sh) \<and> set (pids (jobs sh')) \<subseteq> set (pids (jobs sh)) \<and>
    (st \<noteq> Stopped \<longrightarrow> p \<notin> set (pids (jobs sh'))) \<and> (c = Ret \<or> c = Crash) \<and> chld_reaped sh' = chld_reaped sh \<and>
    (i < length (jobs sh) \<and> pid (jobs sh ! i) = p \<longrightarrow> c = Ret \<and> i \<notin> fgi (jobs sh'))"
  proof (cases "st = Stopped")
    case True
    show ?thesis
    proof (cases "getjobpid (jobs sh) p")
      case None
      then have "\<not> (i < length (jobs sh) \<and> pid (jobs sh ! i) = p)"
        using first_job_pid [OF ok p] p by (auto simp: getjobpid_def)
      moreover have "c = Crash" "sh' = sh" using h True None by (simp_all add: sigchld_finish_def)
      ultimately show ?thesis using True ok by simp
    next
      case (Some k)
      then have k: "k < length (jobs sh)" "first_job (\<lambda>j. pid j = p) (jobs sh) = Some k"
        using p first_job_Some [of "\<lambda>j. pid j = p"] by (auto simp: getjobpid_def)
      have c: "c = Ret" "jobs sh' = jobs (set_state k ST sh)" "chld_reaped sh' = chld_reaped sh"
        using h True Some by (auto simp: sigchld_finish_def Let_def set_state_def)
      have "i < length (jobs sh) \<and> pid (jobs sh ! i) = p \<longrightarrow> i = k" using first_job_pid [OF ok p, of i] k(2) by auto
      then show ?thesis
        unfolding c(2) set_state_fgi [OF k(1)] using jobs_ok_set_state [OF ok k(1)] c(1,3) True by auto
    qed
  next
    case False
    define sh1 where "sh1 = (if st = Signaled
        then print (''Job ['' @ show_int (pid2jid (jobs sh) p) @ ''] ('' @ show_int p @
                    '') terminated by signal 2'' @ [NEWLINE]) sh
        else sh)"
    have j1: "jobs sh1 = jobs sh" "chld_reaped sh1 = chld_reaped sh" by (simp_all add: sh1_def)
    have c: "c = Ret" "sh' = snd (deletejob p sh1)"
      using h False by (simp_all add: sigchld_finish_def Let_def sh1_def)
    show ?thesis using deletejob_jobs [of sh1 p] ok p c j1 by auto
  qed
  then show "jobs_ok (jobs sh')" "fgi (jobs sh') \<subseteq> fgi (jobs sh)" "set (pids (jobs sh')) \<subseteq> set (pids (jobs sh))"
    "st \<noteq> Stopped \<Longrightarrow> p \<notin> set (pids (jobs sh'))" "c = Ret \<or> c = Crash" "chld_reaped sh' = chld_reaped sh"
    "i < length (jobs sh) \<Longrightarrow> pid (jobs sh ! i) = p \<Longrightarrow> c = Ret \<and> i \<notin> fgi (jobs sh')"
    by blast+
qed

lemma forward_kill_jobs:
  "jobs (snd (forward_kill g k p sh)) = jobs sh" "chld_reaped (snd (forward_kill g k p sh)) = chld_reaped sh"
  "fst (forward_kill g k p sh) = Ret \<or> fst (forward_kill g k p sh) = Exit 1"
  by (auto simp: forward_kill_def Let_def do_kill_def unix_error_def print_def split: prod.splits)

lemma inv_finish:
  assumes i: "inv s" and f: "frames s = Noted p st # fs" and h: "sigchld_finish p st (shell s) = (c, sh')"
  shows "inv (handle (c, sh') fs s)"
proof -
  have ok: "jobs_ok (jobs (shell s))" and p: "0 < p" and fg: "fg_ok (at_point s) (frames s) (shell s)"
    and sub: "set (pids (jobs (shell s))) \<subseteq> children s \<union> being_reaped s"
    and np: "\<not> forking (at_point s)" and one: "filter of_sigchld fs = []"
    using i f by (auto simp: inv_def split: if_splits)
  note j = sigchld_finish_jobs [OF ok p h]
  have sm: "fg_ok (at_point s) fs sh'"
  proof (rule fg_ok_smaller [OF fg j(2,3)])
    fix q assume w: "at_point s = Waiting q" "chld_reaped sh'"
    then have "chld_reaped (shell s)" using j(6) by simp
    then consider "fgi (jobs (shell s)) = {}" | st' where "0 < fgpid (jobs (shell s))" "Noted (fgpid (jobs (shell s))) st' \<in> set (frames s)"
      using fg w(1) by auto
    then show "fgi (jobs sh') = {}"
    proof cases
      case 1
      then show ?thesis using j(2) by simp
    next
      case 2
      have "Noted (fgpid (jobs (shell s))) st' \<notin> set fs" using one by (auto simp: filter_empty_conv)
      then have "fgpid (jobs (shell s)) = p" using 2(2) f by simp
      moreover obtain n where n: "fgi (jobs (shell s)) \<subseteq> {n}" using fg_ok_one [OF fg] by blast
      moreover have "fgi (jobs (shell s)) \<noteq> {}" using fgpid_fgi(1) 2(1) by fastforce
      ultimately have "n < length (jobs (shell s))" "pid (jobs (shell s) ! n) = p" using fgpid_fgi(2) by metis+
      then show ?thesis using j(2,7) n by blast
    qed
  qed
  have "fg_ok (goto (at_point s) c) fs sh'" using j(5) sm fg_ok_one [OF sm] by (elim disjE) simp_all
  moreover have "forked (goto (at_point s) c) = {}" using j(5) np by (cases "at_point s") auto
  moreover have "set (pids (jobs sh')) \<subseteq> children s \<union> \<Union> (reaped ` set fs)"
  proof -
    have "reaped (Noted p st) \<inter> set (pids (jobs sh')) = {}" using j(4) by auto
    then show ?thesis using sub j(3) unfolding being_reaped_def f by auto
  qed
  ultimately show ?thesis
    using i j(1) one f unfolding inv_def handle_def children_def being_reaped_def by auto
qed

lemma inv_main:
  assumes "inv s" and "jobs_ok (jobs sh')" and "set (pids (jobs sh')) \<subseteq> set (pids (jobs (shell s))) \<union> forked (at_point s)"
    and "fg_ok at (frames s) sh'" and "forked at = {}" and "frames s = []"
  shows "inv (s\<lparr>shell := sh', at_point := at\<rparr>)" "inv (s\<lparr>input := r, shell := sh', at_point := at\<rparr>)"
  using assms by (auto simp: inv_def children_def being_reaped_def)

lemma bgfg_stage_jobs:
  assumes ok: "jobs_ok (jobs sh)" and f: "fg_ok (Builtin fg i st) fs sh" and h: "bgfg_stage k fg i st sh = (c, sh')"
  shows "jobs_ok (jobs sh') \<and> set (pids (jobs sh')) = set (pids (jobs sh)) \<and> fg_ok (goto Prompt c) fs sh' \<and> forked (goto Prompt c) = {}"
proof (cases st)
  case Switch
  then show ?thesis using ok f h
    by (cases "state (jobs sh ! i)") (auto simp: unix_error_def print_def split: if_splits)
next
  case (Write old)
  have i: "i < length (jobs sh)" using ok f by (simp add: jobs_ok_def)
  have "c = Bgfg fg i (if old = ST then Resume else Report)" "sh' = set_state i (if fg then FG else BG) sh"
    using h Write by simp_all
  then show ?thesis using f Write jobs_ok_set_state [OF ok i] set_state_fgi [OF i] by auto
next
  case Resume
  have e: "\<exists>n. fgi (jobs sh) \<subseteq> {n}" using fg_ok_one [OF f] .
  have "jobs sh' = jobs sh \<and> (c = Exit 1 \<or> c = Bgfg fg i Report)"
    using h Resume by (auto simp: do_kill_def unix_error_def print_def Let_def split: if_splits)
  then show ?thesis using ok f Resume e by (elim conjE disjE) simp_all
next
  case Report
  have e: "\<exists>n. fgi (jobs sh) \<subseteq> {n}" using fg_ok_one [OF f] .
  have "jobs sh' = jobs sh \<and> (fg \<and> c = Waitfg (pid (jobs sh ! i)) \<or> \<not> fg \<and> c = Ret)"
    using h Report by (auto simp: Let_def split: if_splits)
  then show ?thesis using ok f Report e by (elim conjE disjE) simp_all
qed

lemma eval_parent_jobs:
  assumes ok: "jobs_ok (jobs sh)" and f: "fg_ok (Parent bg p l) fs sh" and h: "eval_parent bg p l sh = (c, sh')"
  shows "jobs_ok (jobs sh') \<and> set (pids (jobs sh')) \<subseteq> set (pids (jobs sh)) \<union> forked (Parent bg p l) \<and>
    fg_ok (goto Prompt c) fs sh' \<and> forked (goto Prompt c) = {}"
proof (cases "p < 0")
  case True
  then show ?thesis using ok f h by (auto simp: eval_parent_def unix_error_def)
next
  case False
  then have p: "0 < p" "p \<notin> set (pids (jobs sh))" "fgi (jobs sh) = {}" using f by simp_all
  note a = addjob_jobs [OF ok p]
  show ?thesis
  proof (cases bg)
    case True
    then have "c = Announce p l" "sh' = snd (addjob p BG l sh)" using h False by (simp_all add: eval_parent_def)
    then show ?thesis using a [of BG l] p(1) by auto
  next
    case fg: False
    then have "c = Waitfg p" "sh' = snd (addjob p FG l sh)" using h False by (simp_all add: eval_parent_def)
    then show ?thesis using a [of FG l] p(1) by auto
  qed
qed

lemma inv_fg_ok: "inv s \<Longrightarrow> fg_ok (at_point s) (frames s) (shell s)"
  by (simp add: inv_def)

lemma inv_step: "step k s s' \<Longrightarrow> inv s \<Longrightarrow> inv s'"
proof (induction rule: step.induct)
  case (eof s)
  then show ?case using inv_main [OF eof(4), of "shell s" "Dead 0"] by (simp add: inv_def)
next
  case (overflow s l r)
  then show ?case using inv_main [OF overflow(5), of "shell s" Crashed] by (simp add: inv_def)
next
  case (builtin s l r c sh')
  then have i: "jobs_ok (jobs (shell s))" "fgi (jobs (shell s)) = {}" by (simp_all add: inv_def)
  have b: "begun (shell s) c sh'" using eval_begin_begun(1) builtin(4) by blast
  then have "fg_ok (goto Prompt c) (frames s) sh' \<and> forked (goto Prompt c) = {}"
    using i by (auto simp: begun_def jobs_ok_def)
  moreover have "jobs sh' = jobs (shell s)" using b by (simp add: begun_def)
  ultimately have "inv (s\<lparr>input := r, shell := sh', at_point := goto Prompt c\<rparr>)"
    using inv_main(2) [OF builtin(5), of sh' "goto Prompt c"] i builtin(1) by simp
  then show ?case by (simp add: proceed_def)
next
  case (fork s l r bg sh' p)
  then have "sh' = shell s" using eval_begin_begun(2) by blast
  then show ?case using fork by (auto simp: inv_def children_def being_reaped_def)
next
  case (fork_fails s l r bg sh')
  then have "sh' = shell s" using eval_begin_begun(2) by blast
  moreover have "\<forall>j \<in> set (jobs (shell s)). 0 \<le> pid j" using fork_fails(5) by (auto simp: inv_def jobs_ok_def)
  then have "- 1 \<notin> set (pids (jobs (shell s)))" by (force simp: pids_def)
  ultimately show ?case using fork_fails by (auto simp: inv_def children_def being_reaped_def)
next
  case (parent s bg p l)
  obtain c sh' where h: "eval_parent bg p l (shell s) = (c, sh')" by (cases "eval_parent bg p l (shell s)")
  show ?case using eval_parent_jobs [OF _ _ h, of "frames s"] inv_main(1) [OF parent(3), of sh' "goto Prompt c"] parent
    unfolding h by (simp add: inv_def proceed_def)
next
  case (message s p l)
  then show ?case using inv_main(1) [OF message(3), of "announce p l (shell s)" Prompt] by (simp add: inv_def proceed_def)
next
  case (bgfg s fg i st)
  obtain c sh' where h: "bgfg_stage k fg i st (shell s) = (c, sh')" by (cases "bgfg_stage k fg i st (shell s)")
  show ?case using bgfg_stage_jobs [OF _ _ h, of "frames s"] inv_main(1) [OF bgfg(3), of sh' "goto Prompt c"] bgfg
    unfolding h by (simp add: inv_def proceed_def)
next
  case (enter s p)
  then show ?case using inv_main(1) [OF enter(3), of "waitfg_enter (shell s)" "Waiting p"]
    by (simp add: inv_def waitfg_enter_def)
next
  case (leave s p)
  then show ?case using inv_main(1) [OF leave(4), of "shell s" Prompt] by (auto simp: inv_def waitfg_done_def)
next
  case (deliver s)
  then have "filter of_sigchld (frames s) = []" "\<not> forking (at_point s)"
    by (auto simp: chld_unblocked_def filter_empty_conv list_ex_iff)
  moreover have "fg_ok (at_point s) (Entered # frames s) (shell s)"
    by (rule fg_ok_frames [OF inv_fg_ok [OF deliver(3)]]) auto
  ultimately show ?case using deliver(3) by (auto simp: inv_def children_def being_reaped_def)
next
  case (reap s fs p st)
  obtain as bs where rs: "ready s = as @ (p, st) # bs" "(p, st) \<notin> set as" using reap(3) by (metis split_list_first)
  then have rm: "remove1 (p, st) (ready s) = as @ bs" by (simp add: remove1_append)
  have "fg_ok (at_point s) (Reaped p st # fs) (shell s)"
    by (rule fg_ok_frames [OF inv_fg_ok [OF reap(4)]]) (auto simp: reap(2))
  moreover have "\<not> forking (at_point s)" using reap(2,4) by (auto simp: inv_def split: if_splits)
  then have "forked (at_point s) = {}" by (cases "at_point s") auto
  ultimately show ?case using reap(2,4) rs rm by (auto simp: inv_def taken_def children_def being_reaped_def split: if_splits)
next
  case (reap_none s fs)
  obtain c sh' where h: "sigchld_idle (if live s = [] then WaitError else NoChild) (shell s) = (c, sh')"
    by (cases "sigchld_idle (if live s = [] then WaitError else NoChild) (shell s)")
  then have c: "jobs sh' = jobs (shell s)" "chld_reaped sh' = chld_reaped (shell s)" "c = Ret \<or> (\<exists>n. c = Exit n)"
    by (auto simp: sigchld_idle_def unix_error_def split: if_splits)
  have "inv (handle (c, sh') (frames s) s)" by (rule inv_frames [OF reap_none(4) c(1,2) refl c(3)])
  then show ?case unfolding h using reap_none(2) c
    by (auto simp: inv_def handle_def children_def being_reaped_def intro: fg_ok_frames split: if_splits)
next
  case (note_flag s p st fs)
  have "fg_ok (at_point s) (Noted p st # fs) (sigchld_note p (shell s))"
  proof (cases "at_point s")
    case (Waiting q)
    have "0 < p" using note_flag(2,3) by (auto simp: inv_def)
    moreover have "fg_ok (Waiting q) (frames s) (shell s)" using note_flag(3) Waiting by (simp add: inv_def)
    ultimately show ?thesis using note_flag(2) Waiting by auto
  qed (use note_flag in \<open>auto simp: inv_def\<close>)
  then show ?case using note_flag(2,3) by (auto simp: inv_def children_def being_reaped_def split: if_splits)
next
  case (finish s p st fs)
  obtain c sh' where h: "sigchld_finish p st (shell s) = (c, sh')" by (cases "sigchld_finish p st (shell s)")
  show ?case unfolding h by (rule inv_finish [OF finish(3,2) h])
next
  case (forward sig s p)
  have "inv (handle (Ret, shell s) (Forwards sig p # frames s) s)" by (rule inv_frames [OF forward(4)]) simp_all
  then show ?case using forward(4) by (simp add: handle_def)
next
  case (sends s sig p fs)
  obtain c sh' where h: "forward_kill sig k p (shell s) = (c, sh')" by (cases "forward_kill sig k p (shell s)")
  have j: "jobs sh' = jobs (shell s)" "chld_reaped sh' = chld_reaped (shell s)" "c = Ret \<or> c = Exit 1"
    using forward_kill_jobs [of sig k p "shell s"] unfolding h by simp_all
  show ?case unfolding h by (rule inv_frames [OF sends(3) j(1,2)]) (use sends(2) j(3) in auto)
next
  case (quit s)
  then show ?case by (auto simp: sigquit_handler_def intro!: inv_frames)
next
  case (child p s st)
  then show ?case by (auto simp: inv_def children_def being_reaped_def)
next
  case (child_again p s st)
  obtain as bs where rs: "ready s = as @ (p, Stopped) # bs" "(p, Stopped) \<notin> set as"
    using child_again(1) by (metis split_list_first)
  then have "remove1 (p, Stopped) (ready s) = as @ bs" by (simp add: remove1_append)
  then show ?case using child_again(3) rs by (auto simp: inv_def children_def being_reaped_def)
next
  case (continued p s)
  then show ?case by (auto simp: inv_def children_def being_reaped_def)
qed

end
