(* ===== verification/TshParse.thy ===== *)
theory TshParse
  imports Tsh
begin

text \<open>
  \<open>parseline\<close> of \<open>lab9/tsh.c\<close> read backwards: how a command line is typed, with spaces between the
  arguments and quotes around some, and that \<open>parseline\<close> returns the arguments.
\<close>

section \<open>Command lines\<close>

text \<open>
  An argument as it is typed: whether it is quoted, its characters, and how many spaces follow
  besides the first.
\<close>

type_synonym typed = "bool \<times> string \<times> nat"

definition arg_of :: "typed \<Rightarrow> string" where
  "arg_of = (\<lambda>(q, a, n). a)"

definition typed_ok :: "typed \<Rightarrow> bool" where
  "typed_ok = (\<lambda>(q, a, n). if q then QUOTE \<notin> set a else a \<noteq> [] \<and> CHR '' '' \<notin> set a \<and> hd a \<noteq> QUOTE)"

definition arg_text :: "typed \<Rightarrow> string" where
  "arg_text = (\<lambda>(q, a, n). (if q then QUOTE # a @ [QUOTE] else a) @ replicate (Suc n) CHR '' '')"

definition command_text :: "nat \<Rightarrow> typed list \<Rightarrow> string" where
  "command_text m args = replicate m CHR '' '' @ concat (map arg_text args)"

lemma skip_spaces_replicate [simp]: "skip_spaces (replicate n CHR '' '' @ s) = skip_spaces s"
  by (induction n) (auto simp: skip_spaces_def)

lemma skip_spaces_Cons [simp]: "skip_spaces (CHR '' '' # s) = skip_spaces s"
  by (simp add: skip_spaces_def)

lemma skip_spaces_args: "list_all typed_ok args \<Longrightarrow>
    skip_spaces (concat (map arg_text args)) = concat (map arg_text args)"
proof (cases args)
  case (Cons x xs)
  obtain q a n where x: "x = (q, a, n)" by (cases x)
  assume "list_all typed_ok args"
  then show ?thesis using Cons x
    by (cases a) (auto simp: skip_spaces_def arg_text_def typed_ok_def QUOTE_def)
qed (simp add: skip_spaces_def)

lemma next_delim_arg:
  assumes "typed_ok (q, a, n)"
  shows "next_delim (arg_text (q, a, n) @ s) =
    (if q then (a @ QUOTE # replicate (Suc n) CHR '' '' @ s, Some (QUOTE # replicate (Suc n) CHR '' '' @ s))
     else (a @ replicate (Suc n) CHR '' '' @ s, Some (replicate (Suc n) CHR '' '' @ s)))"
proof (cases q)
  case True
  then have "strchr (a @ QUOTE # replicate (Suc n) CHR '' '' @ s) QUOTE = Some (QUOTE # replicate (Suc n) CHR '' '' @ s)"
    using assms by (intro strchr_past) (simp add: typed_ok_def)
  then show ?thesis using True by (simp add: next_delim_def arg_text_def)
next
  case False
  then obtain c cs where a: "a = c # cs" "c \<noteq> QUOTE" using assms by (cases a) (auto simp: typed_ok_def)
  have "strchr (a @ CHR '' '' # replicate n CHR '' '' @ s) CHR '' '' = Some (CHR '' '' # replicate n CHR '' '' @ s)"
    using assms False by (intro strchr_past) (simp add: typed_ok_def)
  then show ?thesis using False a by (simp add: next_delim_def arg_text_def)
qed

lemma parse_args_text:
  "list_all typed_ok args \<Longrightarrow> parse_args (concat (map arg_text args)) = map arg_of args"
proof (induction args)
  case Nil
  show ?case by (subst parse_args.simps) (simp add: next_delim_def)
next
  case (Cons x args)
  obtain q a n where x: "x = (q, a, n)" by (cases x)
  let ?r = "concat (map arg_text args)"
  have ok: "typed_ok (q, a, n)" "list_all typed_ok args" using Cons.prems x by auto
  have "parse_args (arg_text (q, a, n) @ ?r) = a # parse_args ?r"
    using next_delim_arg [OF ok(1), of ?r] skip_spaces_args [OF ok(2)]
    by (subst parse_args.simps) (cases q; simp)
  then show ?case using Cons.IH ok(2) x by (simp add: arg_of_def)
qed

lemma command_text_end: "args \<noteq> [] \<or> m \<noteq> 0 \<Longrightarrow> butlast (command_text m args) @ '' '' = command_text m args"
proof -
  assume "args \<noteq> [] \<or> m \<noteq> 0"
  moreover have "last (arg_text x) = CHR '' ''" "arg_text x \<noteq> []" for x
    by (cases x; simp add: arg_text_def last_replicate del: replicate_Suc; simp)+
  ultimately have "command_text m args \<noteq> [] \<and> last (command_text m args) = CHR '' ''"
    by (cases args rule: rev_cases) (auto simp: command_text_def last_append)
  then show ?thesis by (metis append_butlast_last_id)
qed

text \<open>C24. \<open>parseline\<close> splits a command line into the arguments it was typed from, whatever the number of
  spaces between them, and quoted arguments without their quotes; a last argument that starts with
  \<open>&\<close> makes a background job and is dropped; an empty line is a background job without arguments.
  With \<open>MAXARGS\<close> arguments or more it writes beyond the array \<open>argv\<close>, and with a line of \<open>MAXLINE\<close> characters or
  more, its end included, beyond its copy of the line.\<close>

theorem parseline_text:
  assumes "list_all typed_ok args"
  shows "parseline (butlast (command_text m args) @ [NEWLINE]) =
    (if MAXARGS \<le> length args \<or> MAXLINE \<le> Suc (length (butlast (command_text m args))) then None
     else if args = [] then Some (True, [])
     else if take 1 (arg_of (last args)) = ''&'' then Some (True, map arg_of (butlast args))
     else Some (False, map arg_of args))"
proof -
  have "parse_args (skip_spaces (butlast (command_text m args) @ '' '')) = map arg_of args"
  proof (cases "args = [] \<and> m = 0")
    case True
    then show ?thesis using parse_args_text [of "[]"] by (simp add: command_text_def skip_spaces_def)
  next
    case False
    then show ?thesis
      using parse_args_text [OF assms] skip_spaces_args [OF assms] command_text_end [of args m]
      by (simp add: command_text_def)
  qed
  moreover have "take 1 s = ''&'' \<longleftrightarrow> s \<noteq> [] \<and> hd s = CHR ''&''" for s :: string by (cases s) auto
  ultimately show ?thesis by (auto simp: parseline_def Let_def last_map map_butlast)
qed

lemma parseline_text_witness:
  "parseline (butlast (command_text 2 [(False, ''./a'', 1), (True, ''x y'', 0), (False, ''&'', 0)]) @ [NEWLINE]) =
     Some (True, [''./a'', ''x y''])"
  using parseline_text [of "[(False, ''./a'', 1), (True, ''x y'', 0), (False, ''&'', 0)]" 2]
  by (simp add: typed_ok_def arg_of_def MAXARGS_def MAXLINE_def QUOTE_def command_text_def arg_text_def)

end
