(* ===== verification/TshTheorems.thy ===== *)
theory TshTheorems
  imports TshInv TshParse
begin

text \<open>
  Theorems about the shell of \<open>lab9/tsh.c\<close> among its children: the step relation as a function of
  events, which runs; what holds of the job list in every reachable state; that a foreground job that
  ends brings the prompt back, two ways in which the shell waits for ever, and one in which a signal ends it.
\<close>

section \<open>Reachable states\<close>

lemma inv_steps: "steps k s s' \<Longrightarrow> inv s \<Longrightarrow> inv s'"
  by (induction rule: rtranclp_induct) (blast intro: inv_step)+

lemma reachable_inv: "steps k (start v inp) s \<Longrightarrow> inv s"
  using inv_steps inv_start by blast

inductive_cases stepE: "step k s s'"

section \<open>Waiting for ever\<close>

text \<open>
  In \<open>waitfg\<close> with the flag clear, no signal pending, no child left that could raise one, and no handler but those
  that forward a signal.
\<close>

definition stuck :: "int \<Rightarrow> sys \<Rightarrow> bool" where
  "stuck p s \<longleftrightarrow> at_point s \<in> {Waiting p, Dead 1} \<and> \<not> chld_reaped (shell s) \<and> \<not> pending s \<and> live s = [] \<and>
     Stopped \<notin> snd ` set (ready s) \<and> \<not> list_ex of_sigchld (frames s)"

lemma stuck_handle:
  "stuck p s \<Longrightarrow> chld_reaped (snd r) = chld_reaped (shell s) \<Longrightarrow> fst r \<in> {Ret, Exit 1} \<Longrightarrow>
     \<not> list_ex of_sigchld fs \<Longrightarrow> stuck p (handle r fs s)"
  by (cases "at_point s") (auto simp: stuck_def handle_def)

lemma stuck_step: "step k s s' \<Longrightarrow> stuck p s \<Longrightarrow> stuck p s'"
proof (induction rule: step.induct)
  case (sends s sig q fs)
  then show ?case using forward_kill_jobs [of sig k q "shell s"] by (intro stuck_handle) (auto simp: stuck_def)
next
  case (quit s)
  then show ?case by (intro stuck_handle) (simp_all add: sigquit_handler_def stuck_def)
next
  case (child_again q s st)
  then show ?case by (force simp: stuck_def)
qed (auto simp: stuck_def waitfg_done_def)

lemma stuck_steps: "steps k s s' \<Longrightarrow> stuck p s \<Longrightarrow> stuck p s'"
  by (induction rule: rtranclp_induct) (blast intro: stuck_step)+

section \<open>Runs\<close>

text \<open>
  The steps as a function of what happens.  \<open>Command q\<close> reads and evaluates a line, the child being
  \<open>q\<close> if it forks; \<open>Continue\<close> goes on with the main program; \<open>Deliver\<close> enters the handler of \<open>SIGCHLD\<close>; \<open>Wait r\<close>
  calls \<open>waitpid\<close> in it, and \<open>Handle\<close> goes on with the handler on top.
\<close>

datatype event = Command "int option" | Continue | Deliver | Wait "(int \<times> status) option" | Handle
  | Forward signal | Quit | ChildStatus int status | ChildAgain int status | ChildContinues int

definition command :: "int option \<Rightarrow> sys \<Rightarrow> sys option" where
  "command q s =
     (case read_command (input s) of
        None \<Rightarrow> Some (s\<lparr>at_point := Dead 0\<rparr>)
      | Some (l, r) \<Rightarrow>
          (case eval_begin l (shell s) of
             None \<Rightarrow> Some (s\<lparr>at_point := Crashed\<rparr>)
           | Some (Done c, sh) \<Rightarrow> Some (proceed (c, sh) (s\<lparr>input := r\<rparr>))
           | Some (Forks bg, sh) \<Rightarrow>
               (case q of
                  None \<Rightarrow> Some (s\<lparr>shell := sh, at_point := Parent bg (- 1) l, input := r\<rparr>)
                | Some p \<Rightarrow>
                    if 0 < p \<and> p \<notin> set (live s) \<and> p \<notin> fst ` set (ready s)
                    then Some (s\<lparr>shell := sh, at_point := Parent bg p l, input := r, live := p # live s\<rparr>)
                    else None)))"

definition go_on :: "(int \<Rightarrow> signal \<Rightarrow> bool) \<Rightarrow> sys \<Rightarrow> sys option" where
  "go_on k s =
     (case at_point s of
        Parent bg p l \<Rightarrow> Some (proceed (eval_parent bg p l (shell s)) s)
      | Announcing p l \<Rightarrow> Some (proceed (Ret, announce p l (shell s)) s)
      | Builtin fg i st \<Rightarrow> Some (proceed (bgfg_stage k fg i st (shell s)) s)
      | BeforeWait p \<Rightarrow> Some (s\<lparr>shell := waitfg_enter (shell s), at_point := Waiting p\<rparr>)
      | Waiting p \<Rightarrow> if waitfg_done (shell s) then Some (s\<lparr>at_point := Prompt\<rparr>) else None
      | _ \<Rightarrow> None)"

definition on_top :: "(int \<Rightarrow> signal \<Rightarrow> bool) \<Rightarrow> sys \<Rightarrow> sys option" where
  "on_top k s =
     (case frames s of
        Reaped p st # fs \<Rightarrow> Some (s\<lparr>shell := sigchld_note p (shell s), frames := Noted p st # fs\<rparr>)
      | Noted p st # fs \<Rightarrow> Some (handle (sigchld_finish p st (shell s)) fs s)
      | Forwards sig p # fs \<Rightarrow> Some (handle (forward_kill sig k p (shell s)) fs s)
      | _ \<Rightarrow> None)"

definition wait_in :: "(int \<times> status) option \<Rightarrow> sys \<Rightarrow> sys option" where
  "wait_in r s =
     (case frames s of
        Entered # fs \<Rightarrow>
          (case r of
             None \<Rightarrow> if ready s = []
                     then Some (handle (sigchld_idle (if live s = [] then WaitError else NoChild) (shell s)) fs s) else None
           | Some (p, st) \<Rightarrow> if (p, st) \<in> set (ready s) then Some (taken p st (s\<lparr>frames := Reaped p st # fs\<rparr>)) else None)
      | _ \<Rightarrow> None)"

fun do_event :: "(int \<Rightarrow> signal \<Rightarrow> bool) \<Rightarrow> event \<Rightarrow> sys \<Rightarrow> sys option" where
  "do_event k (Command q) s = (if frames s = [] \<and> at_point s = Prompt then command q s else None)"
| "do_event k Continue s = (if frames s = [] then go_on k s else None)"
| "do_event k Deliver s =
     (if chld_unblocked s \<and> pending s then Some (s\<lparr>pending := False, frames := Entered # frames s\<rparr>) else None)"
| "do_event k (Wait r) s = (if alive (at_point s) then wait_in r s else None)"
| "do_event k Handle s = (if alive (at_point s) then on_top k s else None)"
| "do_event k (Forward sig) s =
     (let p = fgpid (jobs (shell s))
      in if unblocked sig s \<and> sig \<in> {SIGINT, SIGTSTP}
         then Some (if p \<noteq> 0 then s\<lparr>frames := Forwards sig p # frames s\<rparr> else s) else None)"
| "do_event k Quit s = (if alive (at_point s) then Some (handle (sigquit_handler (shell s)) (frames s) s) else None)"
| "do_event k (ChildStatus p st) s =
     (if p \<in> set (live s)
      then Some (s\<lparr>live := remove1 p (live s), ready := ready s @ [(p, st)], pending := True\<rparr>)
      else None)"
| "do_event k (ChildAgain p st) s =
     (if (p, Stopped) \<in> set (ready s) \<and> st \<noteq> Stopped
      then Some (s\<lparr>ready := remove1 (p, Stopped) (ready s) @ [(p, st)], pending := True\<rparr>)
      else None)"
| "do_event k (ChildContinues p) s = (if p \<in> set (live s) then Some (s\<lparr>pending := True\<rparr>) else None)"

fun run :: "(int \<Rightarrow> signal \<Rightarrow> bool) \<Rightarrow> event list \<Rightarrow> sys \<Rightarrow> sys option" where
  "run k [] s = Some s"
| "run k (e # es) s = (case do_event k e s of Some s' \<Rightarrow> run k es s' | None \<Rightarrow> None)"

lemma command_step: "frames s = [] \<Longrightarrow> at_point s = Prompt \<Longrightarrow> command q s = Some s' \<Longrightarrow> step k s s'"
  by (auto simp: command_def split: option.splits prod.splits evaluated.splits if_splits intro: step.intros)

lemma go_on_step: "frames s = [] \<Longrightarrow> go_on k s = Some s' \<Longrightarrow> step k s s'"
  by (auto simp: go_on_def split: point.splits if_splits intro: step.intros)

lemma wait_step: "alive (at_point s) \<Longrightarrow> wait_in r s = Some s' \<Longrightarrow> step k s s'"
  by (auto simp: wait_in_def split: list.splits frame.splits option.splits if_splits intro: step.reap step.reap_none)
    (metis step.reap_none)+

lemma on_top_step: "alive (at_point s) \<Longrightarrow> on_top k s = Some s' \<Longrightarrow> step k s s'"
  by (auto simp: on_top_def split: list.splits frame.splits intro: step.intros)

lemma event_step: "do_event k e s = Some s' \<Longrightarrow> step k s s'"
proof (induction k e s rule: do_event.induct)
  case (1 k q s)
  then show ?case using command_step by (simp split: if_splits)
next
  case (2 k s)
  then show ?case using go_on_step by (simp split: if_splits)
next
  case (4 k r s)
  then show ?case using wait_step by (simp split: if_splits)
next
  case (5 k s)
  then show ?case using on_top_step by (simp split: if_splits)
next
  case (6 k sig s)
  then have "unblocked sig s" "sig \<in> {SIGINT, SIGTSTP}"
    "s' = (if fgpid (jobs (shell s)) \<noteq> 0 then s\<lparr>frames := Forwards sig (fgpid (jobs (shell s))) # frames s\<rparr> else s)"
    by (simp_all add: Let_def split: if_split_asm)
  then show ?case using step.forward [OF _ _ refl] by blast
qed (auto split: if_splits intro: step.intros)

lemma step_event: "step k s s' \<Longrightarrow> \<exists>e. do_event k e s = Some s'"
proof (induction rule: step.induct)
  case (eof s)
  then show ?case by (intro exI [of _ "Command None"]) (simp add: command_def)
next
  case (overflow s l r)
  then show ?case by (intro exI [of _ "Command None"]) (simp add: command_def)
next
  case (builtin s l r c sh')
  then show ?case by (intro exI [of _ "Command None"]) (simp add: command_def)
next
  case (fork s l r bg sh' p)
  then show ?case by (intro exI [of _ "Command (Some p)"]) (simp add: command_def)
next
  case (fork_fails s l r bg sh')
  then show ?case by (intro exI [of _ "Command None"]) (simp add: command_def)
next
  case (reap s fs p st)
  then show ?case by (intro exI [of _ "Wait (Some (p, st))"]) (simp add: wait_in_def)
next
  case (reap_none s fs)
  then show ?case by (intro exI [of _ "Wait None"]) (simp add: wait_in_def)
next
  case (deliver s)
  then show ?case by (intro exI [of _ Deliver]) simp
next
  case (forward sig s p)
  then show ?case by (intro exI [of _ "Forward sig"]) (simp add: Let_def)
next
  case (quit s)
  then show ?case by (intro exI [of _ Quit]) simp
next
  case (child p s st)
  then show ?case by (intro exI [of _ "ChildStatus p st"]) simp
next
  case (child_again p s st)
  then show ?case by (intro exI [of _ "ChildAgain p st"]) simp
next
  case (continued p s)
  then show ?case by (intro exI [of _ "ChildContinues p"]) simp
qed (intro exI [of _ Continue] exI [of _ Handle], simp add: go_on_def on_top_def)+

text \<open>The function makes the steps of the relation and no others.\<close>

lemma step_iff_event: "step k s s' \<longleftrightarrow> (\<exists>e. do_event k e s = Some s')"
  using event_step step_event by blast

lemma run_steps: "run k es s = Some s' \<Longrightarrow> steps k s s'"
proof (induction es arbitrary: s)
  case (Cons e es)
  then obtain t where "do_event k e s = Some t" "steps k t s'" by (auto split: option.splits)
  then show ?case using event_step by (meson converse_rtranclp_into_rtranclp)
qed simp

definition line_a :: string where "line_a = ''./a'' @ [NEWLINE]"
definition line_b :: string where "line_b = ''./b &'' @ [NEWLINE]"

text \<open>The handler of \<open>SIGCHLD\<close> for one child.\<close>

definition handled :: "int \<Rightarrow> status \<Rightarrow> event list" where
  "handled p st = [Deliver, Wait (Some (p, st)), Handle, Handle]"

text \<open>
  The child ends before its parent runs: \<open>SIGCHLD\<close> is handled when \<open>eval\<close> unblocks it, and \<open>waitfg\<close> then
  clears the flag.
\<close>

definition lost_run :: "sys option" where
  "lost_run = run (\<lambda>_ _. True) ([Command (Some 5), ChildStatus 5 Exited, Continue] @ handled 5 Exited @ [Continue])
     (start False line_a)"

lemma lost: "map_option (\<lambda>s. stuck 5 s \<and> at_point s = Waiting 5 \<and> pids (jobs (shell s)) = []) lost_run = Some True"
  by code_simp

text \<open>A background and a foreground job end before the handler runs.\<close>

definition zombie_run :: "sys option" where
  "zombie_run = run (\<lambda>_ _. True)
     ([Command (Some 4), Continue, Continue, Command (Some 5), Continue, Continue,
       ChildStatus 4 Exited, ChildStatus 5 Exited] @ handled 4 Exited)
     (start False (line_b @ line_a))"

lemma zombie: "map_option (\<lambda>s. stuck 5 s \<and> at_point s = Waiting 5 \<and> ready s = [(5, Exited)]) zombie_run = Some True"
  by code_simp

section \<open>The job list of a reachable state\<close>

text \<open>C4. In every state the shell can reach at most one job is in the foreground, and there is none when
  the shell reads a command.\<close>

theorem one_foreground_job:
  assumes "steps k (start v inp) s"
  shows "length (fg_jobs (jobs (shell s))) \<le> 1 \<and> (at_point s = Prompt \<longrightarrow> fg_jobs (jobs (shell s)) = [])"
proof
  have f: "fg_ok (at_point s) (frames s) (shell s)" using reachable_inv [OF assms] by (rule inv_fg_ok)
  show "length (fg_jobs (jobs (shell s))) \<le> 1" using fg_ok_one [OF f] length_fg_jobs by blast
  show "at_point s = Prompt \<longrightarrow> fg_jobs (jobs (shell s)) = []" using f fgi_empty by auto
qed

text \<open>A job in the foreground, waited for while a second one runs in the background.\<close>

definition waiting_run :: "sys option" where
  "waiting_run = run (\<lambda>_ _. True) [Command (Some 4), Continue, Continue, Command (Some 5), Continue, Continue]
     (start False (line_b @ line_a))"

definition waiting :: sys where
  "waiting = the waiting_run"

lemma waiting_reachable: "steps (\<lambda>_ _. True) (start False (line_b @ line_a)) waiting"
proof (rule run_steps)
  have "waiting_run \<noteq> None" by code_simp
  then have "waiting_run = Some waiting" by (simp add: waiting_def)
  then show "run (\<lambda>_ _. True) [Command (Some 4), Continue, Continue, Command (Some 5), Continue, Continue]
     (start False (line_b @ line_a)) = Some waiting" by (simp only: waiting_run_def)
qed

lemma waiting_state: "map pid (fg_jobs (jobs (shell waiting))) = [5]" "set (live waiting) = {4, 5}"
  "pids (jobs (shell waiting)) = [4, 5]" "at_point waiting = Waiting 5"
  by code_simp+

lemma one_foreground_job_witness:
  "length (fg_jobs (jobs (shell waiting))) = 1 \<and> length (fg_jobs (jobs (shell waiting))) \<le> 1"
  using one_foreground_job [OF waiting_reachable] waiting_state(1)
  by (auto simp: map_eq_Cons_conv)

text \<open>
  C10. In every state the shell can reach the job list has its 16 entries, no pid occurs twice, and every job is a
  child that has not been reaped; only while the handler of \<open>SIGCHLD\<close> runs can it also be the one child whose status
  the handler has just taken.
\<close>

theorem jobs_are_children:
  assumes "steps k (start v inp) s"
  shows "length (jobs (shell s)) = MAXJOBS \<and> distinct (pids (jobs (shell s))) \<and>
    set (pids (jobs (shell s))) \<subseteq> {p. 0 < p} \<inter> (children s \<union> being_reaped s) \<and>
    (\<exists>p. being_reaped s \<subseteq> {p}) \<and> (list_ex of_sigchld (frames s) \<or> being_reaped s = {})"
proof -
  have i: "inv s" by (rule reachable_inv [OF assms])
  have "set (pids (jobs (shell s))) \<subseteq> {p. 0 < p}"
  proof
    fix p assume "p \<in> set (pids (jobs (shell s)))"
    then obtain j where "j \<in> set (jobs (shell s))" "pid j = p" "pid j \<noteq> 0" by (auto simp: pids_def used_def)
    then show "p \<in> {p. 0 < p}" using i by (force simp: inv_def jobs_ok_def)
  qed
  moreover have b: "being_reaped s = \<Union> (reaped ` set (filter of_sigchld (frames s)))"
    unfolding being_reaped_def by (rule reaped_sigchld(1))
  have "\<exists>p. \<Union> (reaped ` set fs) \<subseteq> {p}" if "length fs \<le> 1" for fs
  proof (cases fs)
    case (Cons f gs)
    then show ?thesis using that by (cases f) auto
  qed simp
  moreover have "length (filter of_sigchld (frames s)) \<le> 1" using i by (auto simp: inv_def split: if_splits)
  ultimately have "\<exists>p. being_reaped s \<subseteq> {p}" unfolding b by blast
  moreover have "list_ex of_sigchld (frames s) \<or> filter of_sigchld (frames s) = []"
    by (auto simp: list_ex_iff filter_empty_conv)
  then have "list_ex of_sigchld (frames s) \<or> being_reaped s = {}" unfolding b by (elim disjE) simp_all
  ultimately show ?thesis using i \<open>set (pids (jobs (shell s))) \<subseteq> {p. 0 < p}\<close> by (simp add: inv_def jobs_ok_def)
qed

lemma jobs_are_children_witness: "distinct (pids (jobs (shell waiting))) \<and> pids (jobs (shell waiting)) = [4, 5]"
  using jobs_are_children [OF waiting_reachable] waiting_state(3) by simp

text \<open>
  In that while \<open>SIGINT\<close> finds a foreground job that is gone: \<open>kill\<close> fails, and the shell ends.
\<close>

lemma interrupt_while_reaping:
  "map_option (\<lambda>s. at_point s = Dead 1 \<and> kills (shell s) = [(-5, SIGINT)] \<and> live s = [] \<and> ready s = []) (run (\<lambda>_ _. False)
     [Command (Some 5), Continue, Continue, ChildStatus 5 Exited, Deliver, Wait (Some (5, Exited)), Forward SIGINT, Handle]
     (start False line_a)) = Some True"
  by code_simp

text \<open>
  Between the search of \<open>fg\<close> for its job and the change of its state the job can end: \<open>fg\<close> then finds an entry that
  was cleared, and the shell ends.
\<close>

lemma fg_of_ended_job:
  "map_option (\<lambda>s. at_point s = Dead 1) (run (\<lambda>_ _. True)
     ([Command (Some 4), Continue, Continue, Command None, ChildStatus 4 Exited] @ handled 4 Exited @ [Continue])
     (start False (line_b @ ''fg 4'' @ [NEWLINE]))) = Some True"
  by code_simp

text \<open>
  When the job ends one stage later, \<open>fg\<close> writes its state into the cleared entry and waits for the pid 0 for ever.
\<close>

lemma fg_of_ended_job_hangs:
  "map_option (\<lambda>s. at_point s = Waiting 0 \<and> stuck 0 s) (run (\<lambda>_ _. True)
     ([Command (Some 4), Continue, Continue, Command None, Continue, ChildStatus 4 Exited] @ handled 4 Exited @
      [Continue, Continue, Continue]) (start False (line_b @ ''fg 4'' @ [NEWLINE]))) = Some True"
  by code_simp

section \<open>The end of a foreground job\<close>

text \<open>
  The steps that the shell makes by itself, with no signal from the terminal and no news from a child; and what comes
  about in every run of a relation.
\<close>

fun own :: "event \<Rightarrow> bool" where
  "own (Command q) = True"
| "own Continue = True"
| "own Deliver = True"
| "own (Wait r) = True"
| "own Handle = True"
| "own _ = False"

definition own_step :: "(int \<Rightarrow> signal \<Rightarrow> bool) \<Rightarrow> sys \<Rightarrow> sys \<Rightarrow> bool" where
  "own_step k s s' \<longleftrightarrow> (\<exists>e. own e \<and> do_event k e s = Some s')"

inductive inevitably :: "('a \<Rightarrow> 'a \<Rightarrow> bool) \<Rightarrow> ('a \<Rightarrow> bool) \<Rightarrow> 'a \<Rightarrow> bool" for R P where
  now: "P s \<Longrightarrow> inevitably R P s"
| later: "R s t \<Longrightarrow> (\<And>s'. R s s' \<Longrightarrow> inevitably R P s') \<Longrightarrow> inevitably R P s"

lemma own_step_iff:
  "own_step k s s' \<longleftrightarrow> (\<exists>q. do_event k (Command q) s = Some s') \<or> do_event k Continue s = Some s' \<or>
     do_event k Deliver s = Some s' \<or> (\<exists>r. do_event k (Wait r) s = Some s') \<or> do_event k Handle s = Some s'"
  unfolding own_step_def by (metis own.simps(1-5) own.elims(2))

lemma inevitably_unique: "(\<And>s'. R s s' \<longleftrightarrow> s' = t) \<Longrightarrow> inevitably R P t \<Longrightarrow> inevitably R P s"
  by (rule inevitably.later [of R s t]) auto

text \<open>The handler of \<open>SIGCHLD\<close> and the end of \<open>waitfg\<close>, step by step.\<close>

lemma own_enter:
  "at_point s = Waiting p \<Longrightarrow> frames s = [] \<Longrightarrow> pending s \<Longrightarrow> \<not> waitfg_done (shell s) \<Longrightarrow>
     own_step k s s' \<longleftrightarrow> s' = s\<lparr>pending := False, frames := [Entered]\<rparr>"
  by (auto simp: own_step_iff go_on_def wait_in_def on_top_def chld_unblocked_def)

lemma own_wait:
  "at_point s = Waiting p \<Longrightarrow> frames s = [Entered] \<Longrightarrow> ready s = [(q, st)] \<Longrightarrow>
     own_step k s s' \<longleftrightarrow> s' = taken q st (s\<lparr>frames := [Reaped q st]\<rparr>)"
  by (auto simp: own_step_iff wait_in_def on_top_def chld_unblocked_def split: option.splits if_splits
      intro!: exI [of _ "Some (q, st)"])

lemma own_note:
  "at_point s = Waiting p \<Longrightarrow> frames s = [Reaped q st] \<Longrightarrow>
     own_step k s s' \<longleftrightarrow> s' = s\<lparr>shell := sigchld_note q (shell s), frames := [Noted q st]\<rparr>"
  by (auto simp: own_step_iff wait_in_def on_top_def chld_unblocked_def)

lemma own_finish:
  "at_point s = Waiting p \<Longrightarrow> frames s = [Noted q st] \<Longrightarrow>
     own_step k s s' \<longleftrightarrow> s' = handle (sigchld_finish q st (shell s)) [] s"
  by (auto simp: own_step_iff wait_in_def on_top_def chld_unblocked_def)

lemma own_leave:
  "at_point s = Waiting p \<Longrightarrow> frames s = [] \<Longrightarrow> \<not> pending s \<Longrightarrow> waitfg_done (shell s) \<Longrightarrow>
     own_step k s s' \<longleftrightarrow> s' = s\<lparr>at_point := Prompt\<rparr>"
  by (auto simp: own_step_iff go_on_def wait_in_def on_top_def chld_unblocked_def)

text \<open>
  C18. When \<open>waitfg\<close> waits for a foreground job that has ended or stopped, that is the only child with news and
  \<open>SIGCHLD\<close> is pending, the shell, left alone, comes back to its prompt in every way it can go on, without a foreground
  job: an ended job has left the job list, a stopped one is a child that can be continued.  (With news of a second
  child it can wait for ever: \<open>waitfg_hangs\<close>.)
\<close>

theorem foreground_job_ends:
  assumes "steps k (start v inp) s" and "at_point s = Waiting p" and "frames s = []"
    and "map pid (fg_jobs (jobs (shell s))) = [p]" and "ready s = [(p, st)]" and "pending s"
  shows "inevitably (own_step k) (\<lambda>s'. at_point s' = Prompt \<and> frames s' = [] \<and> fg_jobs (jobs (shell s')) = [] \<and>
    (st \<noteq> Stopped \<longrightarrow> p \<notin> set (pids (jobs (shell s')))) \<and> (st = Stopped \<longrightarrow> p \<in> set (live s'))) s"
proof -
  let ?P = "\<lambda>s'. at_point s' = Prompt \<and> frames s' = [] \<and> fg_jobs (jobs (shell s')) = [] \<and>
    (st \<noteq> Stopped \<longrightarrow> p \<notin> set (pids (jobs (shell s')))) \<and> (st = Stopped \<longrightarrow> p \<in> set (live s'))"
  have i: "inv s" by (rule reachable_inv [OF assms(1)])
  then have ok: "jobs_ok (jobs (shell s))" by (simp add: inv_def)
  have p: "0 < p" using i assms(5) by (auto simp: inv_def children_def)
  have fg: "fg_ok (Waiting p) [] (shell s)" using inv_fg_ok [OF i] assms(2,3) by simp
  have ne: "fgi (jobs (shell s)) \<noteq> {}" using assms(4) fgi_empty by auto
  obtain n where n: "fgi (jobs (shell s)) \<subseteq> {n}" using fg_ok_one [OF fg] by blast
  have nl: "n < length (jobs (shell s))" "fgpid (jobs (shell s)) = pid (jobs (shell s) ! n)" using fgpid_fgi(2) [OF n ne] by simp_all
  have "jobs (shell s) ! n \<in> set (fg_jobs (jobs (shell s)))" using n ne nl(1) by (auto simp: fgi_def fg_jobs_def)
  then have np: "pid (jobs (shell s) ! n) = p" using assms(4) by (auto simp: map_eq_Cons_conv)
  let ?n = "sigchld_note p (shell s)"
  obtain c sh where h: "sigchld_finish p st ?n = (c, sh)" by (cases "sigchld_finish p st ?n")
  have okn: "jobs_ok (jobs ?n)" using ok by simp
  note j = sigchld_finish_jobs [OF okn p h]
  have c: "c = Ret" "fgi (jobs sh) = {}" using j(7) [of n] j(2) nl(1) np n by auto
  have d: "waitfg_done sh" using j(6) nl(2) np by (simp add: waitfg_done_def)
  let ?s1 = "s\<lparr>pending := False, frames := [Entered]\<rparr>"
  let ?s2 = "taken p st (?s1\<lparr>frames := [Reaped p st]\<rparr>)"
  let ?s3 = "?s2\<lparr>shell := ?n, frames := [Noted p st]\<rparr>"
  let ?s4 = "handle (c, sh) [] ?s3"
  have t: "at_point ?s2 = Waiting p" "frames ?s2 = [Reaped p st]" "shell ?s2 = shell s" "pending ?s2 = False"
    "live ?s2 = (if st = Stopped then p # live s else live s)"
    using assms(2) by (simp_all add: taken_def)
  have u: "at_point ?s4 = Waiting p" "frames ?s4 = []" "shell ?s4 = sh" "\<not> pending ?s4" "live ?s4 = live ?s2"
    using t c by (simp_all add: handle_def)
  have "st = Stopped \<Longrightarrow> p \<in> set (live ?s4)" unfolding u(5) t(5) by simp
  then have "?P (?s4\<lparr>at_point := Prompt\<rparr>)" using u(2,3) c(2) j(4) fgi_empty [of "jobs sh"] by simp
  then have "inevitably (own_step k) ?P (?s4\<lparr>at_point := Prompt\<rparr>)" by (rule inevitably.now)
  then have "inevitably (own_step k) ?P ?s4"
    using own_leave [OF u(1,2,4), of k] d u(3) by (intro inevitably_unique [of "own_step k" ?s4 "?s4\<lparr>at_point := Prompt\<rparr>"]) auto
  then have "inevitably (own_step k) ?P ?s3"
    using own_finish [of ?s3 p p st k] t(1) h by (intro inevitably_unique [of "own_step k" ?s3 ?s4]) auto
  then have "inevitably (own_step k) ?P ?s2"
    using own_note [OF t(1,2), of k] t(3) by (intro inevitably_unique [of "own_step k" ?s2 ?s3]) auto
  then have "inevitably (own_step k) ?P ?s1"
    using own_wait [of ?s1 p p st k] assms(2,5) by (intro inevitably_unique [of "own_step k" ?s1 ?s2]) auto
  moreover have "\<not> waitfg_done (shell s)" using fg ne by (simp add: waitfg_done_def)
  ultimately show ?thesis
    using own_enter [OF assms(2,3,6), of k] by (intro inevitably_unique [of "own_step k" s ?s1]) auto
qed

definition ended :: sys where
  "ended = the (do_event (\<lambda>_ _. True) (ChildStatus 5 Exited) waiting)"

lemma ended_reachable: "steps (\<lambda>_ _. True) (start False (line_b @ line_a)) ended"
proof -
  have "do_event (\<lambda>_ _. True) (ChildStatus 5 Exited) waiting \<noteq> None" by code_simp
  then have "do_event (\<lambda>_ _. True) (ChildStatus 5 Exited) waiting = Some ended" unfolding ended_def by (rule option.collapse [symmetric])
  then have "step (\<lambda>_ _. True) waiting ended" by (rule event_step)
  then show ?thesis using waiting_reachable by (rule rtranclp.rtrancl_into_rtrancl [rotated])
qed

lemma foreground_job_ends_witness:
  "inevitably (own_step (\<lambda>_ _. True)) (\<lambda>s'. at_point s' = Prompt \<and> frames s' = [] \<and> fg_jobs (jobs (shell s')) = [] \<and>
    (Exited \<noteq> Stopped \<longrightarrow> 5 \<notin> set (pids (jobs (shell s')))) \<and> (Exited = Stopped \<longrightarrow> 5 \<in> set (live s'))) ended"
proof -
  have "at_point ended = Waiting 5" "frames ended = []" "map pid (fg_jobs (jobs (shell ended))) = [5]"
    "ready ended = [(5, Exited)]" "pending ended" by code_simp+
  from foreground_job_ends [OF ended_reachable this] show ?thesis .
qed

text \<open>C32. \<open>waitfg\<close> can wait for ever.  First, the child ends and is reaped before \<open>waitfg\<close> clears \<open>chld_reaped\<close>: the
  job list is empty and the shell still waits for it.  Second, a background job ends together with the
  foreground job: the handler reaps one of them for the one signal, and the other stays a zombie and the
  foreground job.  From there the shell does not come back to its prompt; only a signal ends it.\<close>

theorem waitfg_hangs:
  "(\<exists>s. steps (\<lambda>_ _. True) (start False line_a) s \<and> pids (jobs (shell s)) = [] \<and>
      at_point s = Waiting 5 \<and> at_point ` {s'. steps (\<lambda>_ _. True) s s'} \<subseteq> {Waiting 5, Dead 1}) \<and>
   (\<exists>s. steps (\<lambda>_ _. True) (start False (line_b @ line_a)) s \<and> ready s = [(5, Exited)] \<and>
      at_point s = Waiting 5 \<and> at_point ` {s'. steps (\<lambda>_ _. True) s s'} \<subseteq> {Waiting 5, Dead 1})"
proof
  have st: "at_point ` {s'. steps (\<lambda>_ _. True) s s'} \<subseteq> {Waiting 5, Dead 1}" if "stuck 5 s" for s
    using stuck_steps [OF _ that] by (auto simp: stuck_def)
  obtain s where s: "lost_run = Some s" "stuck 5 s" "at_point s = Waiting 5" "pids (jobs (shell s)) = []"
    using lost by auto
  then show "\<exists>s. steps (\<lambda>_ _. True) (start False line_a) s \<and> pids (jobs (shell s)) = [] \<and>
      at_point s = Waiting 5 \<and> at_point ` {s'. steps (\<lambda>_ _. True) s s'} \<subseteq> {Waiting 5, Dead 1}"
    using run_steps st unfolding lost_run_def by blast
  obtain s where s: "zombie_run = Some s" "stuck 5 s" "at_point s = Waiting 5" "ready s = [(5, Exited)]"
    using zombie by auto
  then show "\<exists>s. steps (\<lambda>_ _. True) (start False (line_b @ line_a)) s \<and> ready s = [(5, Exited)] \<and>
      at_point s = Waiting 5 \<and> at_point ` {s'. steps (\<lambda>_ _. True) s s'} \<subseteq> {Waiting 5, Dead 1}"
    using run_steps st unfolding zombie_run_def by blast
qed

section \<open>Job ids\<close>

text \<open>The shell after a sequence of operations on its job list.\<close>

definition table :: "(tsh_t \<Rightarrow> bool \<times> tsh_t) list \<Rightarrow> tsh_t" where
  "table fs = foldl (\<lambda>sh f. snd (f sh)) (start_shell False) fs"

text \<open>Job ids are not unique.  With 16 jobs, two end and two are added: the first gets the id 17, which
  wraps \<open>nextjid\<close> to 1, so that the second gets the id of the first job.\<close>

lemma two_jobs_one_jid:
  "map (\<lambda>j. (pid j, jid j)) (take 3 (jobs (table (map (\<lambda>i. addjob i BG []) [1..16] @
     [deletejob 2, deletejob 3, addjob 20 BG [], addjob 21 BG []])))) = [(1, 1), (20, 17), (21, 1)]"
  by code_simp

text \<open>A child that \<open>addjob\<close> could not enter, when it is stopped: the handler uses a null pointer.\<close>

lemma stopped_unknown_child:
  "0 < p \<Longrightarrow> p \<notin> set (pids (jobs sh)) \<Longrightarrow> fst (sigchld_handler (Child p Stopped) sh) = Crash"
proof -
  assume "0 < p" and "p \<notin> set (pids (jobs sh))"
  then have "first_job (\<lambda>j. pid j = p) (jobs sh) = None" by (auto simp: first_job_None pids_def used_def)
  then show ?thesis by (auto simp: sigchld_handler_def sigchld_finish_def getjobpid_def)
qed

end
