(* ===== verification/TshMain.thy ===== *)
theory TshMain
  imports TshTheorems
begin

text \<open>
  The two ends of the shell of \<open>lab9/tsh.c\<close>: \<open>main\<close> up to its loop, which parses the options and installs the
  handlers, and the child of \<open>eval\<close> between \<open>fork\<close> and \<open>execve\<close>.
\<close>

section \<open>Signal dispositions\<close>

datatype signo = S_INT | S_TSTP | S_CHLD | S_QUIT

datatype handler = Default | Sigint_handler | Sigtstp_handler | Sigchld_handler | Sigquit_handler

type_synonym dispositions = "signo \<Rightarrow> handler"

text \<open>\<open>Signal\<close> installs a handler and returns the old one; \<open>ok\<close> tells whether \<open>sigaction\<close> succeeds.\<close>

definition Signal :: "(signo \<Rightarrow> bool) \<Rightarrow> signo \<Rightarrow> handler \<Rightarrow> dispositions \<times> tsh_t \<Rightarrow> (handler option \<times> ctl) \<times> dispositions \<times> tsh_t" where
  "Signal ok n h p =
     (let (d, sh) = p
      in if ok n then ((Some (d n), Ret), d(n := h), sh)
         else let (c, sh) = unix_error ''Signal error'' sh in ((None, c), d, sh))"

text \<open>The calls of \<open>main\<close>, until one ends the process.\<close>

fun install :: "(signo \<Rightarrow> bool) \<Rightarrow> (signo \<times> handler) list \<Rightarrow> dispositions \<times> tsh_t \<Rightarrow> ctl \<times> dispositions \<times> tsh_t" where
  "install ok [] p = (Ret, p)"
| "install ok ((n, h) # hs) p =
     (case Signal ok n h p of ((_, Ret), p) \<Rightarrow> install ok hs p | ((_, c), p) \<Rightarrow> (c, p))"

definition handlers :: "(signo \<times> handler) list" where
  "handlers = [(S_INT, Sigint_handler), (S_TSTP, Sigtstp_handler), (S_CHLD, Sigchld_handler), (S_QUIT, Sigquit_handler)]"

section \<open>Options\<close>

text \<open>The letters that \<open>getopt\<close> finds, to \<open>verbose\<close> and \<open>emit_prompt\<close>; \<open>usage\<close> exits with 1.\<close>

fun tsh_options :: "char list \<Rightarrow> bool \<times> bool \<Rightarrow> int + bool \<times> bool" where
  "tsh_options [] p = Inr p"
| "tsh_options (c # cs) (v, e) =
     (if c = CHR ''h'' then Inl 1
      else if c = CHR ''v'' then tsh_options cs (True, e)
      else if c = CHR ''p'' then tsh_options cs (v, False)
      else Inl 1)"

definition prompt :: string where "prompt = ''tsh> ''"

text \<open>\<open>main\<close> up to its loop: the exit status, or the prompt, the handlers and the state in which the loop starts.\<close>

definition tsh_main :: "(signo \<Rightarrow> bool) \<Rightarrow> char list \<Rightarrow> string \<Rightarrow> int + string \<times> dispositions \<times> sys" where
  "tsh_main ok opts inp =
     (case tsh_options opts (False, True) of
        Inl n \<Rightarrow> Inl n
      | Inr (v, e) \<Rightarrow>
          (case install ok handlers (\<lambda>_. Default, start_shell v) of
             (Exit n, p) \<Rightarrow> Inl n
           | (c, d, sh) \<Rightarrow> Inr (if e then prompt else [], d, (start v inp)\<lparr>shell := initjobs sh\<rparr>)))"

section \<open>The child\<close>

datatype child = Becomes "string list" | Ended int

text \<open>
  The child of \<open>eval\<close>: the first argument tells whether the signal mask is restored, the second whether the process
  group is made, the third which programs \<open>execve\<close> can start.
\<close>

definition eval_child :: "bool \<Rightarrow> bool \<Rightarrow> (string list \<Rightarrow> bool) \<Rightarrow> string list \<Rightarrow> tsh_t \<Rightarrow> child \<times> tsh_t" where
  "eval_child mask_ok setpgid_ok exec_ok argv sh =
     (if \<not> mask_ok then (Ended 1, snd (unix_error ''sigprocmask error'' sh))
      else if \<not> setpgid_ok then (Ended 1, snd (unix_error ''setpgid error'' sh))
      else if \<not> exec_ok argv then (Ended 1, print (hd argv @ '': Command not found'' @ [NEWLINE]) sh)
      else (Becomes argv, sh))"

section \<open>What holds of a run\<close>

lemma install_handlers:
  "install ok handlers (d, sh) = (Ret, d', sh') \<Longrightarrow>
     sh' = sh \<and> d' S_INT = Sigint_handler \<and> d' S_TSTP = Sigtstp_handler \<and> d' S_CHLD = Sigchld_handler \<and> d' S_QUIT = Sigquit_handler"
  by (auto simp: handlers_def Signal_def unix_error_def split: if_splits)

lemma install_ends: "install ok hs p = (c, q) \<Longrightarrow> c = Ret \<or> c = Exit 1"
  by (induction ok hs p rule: install.induct) (auto simp: Signal_def unix_error_def Let_def split: if_splits prod.splits)

lemma initjobs_start: "initjobs (start_shell v) = start_shell v"
  by (simp add: start_shell_def initjobs_def)

lemma tsh_main_start:
  assumes "tsh_main ok opts inp = Inr (p, d, s)"
  shows "\<exists>v. s = start v inp \<and> d S_INT = Sigint_handler \<and> d S_TSTP = Sigtstp_handler \<and> d S_CHLD = Sigchld_handler \<and>
    d S_QUIT = Sigquit_handler"
proof -
  obtain v e where o: "tsh_options opts (False, True) = Inr (v, e)"
    using assms by (auto simp: tsh_main_def split: sum.splits)
  obtain c d' sh where i: "install ok handlers (\<lambda>_. Default, start_shell v) = (c, d', sh)" by (metis prod.exhaust)
  from install_ends [OF i] have "c = Ret" using assms o i by (auto simp: tsh_main_def)
  then show ?thesis using assms o i install_handlers [of ok "\<lambda>_. Default" "start_shell v" d' sh]
    by (auto simp: tsh_main_def start_def initjobs_start)
qed

text \<open>So the invariant holds of everything that a run of the program reaches.\<close>

lemma tsh_main_invariant:
  assumes "tsh_main ok opts inp = Inr (p, d, s)" and "steps kill_ok s s'"
  shows "inv s' \<and> (\<exists>i. fgi (jobs (shell s')) \<subseteq> {i})"
proof -
  obtain v where "s = start v inp" using tsh_main_start [OF assms(1)] by blast
  then have "inv s'" using reachable_inv assms(2) by blast
  then show ?thesis using fg_ok_one [OF inv_fg_ok] by blast
qed

text \<open>A child that does not become another program ends with 1, and leaves the job list as it was.\<close>

lemma eval_child_ends:
  "eval_child m g x argv sh = (r, sh') \<Longrightarrow> (r = Ended 1 \<or> r = Becomes argv \<and> m \<and> g \<and> x argv) \<and> jobs sh' = jobs sh"
  by (auto simp: eval_child_def unix_error_def print_def split: if_splits)

end
