(* ===== verification/Rio.thy ===== *)
theory Rio
  imports CStrings "HOL-Library.Signed_Division"
begin

text \<open>
  The robust I/O package of \<open>lab10/csapp.c\<close> and its signal-safe output.

  An open descriptor is what its next reads will find: chunks of data as they arrive, interruptions by
  a signal, and errors, in their order; at the end of the list, and at an empty chunk, the other side
  has closed.  \<open>fd_read\<close> takes at most one chunk.
\<close>

section \<open>Descriptors\<close>

datatype chunk = Data string | Interrupted | Failed

datatype reads = Got string | Intr | Err

fun fd_read :: "nat \<Rightarrow> chunk list \<Rightarrow> reads \<times> chunk list" where
  "fd_read n [] = (Got [], [])"
| "fd_read n (Data t # fd) =
     (if t = [] then (Got [], Data t # fd)
      else if length t \<le> n then (Got t, fd) else (Got (take n t), Data (drop n t) # fd))"
| "fd_read n (Interrupted # fd) = (Intr, fd)"
| "fd_read n (Failed # fd) = (Err, fd)"

text \<open>What is left to read before the end or an error, and which of the two it is.\<close>

fun contents :: "chunk list \<Rightarrow> string" where
  "contents [] = []"
| "contents (Data t # fd) = (if t = [] then [] else t @ contents fd)"
| "contents (Interrupted # fd) = contents fd"
| "contents (Failed # fd) = []"

fun fails :: "chunk list \<Rightarrow> bool" where
  "fails [] = False"
| "fails (Data t # fd) = (t \<noteq> [] \<and> fails fd)"
| "fails (Interrupted # fd) = fails fd"
| "fails (Failed # fd) = True"

section \<open>Reading without a buffer\<close>

text \<open>\<open>Some t\<close>: the bytes \<open>t\<close> were read and their number is returned; \<open>None\<close>: the result -1.\<close>

definition prepend :: "string \<Rightarrow> string option \<times> 's \<Rightarrow> string option \<times> 's" where
  "prepend t r = (map_option (\<lambda>u. t @ u) (fst r), snd r)"

lemma read_Intr: "fd_read n fd = (Intr, fd') \<Longrightarrow> length fd' < length fd"
  by (induction n fd rule: fd_read.induct) (auto split: if_splits)

lemma read_Got: "fd_read n fd = (Got t, fd') \<Longrightarrow> length t \<le> n \<and> length fd' \<le> length fd"
  by (induction n fd rule: fd_read.induct) (auto split: if_splits)

function rio_readn :: "nat \<Rightarrow> chunk list \<Rightarrow> string option \<times> chunk list" where
  "rio_readn n fd =
     (if n = 0 then (Some [], fd)
      else case fd_read n fd of
             (Err, fd') \<Rightarrow> (None, fd')
           | (Intr, fd') \<Rightarrow> rio_readn n fd'
           | (Got t, fd') \<Rightarrow> if t = [] then (Some [], fd') else prepend t (rio_readn (n - length t) fd'))"
  by pat_completeness auto
termination
  by (relation "measure (\<lambda>(n, fd). n + length fd)")
    (auto dest!: read_Intr [OF sym] read_Got [OF sym] simp: less_diff_conv2 simp flip: length_greater_0_conv)

declare rio_readn.simps [simp del]

section \<open>Buffered reading\<close>

definition RIO_BUFSIZE :: nat where "RIO_BUFSIZE = 8192"

record rio_t =
  rio_fd :: "chunk list"
  rio_cnt :: int
  rio_bufptr :: nat
  rio_buf :: string

definition rio_readinitb :: "chunk list \<Rightarrow> rio_t \<Rightarrow> rio_t" where
  "rio_readinitb fd rp = rp\<lparr>rio_fd := fd, rio_cnt := 0, rio_bufptr := 0\<rparr>"

text \<open>The loop of \<open>rio_read\<close> that fills the buffer when it is empty.\<close>

function rio_fill :: "rio_t \<Rightarrow> reads \<times> rio_t" where
  "rio_fill rp =
     (if 0 < rio_cnt rp then (Got (rio_buf rp), rp)
      else case fd_read RIO_BUFSIZE (rio_fd rp) of
             (Err, fd) \<Rightarrow> (Err, rp\<lparr>rio_fd := fd, rio_cnt := - 1\<rparr>)
           | (Intr, fd) \<Rightarrow> rio_fill (rp\<lparr>rio_fd := fd, rio_cnt := - 1\<rparr>)
           | (Got t, fd) \<Rightarrow>
               let rp = rp\<lparr>rio_fd := fd, rio_cnt := int (length t),
                           rio_buf := t @ drop (length t) (rio_buf rp)\<rparr>
               in if t = [] then (Got [], rp) else rio_fill (rp\<lparr>rio_bufptr := 0\<rparr>))"
  by pat_completeness auto
termination
  by (relation "measure (\<lambda>rp. if 0 < rio_cnt rp then 0 else Suc (length (rio_fd rp)))")
    (auto dest: read_Intr [OF sym])

declare rio_fill.simps [simp del]

definition rio_read :: "nat \<Rightarrow> rio_t \<Rightarrow> reads \<times> rio_t" where
  "rio_read n rp =
     (case rio_fill rp of
        (Got t, rp) \<Rightarrow>
          if t = [] then (Got [], rp)
          else
            let cnt = (if rio_cnt rp < int n then nat (rio_cnt rp) else n)
            in (Got (take cnt (drop (rio_bufptr rp) (rio_buf rp))),
                rp\<lparr>rio_bufptr := rio_bufptr rp + cnt, rio_cnt := rio_cnt rp - int cnt\<rparr>)
      | r \<Rightarrow> r)"

function rio_readnb :: "nat \<Rightarrow> rio_t \<Rightarrow> string option \<times> rio_t" where
  "rio_readnb n rp =
     (if n = 0 then (Some [], rp)
      else case rio_read n rp of
             (Got t, rp') \<Rightarrow> if t = [] then (Some [], rp') else prepend t (rio_readnb (n - length t) rp')
           | (_, rp') \<Rightarrow> (None, rp'))"
  by pat_completeness auto
termination
  by (relation "measure fst") auto

declare rio_readnb.simps [simp del]

text \<open>The loop of \<open>rio_readlineb\<close>, with room for so many more characters.\<close>

primrec readlineb_loop :: "nat \<Rightarrow> rio_t \<Rightarrow> string option \<times> rio_t" where
  "readlineb_loop 0 rp = (Some [], rp)"
| "readlineb_loop (Suc k) rp =
     (case rio_read 1 rp of
        (Got t, rp') \<Rightarrow>
          if t = [] then (Some [], rp')
          else if t = [NEWLINE] then (Some t, rp')
          else prepend t (readlineb_loop k rp')
      | (_, rp') \<Rightarrow> (None, rp'))"

definition rio_readlineb :: "nat \<Rightarrow> rio_t \<Rightarrow> string option \<times> rio_t" where
  "rio_readlineb maxlen rp = readlineb_loop (maxlen - 1) rp"

section \<open>Writing\<close>

text \<open>
  A descriptor to write to: what the next calls of \<open>fd_write\<close> do, what was written, and whether \<open>errno\<close>
  is \<open>EINTR\<close>.  After the listed calls everything is written at once.
\<close>

datatype writes = Wrote nat | WriteIntr | WriteErr

record sink =
  outcomes :: "writes list"
  written :: string
  eintr :: bool

definition fd_write :: "string \<Rightarrow> sink \<Rightarrow> int \<times> sink" where
  "fd_write t w =
     (case outcomes w of
        [] \<Rightarrow> (int (length t), w\<lparr>written := written w @ t\<rparr>)
      | Wrote k # os \<Rightarrow> (int (min k (length t)), w\<lparr>outcomes := os, written := written w @ take k t\<rparr>)
      | WriteIntr # os \<Rightarrow> (- 1, w\<lparr>outcomes := os, eintr := True\<rparr>)
      | WriteErr # os \<Rightarrow> (- 1, w\<lparr>outcomes := os, eintr := False\<rparr>))"

function rio_writen :: "string \<Rightarrow> sink \<Rightarrow> bool \<times> sink" where
  "rio_writen t w =
     (if t = [] then (True, w)
      else
        let (n, w') = fd_write t w
        in if n \<le> 0 then (if eintr w' then rio_writen t w' else (False, w'))
           else rio_writen (drop (nat n) t) w')"
  by pat_completeness auto
termination
  by (relation "measure (\<lambda>(t, w). length t + length (outcomes w))")
    (auto simp: fd_write_def split: list.splits writes.splits)

declare rio_writen.simps [simp del]

section \<open>The wrappers\<close>

text \<open>The wrappers end the process when the function fails; \<open>unix_error\<close> of \<open>csapp.c\<close> exits with 0.\<close>

datatype 'a outcome = Returns 'a | Exits int

definition checked :: "string option \<times> 's \<Rightarrow> string outcome \<times> 's" where
  "checked r = (case fst r of Some t \<Rightarrow> Returns t | None \<Rightarrow> Exits 0, snd r)"

definition Rio_readn :: "nat \<Rightarrow> chunk list \<Rightarrow> string outcome \<times> chunk list" where
  "Rio_readn n fd = checked (rio_readn n fd)"

definition Rio_writen :: "string \<Rightarrow> sink \<Rightarrow> unit outcome \<times> sink" where
  "Rio_writen t w = (let (done, w) = rio_writen t w in (if done then Returns () else Exits 0, w))"

definition Rio_readnb :: "nat \<Rightarrow> rio_t \<Rightarrow> string outcome \<times> rio_t" where
  "Rio_readnb n rp = checked (rio_readnb n rp)"

definition Rio_readlineb :: "nat \<Rightarrow> rio_t \<Rightarrow> string outcome \<times> rio_t" where
  "Rio_readlineb maxlen rp = checked (rio_readlineb maxlen rp)"

section \<open>Opening connections\<close>

text \<open>
  What becomes of each address that \<open>getaddrinfo\<close> lists: no socket, a connected (or bound) socket, or
  a refusal, after which closing the socket works or fails.  The list is \<open>None\<close> when \<open>getaddrinfo\<close> fails.
\<close>

datatype 'd attempt = NoSocket | Accepts 'd | Refuses bool

datatype 'd opened = Opened 'd | Failure int

fun first_address :: "'d attempt list \<Rightarrow> 'd opened" where
  "first_address [] = Failure (- 1)"
| "first_address (NoSocket # as) = first_address as"
| "first_address (Accepts d # as) = Opened d"
| "first_address (Refuses closed # as) = (if closed then first_address as else Failure (- 1))"

definition open_clientfd :: "'d attempt list option \<Rightarrow> 'd opened" where
  "open_clientfd as = (case as of None \<Rightarrow> Failure (- 2) | Some as \<Rightarrow> first_address as)"

text \<open>\<open>listens\<close> tells whether \<open>listen\<close> works on a bound socket.\<close>

definition open_listenfd :: "('d \<Rightarrow> bool) \<Rightarrow> 'd attempt list option \<Rightarrow> 'd opened" where
  "open_listenfd listens as =
     (case as of
        None \<Rightarrow> Failure (- 2)
      | Some as \<Rightarrow>
          (case first_address as of
             Opened d \<Rightarrow> if listens d then Opened d else Failure (- 1)
           | Failure n \<Rightarrow> Failure n))"

definition Open_clientfd :: "'d attempt list option \<Rightarrow> 'd outcome" where
  "Open_clientfd as = (case open_clientfd as of Opened d \<Rightarrow> Returns d | Failure n \<Rightarrow> Exits 0)"

definition Open_listenfd :: "('d \<Rightarrow> bool) \<Rightarrow> 'd attempt list option \<Rightarrow> 'd outcome" where
  "Open_listenfd listens as = (case open_listenfd listens as of Opened d \<Rightarrow> Returns d | Failure n \<Rightarrow> Exits 0)"

section \<open>Signal-safe output\<close>

text \<open>\<open>sio_reverse\<close>: the loop with its two indexes.\<close>

function reverse_loop :: "nat \<Rightarrow> int \<Rightarrow> string \<Rightarrow> string" where
  "reverse_loop i j s =
     (if int i < j then reverse_loop (i + 1) (j - 1) (s[i := s ! nat j, nat j := s ! i]) else s)"
  by pat_completeness auto
termination by (relation "measure (\<lambda>(i, j, s). nat (j - int i))") auto

declare reverse_loop.simps [simp del]

definition sio_reverse :: "string \<Rightarrow> string" where
  "sio_reverse s = reverse_loop 0 (int (length s) - 1) s"

text \<open>The digits of \<open>sio_ltoa\<close>, the last first.  \<open>div\<close> and \<open>mod\<close> of C round towards zero.\<close>

definition ltoa_char :: "int \<Rightarrow> char" where
  "ltoa_char c = char_of ((if c < 10 then c + 48 else c - 10 + 97) mod 256)"

partial_function (option) ltoa_digits :: "int \<Rightarrow> int \<Rightarrow> string option" where
  "ltoa_digits v b =
     (let d = ltoa_char (v smod b); v' = v sdiv b
      in if 0 < v' then do { ds \<leftarrow> ltoa_digits v' b; Some (d # ds) } else Some [d])"

definition long_neg :: "int \<Rightarrow> int" where
  "long_neg v = sint (- word_of_int v :: long)"

definition sio_ltoa :: "int \<Rightarrow> int \<Rightarrow> string option" where
  "sio_ltoa v b =
     do { ds \<leftarrow> ltoa_digits (if v < 0 then long_neg v else v) b;
          Some (sio_reverse (if v < 0 then ds @ ''-'' else ds)) }"

text \<open>The output goes through one call of \<open>write\<close>; the result is the result of that call.\<close>

definition sio_puts :: "string \<Rightarrow> sink \<Rightarrow> int \<times> sink" where
  "sio_puts s w = fd_write (cstr s) w"

definition sio_putl :: "int \<Rightarrow> sink \<Rightarrow> (int \<times> sink) option" where
  "sio_putl v w = do { s \<leftarrow> sio_ltoa v 10; Some (sio_puts s w) }"

definition sio_error :: "string \<Rightarrow> sink \<Rightarrow> 'a outcome \<times> sink" where
  "sio_error s w = (Exits 1, snd (sio_puts s w))"

definition Sio_puts :: "string \<Rightarrow> sink \<Rightarrow> int outcome \<times> sink" where
  "Sio_puts s w = (let (n, w) = sio_puts s w in if n < 0 then sio_error ''Sio_puts error'' w else (Returns n, w))"

definition Sio_putl :: "int \<Rightarrow> sink \<Rightarrow> (int outcome \<times> sink) option" where
  "Sio_putl v w =
     do { (n, w) \<leftarrow> sio_putl v w;
          Some (if n < 0 then sio_error ''Sio_putl error'' w else (Returns n, w)) }"

end
