(* ===== verification/RioReaders.thy ===== *)
theory RioReaders
  imports Rio
begin

text \<open>
  What the robust I/O package of \<open>lab10/csapp.c\<close> promises: a caller sees the bytes of a descriptor,
  however they arrive.  \<open>reader\<close> is the contract of a function that reads some bytes, \<open>read_loop\<close> and
  \<open>line_loop\<close> are the two loops around it; the system call and the buffer are its two interpretations.
\<close>

section \<open>Readers\<close>

locale reader =
  fixes rd :: "nat \<Rightarrow> 's \<Rightarrow> reads \<times> 's"
    and ok :: "'s \<Rightarrow> bool"
    and stream :: "'s \<Rightarrow> string"
    and broken :: "'s \<Rightarrow> bool"
    and delays :: "'s \<Rightarrow> nat"
  assumes rd_ok: "ok s \<Longrightarrow> ok (snd (rd n s))"
    and rd_Got: "ok s \<Longrightarrow> 0 < n \<Longrightarrow> rd n s = (Got t, s') \<Longrightarrow> t \<noteq> [] \<Longrightarrow>
      length t \<le> n \<and> stream s = t @ stream s' \<and> broken s' = broken s"
    and rd_end: "ok s \<Longrightarrow> 0 < n \<Longrightarrow> rd n s = (Got [], s') \<Longrightarrow> stream s = [] \<and> \<not> broken s \<and> stream s' = []"
    and rd_Intr: "ok s \<Longrightarrow> 0 < n \<Longrightarrow> rd n s = (Intr, s') \<Longrightarrow>
      stream s' = stream s \<and> broken s' = broken s \<and> delays s' < delays s"
    and rd_Err: "ok s \<Longrightarrow> 0 < n \<Longrightarrow> rd n s = (Err, s') \<Longrightarrow> stream s = [] \<and> broken s"
begin

text \<open>What a reader of \<open>n\<close> bytes has to return, and where it has to leave a descriptor that does not fail.\<close>

definition reads_spec :: "nat \<Rightarrow> 's \<Rightarrow> string option \<times> 's \<Rightarrow> bool" where
  "reads_spec n s r \<longleftrightarrow> ok (snd r) \<and>
     fst r = (if length (stream s) < n \<and> broken s then None else Some (take n (stream s))) \<and>
     (fst r \<noteq> None \<longrightarrow> stream (snd r) = drop n (stream s)) \<and>
     (n \<le> length (stream s) \<longrightarrow> broken (snd r) = broken s)"

definition line_spec :: "nat \<Rightarrow> 's \<Rightarrow> string option \<times> 's \<Rightarrow> bool" where
  "line_spec n s r \<longleftrightarrow> ok (snd r) \<and>
     fst r = (if length (fst (fgets n (stream s))) < n \<and> NEWLINE \<notin> set (fst (fgets n (stream s))) \<and> broken s
              then None else Some (fst (fgets n (stream s)))) \<and>
     (fst r \<noteq> None \<longrightarrow> stream (snd r) = snd (fgets n (stream s))) \<and>
     (length (fst (fgets n (stream s))) = n \<or> NEWLINE \<in> set (fst (fgets n (stream s))) \<longrightarrow> broken (snd r) = broken s)"

end

locale read_loop = reader rd ok stream broken delays
  for rd :: "nat \<Rightarrow> 's \<Rightarrow> reads \<times> 's" and ok stream broken delays +
  fixes loop :: "nat \<Rightarrow> 's \<Rightarrow> string option \<times> 's"
  assumes loop: "ok s \<Longrightarrow> loop n s =
     (if n = 0 then (Some [], s)
      else case rd n s of
             (Err, s') \<Rightarrow> (None, s')
           | (Intr, s') \<Rightarrow> loop n s'
           | (Got t, s') \<Rightarrow> if t = [] then (Some [], s') else prepend t (loop (n - length t) s'))"
begin

lemma loop_correct: "ok s \<Longrightarrow> reads_spec n s (loop n s)"
proof (induction n arbitrary: s rule: less_induct)
  case (less n)
  note outer = less.IH
  from less.prems show ?case
  proof (induction "delays s" arbitrary: s rule: less_induct)
    case (less s)
    obtain r s' where r: "rd n s = (r, s')" by (cases "rd n s")
    have ok': "ok s'" using rd_ok [OF less.prems, of n] r by simp
    show ?case
    proof (cases "n = 0")
      case True
      then show ?thesis using loop [OF less.prems] less.prems by (simp add: reads_spec_def)
    next
      case n: False
      show ?thesis
      proof (cases r)
        case (Got t)
        show ?thesis
        proof (cases "t = []")
          case True
          then show ?thesis using rd_end [OF less.prems _ r [unfolded Got True]] loop [OF less.prems, of n] n r Got ok'
            by (simp add: reads_spec_def)
        next
          case False
          have g: "length t \<le> n" "stream s = t @ stream s'" "broken s' = broken s"
            using rd_Got [OF less.prems _ r [unfolded Got] False] n by auto
          have "n - length t < n" using False n by simp
          then have "reads_spec (n - length t) s' (loop (n - length t) s')" using outer ok' by blast
          moreover have "loop n s = prepend t (loop (n - length t) s')"
            using loop [OF less.prems, of n] n r Got False by simp
          ultimately show ?thesis using g by (auto simp: reads_spec_def prepend_def split: if_splits)
        qed
      next
        case Intr
        have g: "stream s' = stream s" "broken s' = broken s" "delays s' < delays s"
          using rd_Intr [OF less.prems _ r [unfolded Intr]] n by auto
        have "loop n s = loop n s'" using loop [OF less.prems, of n] n r Intr by simp
        then show ?thesis using less.hyps [OF g(3) ok'] g by (simp add: reads_spec_def)
      next
        case Err
        then show ?thesis using rd_Err [OF less.prems _ r [unfolded Err]] loop [OF less.prems, of n] n r ok'
          by (simp add: reads_spec_def)
      qed
    qed
  qed
qed

end

locale line_loop = reader rd ok stream broken delays
  for rd :: "nat \<Rightarrow> 's \<Rightarrow> reads \<times> 's" and ok stream broken delays +
  fixes line :: "nat \<Rightarrow> 's \<Rightarrow> string option \<times> 's"
  assumes line_0: "ok s \<Longrightarrow> line 0 s = (Some [], s)"
    and line_Suc: "ok s \<Longrightarrow> line (Suc k) s =
     (case rd 1 s of
        (Got t, s') \<Rightarrow>
          if t = [] then (Some [], s') else if t = [NEWLINE] then (Some t, s') else prepend t (line k s')
      | (Intr, s') \<Rightarrow> line (Suc k) s'
      | (Err, s') \<Rightarrow> (None, s'))"
begin

lemma line_correct: "ok s \<Longrightarrow> line_spec k s (line k s)"
proof (induction k arbitrary: s)
  case 0
  then show ?case by (simp add: line_0 line_spec_def)
next
  case (Suc k)
  note outer = Suc.IH
  from Suc.prems show ?case
  proof (induction "delays s" arbitrary: s rule: less_induct)
    case (less s)
    obtain r s' where r: "rd 1 s = (r, s')" by (cases "rd 1 s")
    have ok': "ok s'" using rd_ok [OF less.prems, of 1] r by simp
    show ?case
    proof (cases r)
      case (Got t)
      show ?thesis
      proof (cases "t = []")
        case True
        then show ?thesis using rd_end [OF less.prems _ r [unfolded Got True]] line_Suc [OF less.prems, of k] r Got ok'
          by (simp add: line_spec_def)
      next
        case False
        then have g: "length t \<le> 1" "stream s = t @ stream s'" "broken s' = broken s"
          using rd_Got [OF less.prems _ r [unfolded Got] False] by auto
        then obtain c where c: "t = [c]" using False by (cases t) auto
        show ?thesis
        proof (cases "c = NEWLINE")
          case True
          then show ?thesis using line_Suc [OF less.prems, of k] r Got c g ok' by (simp add: line_spec_def)
        next
          case F: False
          have "line (Suc k) s = prepend t (line k s')"
            using line_Suc [OF less.prems, of k] r Got c F by simp
          then show ?thesis using outer [OF ok'] g c F
            by (auto simp: line_spec_def prepend_def split: prod.splits if_splits)
        qed
      qed
    next
      case Intr
      have g: "stream s' = stream s" "broken s' = broken s" "delays s' < delays s"
        using rd_Intr [OF less.prems _ r [unfolded Intr]] by auto
      have "line (Suc k) s = line (Suc k) s'" using line_Suc [OF less.prems, of k] r Intr by simp
      then show ?thesis using less.hyps [OF g(3) ok'] g by (simp add: line_spec_def)
    next
      case Err
      then show ?thesis using rd_Err [OF less.prems _ r [unfolded Err]] line_Suc [OF less.prems, of k] r ok'
        by (simp add: line_spec_def)
    qed
  qed
qed

end

section \<open>The descriptors and the buffer as readers\<close>

lemma fd_read_laws:
  "0 < n \<Longrightarrow> fd_read n fd = (Got t, fd') \<Longrightarrow> t \<noteq> [] \<Longrightarrow>
    length t \<le> n \<and> contents fd = t @ contents fd' \<and> fails fd' = fails fd"
  "fd_read n fd = (Intr, fd') \<Longrightarrow> contents fd' = contents fd \<and> fails fd' = fails fd \<and> length fd' < length fd"
  "fd_read n fd = (Err, fd') \<Longrightarrow> contents fd = [] \<and> fails fd"
  "0 < n \<Longrightarrow> fd_read n fd = (Got [], fd') \<Longrightarrow> contents fd = [] \<and> \<not> fails fd \<and> contents fd' = []"
  by (induction n fd rule: fd_read.induct; auto split: if_splits)+

interpretation raw: read_loop fd_read "\<lambda>_. True" contents fails length rio_readn
proof unfold_locales
  fix n :: nat and s s' t
  show "fd_read n s = (Got [], s') \<Longrightarrow> 0 < n \<Longrightarrow> contents s = [] \<and> \<not> fails s \<and> contents s' = []"
    by (rule fd_read_laws)
qed (auto dest: fd_read_laws simp: rio_readn.simps [of _ s for s])

definition rio_ok :: "rio_t \<Rightarrow> bool" where
  "rio_ok rp \<longleftrightarrow> length (rio_buf rp) = RIO_BUFSIZE \<and> rio_bufptr rp + nat (rio_cnt rp) \<le> RIO_BUFSIZE"

definition rio_stream :: "rio_t \<Rightarrow> string" where
  "rio_stream rp = take (nat (rio_cnt rp)) (drop (rio_bufptr rp) (rio_buf rp)) @ contents (rio_fd rp)"

definition rio_fails :: "rio_t \<Rightarrow> bool" where
  "rio_fails rp \<longleftrightarrow> fails (rio_fd rp)"

lemma rio_readinitb_ok: "length (rio_buf rp) = RIO_BUFSIZE \<Longrightarrow> rio_ok (rio_readinitb fd rp)"
  by (simp add: rio_ok_def rio_readinitb_def)

lemma rio_readinitb_stream: "rio_stream (rio_readinitb fd rp) = contents fd" "rio_fails (rio_readinitb fd rp) = fails fd"
  by (simp_all add: rio_stream_def rio_readinitb_def rio_fails_def)

definition filled :: "rio_t \<Rightarrow> reads \<times> rio_t \<Rightarrow> bool" where
  "filled rp r \<longleftrightarrow> rio_ok (snd r) \<and>
     (case fst r of
        Got t \<Rightarrow> if t = [] then rio_stream rp = [] \<and> \<not> rio_fails rp \<and> rio_stream (snd r) = []
                 else 0 < rio_cnt (snd r) \<and> rio_stream (snd r) = rio_stream rp \<and> rio_fails (snd r) = rio_fails rp
      | Intr \<Rightarrow> False
      | Err \<Rightarrow> rio_stream rp = [] \<and> rio_fails rp)"

lemma filled_cong: "filled p r \<Longrightarrow> rio_stream p = rio_stream q \<Longrightarrow> rio_fails p = rio_fails q \<Longrightarrow> filled q r"
  by (cases "fst r") (auto simp: filled_def split: if_splits)

lemma rio_fill_filled: "rio_ok rp \<Longrightarrow> filled rp (rio_fill rp)"
proof (induction "length (rio_fd rp)" arbitrary: rp rule: less_induct)
  case (less rp)
  have ok: "rio_ok rp" by fact
  have B: "0 < RIO_BUFSIZE" by (simp add: RIO_BUFSIZE_def)
  show ?case
  proof (cases "0 < rio_cnt rp")
    case True
    have "rio_buf rp \<noteq> []" using ok B by (auto simp: rio_ok_def)
    then show ?thesis using True ok by (subst rio_fill.simps) (simp add: filled_def)
  next
    case c: False
    obtain r fd where r: "fd_read RIO_BUFSIZE (rio_fd rp) = (r, fd)" by (cases "fd_read RIO_BUFSIZE (rio_fd rp)")
    show ?thesis
    proof (cases r)
      case Err
      then show ?thesis using r c ok fd_read_laws(3)
        by (subst rio_fill.simps) (force simp: filled_def rio_ok_def rio_stream_def rio_fails_def)
    next
      case Intr
      let ?rp = "rp\<lparr>rio_fd := fd, rio_cnt := - 1\<rparr>"
      have g: "contents fd = contents (rio_fd rp)" "fails fd = fails (rio_fd rp)"
        using fd_read_laws(2) r Intr by blast+
      have "rio_ok ?rp" using ok by (simp add: rio_ok_def)
      then have "filled ?rp (rio_fill ?rp)" using less.hyps [of ?rp] read_Intr r Intr by simp
      moreover have "rio_stream ?rp = rio_stream rp" "rio_fails ?rp = rio_fails rp"
        using g c by (simp_all add: rio_stream_def rio_fails_def)
      moreover have "rio_fill rp = rio_fill ?rp" using r c Intr by (subst rio_fill.simps) simp
      ultimately show ?thesis using filled_cong by metis
    next
      case (Got t)
      let ?rp = "rp\<lparr>rio_fd := fd, rio_cnt := int (length t), rio_buf := t @ drop (length t) (rio_buf rp)\<rparr>"
      have l: "length t \<le> RIO_BUFSIZE" using read_Got r Got by blast
      show ?thesis
      proof (cases "t = []")
        case True
        then have "contents (rio_fd rp) = [] \<and> \<not> fails (rio_fd rp) \<and> contents fd = []"
          using fd_read_laws(4) [OF B] r Got by blast
        then show ?thesis using r c ok Got True
          by (subst rio_fill.simps) (simp add: filled_def rio_ok_def rio_stream_def rio_fails_def)
      next
        case False
        let ?rp' = "?rp\<lparr>rio_bufptr := 0\<rparr>"
        have g: "contents (rio_fd rp) = t @ contents fd" "fails fd = fails (rio_fd rp)"
          using fd_read_laws(1) [OF B] r Got False by blast+
        have s: "rio_stream ?rp' = rio_stream rp" "rio_fails ?rp' = rio_fails rp" "rio_ok ?rp'" "0 < rio_cnt ?rp'"
          using g c ok l False by (simp_all add: rio_stream_def rio_fails_def rio_ok_def)
        have "rio_fill rp = rio_fill ?rp'" using r c Got False by (subst rio_fill.simps) simp
        also have "\<dots> = (Got (rio_buf ?rp'), ?rp')" using s(4) by (subst rio_fill.simps) simp
        finally show ?thesis using s False by (simp add: filled_def)
      qed
    qed
  qed
qed

lemma rio_read_laws:
  assumes ok: "rio_ok rp"
  shows "rio_ok (snd (rio_read n rp))"
    "rio_read n rp \<noteq> (Intr, rp')"
    "0 < n \<Longrightarrow> rio_read n rp = (Got t, rp') \<Longrightarrow> t \<noteq> [] \<Longrightarrow>
      length t \<le> n \<and> rio_stream rp = t @ rio_stream rp' \<and> rio_fails rp' = rio_fails rp"
    "0 < n \<Longrightarrow> rio_read n rp = (Got [], rp') \<Longrightarrow> rio_stream rp = [] \<and> \<not> rio_fails rp \<and> rio_stream rp' = []"
    "rio_read n rp = (Err, rp') \<Longrightarrow> rio_stream rp = [] \<and> rio_fails rp"
proof -
  obtain r rq where f: "rio_fill rp = (r, rq)" by (cases "rio_fill rp")
  have F: "filled rp (r, rq)" using rio_fill_filled [OF ok] f by simp
  let ?cnt = "if rio_cnt rq < int n then nat (rio_cnt rq) else n"
  let ?rq = "rq\<lparr>rio_bufptr := rio_bufptr rq + ?cnt, rio_cnt := rio_cnt rq - int ?cnt\<rparr>"
  have G: "rio_ok ?rq \<and> rio_fails ?rq = rio_fails rp \<and> (0 < n \<longrightarrow> take ?cnt (drop (rio_bufptr rq) (rio_buf rq)) \<noteq> []) \<and>
      rio_stream rp = take ?cnt (drop (rio_bufptr rq) (rio_buf rq)) @ rio_stream ?rq"
    if "r = Got t" "t \<noteq> []" for t
  proof -
    have c: "0 < rio_cnt rq" "rio_ok rq" "rio_fails rq = rio_fails rp" "rio_stream rq = rio_stream rp"
      using F that by (simp_all add: filled_def)
    then have n: "nat (rio_cnt rq) = ?cnt + nat (rio_cnt rq - int ?cnt)" by auto
    have "take (nat (rio_cnt rq)) (drop (rio_bufptr rq) (rio_buf rq)) =
       take ?cnt (drop (rio_bufptr rq) (rio_buf rq)) @
       take (nat (rio_cnt rq - int ?cnt)) (drop (rio_bufptr rq + ?cnt) (rio_buf rq))"
      by (subst n) (simp only: take_add drop_drop add.commute)
    then have "rio_stream rp = take ?cnt (drop (rio_bufptr rq) (rio_buf rq)) @ rio_stream ?rq"
      using c(4) by (simp add: rio_stream_def)
    moreover have "rio_ok ?rq" using c(1,2) by (auto simp: rio_ok_def)
    moreover have "0 < n \<longrightarrow> take ?cnt (drop (rio_bufptr rq) (rio_buf rq)) \<noteq> []" using c(1,2) by (auto simp: rio_ok_def)
    ultimately show ?thesis using c(3) by (simp add: rio_fails_def)
  qed
  have R: "rio_read n rp = (case r of Got t \<Rightarrow> if t = [] then (Got [], rq)
      else (Got (take ?cnt (drop (rio_bufptr rq) (rio_buf rq))), ?rq) | _ \<Rightarrow> (r, rq))"
    by (simp add: rio_read_def f Let_def split: reads.split)
  show "rio_ok (snd (rio_read n rp))" using R F G by (auto simp: filled_def split: reads.splits)
  show "rio_read n rp \<noteq> (Intr, rp')" using R F by (auto simp: filled_def split: reads.splits if_splits)
  show "length t \<le> n \<and> rio_stream rp = t @ rio_stream rp' \<and> rio_fails rp' = rio_fails rp"
    if "0 < n" "rio_read n rp = (Got t, rp')" "t \<noteq> []"
    using R G that by (auto split: reads.splits if_splits)
  show "rio_stream rp = [] \<and> \<not> rio_fails rp \<and> rio_stream rp' = []"
    if "0 < n" "rio_read n rp = (Got [], rp')"
    using R G F that by (auto simp: filled_def split: reads.splits if_splits)
  show "rio_stream rp = [] \<and> rio_fails rp" if "rio_read n rp = (Err, rp')"
    using R F that by (auto simp: filled_def split: reads.splits if_splits)
qed

interpretation buffered: reader rio_read rio_ok rio_stream rio_fails "\<lambda>_. 0"
  using rio_read_laws by unfold_locales blast+

interpretation buffered: read_loop rio_read rio_ok rio_stream rio_fails "\<lambda>_. 0" rio_readnb
proof unfold_locales
  fix s n assume ok: "rio_ok s"
  have "fst (rio_read n s) \<noteq> Intr" using rio_read_laws(2) [OF ok, of n "snd (rio_read n s)"] by (metis prod.collapse)
  then show "rio_readnb n s =
     (if n = 0 then (Some [], s)
      else case rio_read n s of
             (Err, s') \<Rightarrow> (None, s')
           | (Intr, s') \<Rightarrow> rio_readnb n s'
           | (Got t, s') \<Rightarrow> if t = [] then (Some [], s') else prepend t (rio_readnb (n - length t) s'))"
    by (subst rio_readnb.simps) (auto split: prod.splits reads.splits)
qed

interpretation buffered: line_loop rio_read rio_ok rio_stream rio_fails "\<lambda>_. 0" readlineb_loop
proof unfold_locales
  fix s k assume ok: "rio_ok s"
  have "fst (rio_read 1 s) \<noteq> Intr" using rio_read_laws(2) [OF ok, of 1 "snd (rio_read 1 s)"] by (metis prod.collapse)
  then show "readlineb_loop (Suc k) s =
     (case rio_read 1 s of
        (Got t, s') \<Rightarrow>
          if t = [] then (Some [], s') else if t = [NEWLINE] then (Some t, s') else prepend t (readlineb_loop k s')
      | (Intr, s') \<Rightarrow> readlineb_loop (Suc k) s'
      | (Err, s') \<Rightarrow> (None, s'))"
    by (auto split: prod.splits reads.splits)
qed simp

section \<open>Writing\<close>

text \<open>
  How many bytes some calls of \<open>write\<close> take, and whether every one of them is followed by another: it took
  bytes, or it took none and \<open>errno\<close> is \<open>EINTR\<close>.
\<close>

fun granted :: "writes list \<Rightarrow> nat" where
  "granted [] = 0"
| "granted (Wrote n # os) = n + granted os"
| "granted (_ # os) = granted os"

fun retried :: "bool \<Rightarrow> writes list \<Rightarrow> bool" where
  "retried i [] = True"
| "retried i (Wrote n # os) = ((0 < n \<or> i) \<and> retried i os)"
| "retried i (WriteIntr # os) = retried True os"
| "retried i (WriteErr # os) = False"

definition written_all :: "string \<Rightarrow> sink \<Rightarrow> sink \<Rightarrow> bool" where
  "written_all t w w' \<longleftrightarrow> written w' = written w @ t \<and> (\<exists>os. outcomes w = os @ outcomes w' \<and> retried (eintr w) os)"

definition gave_up :: "string \<Rightarrow> sink \<Rightarrow> sink \<Rightarrow> bool" where
  "gave_up t w w' \<longleftrightarrow> (\<exists>os x. outcomes w = os @ x # outcomes w' \<and> retried (eintr w) os \<and> \<not> retried (eintr w) (os @ [x]) \<and>
     granted os < length t \<and> written w' = written w @ take (granted os) t)"

text \<open>One call that is followed by another.\<close>

lemma fd_write_again:
  assumes "fd_write t w = (n, v)" and "t \<noteq> []" and "0 < n \<or> eintr v"
  shows "n < 0 \<or> nat n \<le> length t" "written v = written w @ take (nat n) t"
    "written_all (drop (nat n) t) v w' \<Longrightarrow> written_all t w w'"
    "gave_up (drop (nat n) t) v w' \<Longrightarrow> gave_up t w w'"
proof -
  have "nat n \<le> length t \<and> written v = written w @ take (nat n) t \<and>
      (outcomes w = [] \<and> outcomes v = [] \<or>
       (\<exists>x. outcomes w = x # outcomes v \<and> (\<forall>os. retried (eintr w) (x # os) \<longleftrightarrow> retried (eintr v) os) \<and>
          (\<forall>os. nat n = length t \<or> granted (x # os) = nat n + granted os)))"
    using assms by (auto simp: fd_write_def min_def split: list.splits writes.splits if_splits)
  then have n: "nat n \<le> length t" "written v = written w @ take (nat n) t" and
    o: "outcomes w = [] \<and> outcomes v = [] \<or>
       (\<exists>x. outcomes w = x # outcomes v \<and> (\<forall>os. retried (eintr w) (x # os) \<longleftrightarrow> retried (eintr v) os) \<and>
          (\<forall>os. nat n = length t \<or> granted (x # os) = nat n + granted os))" by blast+
  show "n < 0 \<or> nat n \<le> length t" "written v = written w @ take (nat n) t" using n by simp_all
  show "written_all t w w'" if a: "written_all (drop (nat n) t) v w'"
  proof -
    obtain os where os: "outcomes v = os @ outcomes w'" "retried (eintr v) os" "written w' = written v @ drop (nat n) t"
      using a by (auto simp: written_all_def)
    show ?thesis
    proof (cases "outcomes w")
      case Nil
      then show ?thesis using os n o by (auto simp: written_all_def)
    next
      case (Cons x xs)
      then have "outcomes w = (x # os) @ outcomes w' \<and> retried (eintr w) (x # os)" using os o by auto
      then show ?thesis unfolding written_all_def using os(3) n(2) by (metis append.assoc append_take_drop_id)
    qed
  qed
  show "gave_up t w w'" if g: "gave_up (drop (nat n) t) v w'"
  proof -
    obtain os y where os: "outcomes v = os @ y # outcomes w'" "retried (eintr v) os" "\<not> retried (eintr v) (os @ [y])"
        "granted os < length (drop (nat n) t)" "written w' = written v @ take (granted os) (drop (nat n) t)"
      using g by (auto simp: gave_up_def)
    then obtain x where x: "outcomes w = x # outcomes v" "\<And>os. retried (eintr w) (x # os) \<longleftrightarrow> retried (eintr v) os"
        "granted (x # os) = nat n + granted os" using o by auto
    have "outcomes w = (x # os) @ y # outcomes w'" "retried (eintr w) (x # os)" "\<not> retried (eintr w) ((x # os) @ [y])"
      "granted (x # os) < length t" "written w' = written w @ take (granted (x # os)) t"
      using os x n by (simp_all add: take_add)
    then show ?thesis unfolding gave_up_def by blast
  qed
qed

lemma rio_writen_outcome:
  "rio_writen t w = (done, w') \<Longrightarrow> if done then written_all t w w' else gave_up t w w'"
proof (induction t w arbitrary: w' rule: rio_writen.induct)
  case (1 t w)
  show ?case
  proof (cases "t = []")
    case True
    then have "done" "w' = w" using 1(3) by (subst (asm) rio_writen.simps; simp)+
    then show ?thesis using True by (simp add: written_all_def)
  next
    case t: False
    obtain n v where f: "fd_write t w = (n, v)" by (cases "fd_write t w")
    have e: "rio_writen t w = (if n \<le> 0 then (if eintr v then rio_writen t v else (False, v))
        else rio_writen (drop (nat n) t) v)"
      using t f by (subst rio_writen.simps) simp
    show ?thesis
    proof (cases "0 < n \<or> eintr v")
      case again: True
      then have "rio_writen (drop (nat n) t) v = (done, w')" using e 1(3) by (cases "n \<le> 0") simp_all
      then have "if done then written_all (drop (nat n) t) v w' else gave_up (drop (nat n) t) v w'"
        using 1(1) [OF t refl f [symmetric]] 1(2) [OF t refl f [symmetric]] again by (cases "n \<le> 0") simp_all
      then show ?thesis using fd_write_again(3,4) [OF f t again] by (simp split: if_splits)
    next
      case False
      then have "\<not> done" "w' = v" using e 1(3) by simp_all
      moreover have "gave_up t w v"
        unfolding gave_up_def using f t False
        by (intro exI [of _ "[]"]) (auto simp: fd_write_def min_def split: list.splits writes.splits if_splits)
      ultimately show ?thesis by simp
    qed
  qed
qed

lemma reverse_loop_nth:
  "j < int (length s) \<Longrightarrow> length (reverse_loop i j s) = length s \<and>
     (\<forall>k < length s. reverse_loop i j s ! k = (if i \<le> k \<and> int k \<le> j then s ! nat (int i + j - int k) else s ! k))"
proof (induction i j s rule: reverse_loop.induct)
  case (1 i j s)
  show ?case
  proof (cases "int i < j")
    case True
    let ?s = "s[i := s ! nat j, nat j := s ! i]"
    have IH: "length (reverse_loop (i + 1) (j - 1) ?s) = length s \<and>
      (\<forall>k < length s. reverse_loop (i + 1) (j - 1) ?s ! k =
        (if i + 1 \<le> k \<and> int k \<le> j - 1 then ?s ! nat (int (i + 1) + (j - 1) - int k) else ?s ! k))"
      using 1 True by simp
    have e: "int (i + 1) + (j - 1) - int k = int i + j - int k" for k by simp
    have n: "?s ! k = (if k = nat j then s ! i else if k = i then s ! nat j else s ! k)" if "k < length s" for k
      using 1(2) True that by (simp add: nth_list_update)
    have "reverse_loop (i + 1) (j - 1) ?s ! k = (if i \<le> k \<and> int k \<le> j then s ! nat (int i + j - int k) else s ! k)"
      if k: "k < length s" for k
    proof -
      have "nat (int i + j - int k) < length s" if "i \<le> k" using that 1(2) k by linarith
      then show ?thesis
        using IH k n [OF k] n [of "nat (int i + j - int k)"] True unfolding e by (auto simp: nat_eq_iff)
    qed
    then show ?thesis using True IH by (subst (1 2) reverse_loop.simps) simp
  next
    case False
    then show ?thesis by (subst (1 2) reverse_loop.simps) (auto simp: le_less)
  qed
qed

lemma sio_reverse_rev: "sio_reverse s = rev s"
  using reverse_loop_nth [of "int (length s) - 1" s 0]
  by (intro nth_equalityI) (auto simp: sio_reverse_def rev_nth nat_diff_distrib' intro!: arg_cong [of _ _ "nth s"])

lemma digit_val_ltoa_char: "d < 36 \<Longrightarrow> d < b \<Longrightarrow> digit_val b (ltoa_char (int d)) = Some d"
proof -
  assume d: "d < 36" "d < b"
  have "list_all (\<lambda>d. map_of (zip digit_chars [0..<36]) (to_lower (ltoa_char (int d))) = Some d) [0..<36]" by code_simp
  then have "map_of (zip digit_chars [0..<36]) (to_lower (ltoa_char (int d))) = Some d"
    using d by (simp only: list_all_iff set_upt) simp
  then show ?thesis using d by (simp add: digit_val_def)
qed

lemma ltoa_digits_scan:
  assumes b: "2 \<le> b" "b \<le> 36"
  shows "0 \<le> v \<Longrightarrow> \<exists>ds. ltoa_digits v b = Some ds \<and> scan_digits (nat b) 0 (rev ds) = (v, [])"
proof (induction "nat v" arbitrary: v rule: less_induct)
  case (less v)
  have q: "v sdiv b = v div b" "v smod b = v mod b" using less.prems b
    by (simp_all add: signed_divide_int_def signed_modulo_int_def sgn_if minus_mult_div_eq_mod)
  define d where "d = nat (v mod b)"
  have d: "int d = v mod b" "d < nat b" using b by (simp_all add: d_def nat_less_iff)
  then have d36: "d < 36" using b by linarith
  have c: "digit_val (nat b) (ltoa_char (v mod b)) = Some d"
    using digit_val_ltoa_char [of d "nat b"] d d36 by simp
  show ?case
  proof (cases "0 < v div b")
    case True
    then have "v \<noteq> 0" by auto
    then have "v div b < v" using b less.prems by (intro int_div_less_self) auto
    then obtain ds where ds: "ltoa_digits (v div b) b = Some ds" "scan_digits (nat b) 0 (rev ds) = (v div b, [])"
      using less.hyps [of "v div b"] True by auto
    have "ltoa_digits v b = Some (ltoa_char (v mod b) # ds)"
      using q True ds(1) by (subst ltoa_digits.simps) (simp add: Let_def)
    moreover have "scan_digits (nat b) 0 (rev ds @ [ltoa_char (v mod b)]) = (v div b * int (nat b) + int d, [])"
      by (rule scan_digits_snoc [OF ds(2) c])
    ultimately show ?thesis using b d(1) by simp
  next
    case False
    then have z: "v div b = 0" "v mod b = v"
      using less.prems b pos_imp_zdiv_nonneg_iff [of b v] mult_div_mod_eq [of b v] by auto
    have "ltoa_digits v b = Some [ltoa_char (v mod b)]"
      using q False by (subst ltoa_digits.simps) (simp add: Let_def)
    then show ?thesis using c d z by simp
  qed
qed

text \<open>C34. \<open>sio_ltoa\<close> returns for every base from 2 to 36 and writes a sign and digits that denote the number,
  for every \<open>long\<close> but the smallest.\<close>

theorem sio_ltoa_correct:
  assumes "2 \<le> b" and "b \<le> 36" and "- (2 ^ 63) < v" and "v < 2 ^ 63"
  shows "\<exists>ds. sio_ltoa v b = Some ((if v < 0 then ''-'' else []) @ ds) \<and> scan_digits (nat b) 0 ds = (\<bar>v\<bar>, [])"
proof -
  have n: "long_neg v = - v"
  proof -
    have "- word_of_int v = (word_of_int (- v) :: long)" by simp
    then show ?thesis using assms(3,4) unfolding long_neg_def by (simp only:) (rule sint_word_of_int_long; simp)
  qed
  obtain ds where "ltoa_digits \<bar>v\<bar> b = Some ds" "scan_digits (nat b) 0 (rev ds) = (\<bar>v\<bar>, [])"
    using ltoa_digits_scan [OF assms(1,2), of "\<bar>v\<bar>"] by auto
  then show ?thesis using n by (auto simp: sio_ltoa_def sio_reverse_rev)
qed

lemma sio_ltoa_correct_witness: "\<exists>ds. sio_ltoa (- 255) 16 = Some (''-'' @ ds) \<and> scan_digits 16 0 ds = (255, [])"
  using sio_ltoa_correct [of 16 "- 255"] by simp

text \<open>The smallest number is its own negation, and its only digit is not one.\<close>

lemma sio_ltoa_min: "sio_ltoa (- (2 ^ 63)) 10 = Some ''-(''"
proof -
  have "char_of (40 :: int) = CHR ''(''" by code_simp
  then show ?thesis
  by (simp add: sio_ltoa_def long_neg_def sio_reverse_rev ltoa_digits.simps ltoa_char_def signed_divide_int_def signed_modulo_int_def)
qed

section \<open>What the functions return\<close>

text \<open>C14. Reading \<open>n\<close> bytes gives the next \<open>n\<close> bytes of the descriptor, or all that there are, however they
  arrive and however often a signal interrupts, and with the buffer exactly as without it; the result is -1
  just when the descriptor fails before the \<open>n\<close>th byte.\<close>

theorem rio_readn_correct:
  assumes "length (rio_buf rp) = RIO_BUFSIZE"
  shows "fst (rio_readn n fd) =
      (if length (contents fd) < n \<and> fails fd then None else Some (take n (contents fd))) \<and>
    fst (rio_readnb n (rio_readinitb fd rp)) = fst (rio_readn n fd)"
  using raw.loop_correct [where n = n and s = fd] buffered.loop_correct [OF rio_readinitb_ok [OF assms, of fd], of n]
  by (simp add: raw.reads_spec_def buffered.reads_spec_def rio_readinitb_stream)

definition empty_rio :: rio_t where
  "empty_rio = \<lparr>rio_fd = [], rio_cnt = 0, rio_bufptr = 0, rio_buf = replicate RIO_BUFSIZE NUL\<rparr>"

lemma rio_readn_correct_witness:
  "fst (rio_readnb 4 (rio_readinitb [Data ''abc'', Interrupted, Data ''de''] empty_rio)) = Some ''abcd''"
  using rio_readn_correct [of empty_rio 4 "[Data ''abc'', Interrupted, Data ''de'']"] by (simp add: empty_rio_def)

text \<open>C13. \<open>rio_readlineb\<close> reads what \<open>fgets\<close> reads from the unread bytes of the buffer and of the descriptor, and
  leaves the rest; the result is -1 just when the descriptor fails inside the line.\<close>

theorem rio_readlineb_correct:
  assumes "rio_ok rp" and "fgets (maxlen - 1) (rio_stream rp) = (l, r)" and "rio_readlineb maxlen rp = (res, rp')"
  shows "rio_ok rp' \<and>
    res = (if length l < maxlen - 1 \<and> NEWLINE \<notin> set l \<and> rio_fails rp then None else Some l) \<and>
    (res \<noteq> None \<longrightarrow> rio_stream rp' = r) \<and>
    (length l = maxlen - 1 \<or> NEWLINE \<in> set l \<longrightarrow> rio_fails rp' = rio_fails rp)"
  using buffered.line_correct [OF assms(1), of "maxlen - 1"] assms(2,3)
  by (simp add: buffered.line_spec_def rio_readlineb_def)

lemma rio_readlineb_correct_witness:
  "fst (rio_readlineb 10 (rio_readinitb [Data ''ab'', Data [CHR ''c'', NEWLINE, CHR ''d'']] empty_rio)) = Some (''abc'' @ [NEWLINE])"
proof -
  have ok: "rio_ok (rio_readinitb [Data ''ab'', Data [CHR ''c'', NEWLINE, CHR ''d'']] empty_rio)"
    by (rule rio_readinitb_ok) (simp add: empty_rio_def)
  have f: "fgets (10 - 1) (rio_stream (rio_readinitb [Data ''ab'', Data [CHR ''c'', NEWLINE, CHR ''d'']] empty_rio)) =
      (''abc'' @ [NEWLINE], ''d'')"
    by (simp add: rio_readinitb_stream eval_nat_numeral NEWLINE_def)
  show ?thesis using rio_readlineb_correct [OF ok f prod.collapse [symmetric]] by simp
qed

text \<open>
  C33. \<open>rio_writen\<close> returns, and it has written all bytes once and in their order when it says so: every call of
  \<open>write\<close> that took only some of them, and every one that was interrupted, was followed by another.  Otherwise it
  gave up at the first call that took nothing for another reason than an interrupt, and what the calls before it took
  is written.
\<close>

theorem rio_writen_correct:
  assumes "rio_writen t w = (done, w')"
  shows "(done \<longrightarrow> written w' = written w @ t \<and> (\<exists>os. outcomes w = os @ outcomes w' \<and> retried (eintr w) os)) \<and>
    (\<not> done \<longrightarrow> (\<exists>os x. outcomes w = os @ x # outcomes w' \<and> retried (eintr w) os \<and> \<not> retried (eintr w) (os @ [x]) \<and>
       granted os < length t \<and> written w' = written w @ take (granted os) t))"
  using rio_writen_outcome [OF assms] by (simp add: written_all_def gave_up_def split: if_splits)

lemma rio_writen_correct_witness:
  "written (snd (rio_writen ''abc'' \<lparr>outcomes = [Wrote 1, WriteIntr], written = [], eintr = False\<rparr>)) = ''abc''"
proof -
  let ?w = "\<lparr>outcomes = [Wrote 1, WriteIntr], written = [], eintr = False\<rparr>"
  have "fst (rio_writen ''abc'' ?w)" by (simp add: rio_writen.simps fd_write_def)
  then show ?thesis using rio_writen_correct [OF prod.collapse [symmetric], of "''abc''" ?w] by auto
qed

end
