(* ===== verification/Proxy.thy ===== *)
theory Proxy
  imports Rio
begin

text \<open>
  The web proxy of \<open>lab10/proxy.c\<close>: the URI parser, the exchange of one request and one response, and the
  log entry.

  A connection is the buffered input from one side and the sink to the other.  The messages on the error
  output are not modelled, and neither are the threads: two exchanges share only the lock around
  \<open>printf\<close>.
\<close>

definition MAXLINE :: nat where "MAXLINE = 8192"

definition CRLF :: string where "CRLF = [RETURN, NEWLINE]"

text \<open>\<open>strncasecmp\<close> against a text of \<open>n\<close> characters.\<close>

definition strncasecmp_eq :: "string \<Rightarrow> string \<Rightarrow> nat \<Rightarrow> bool" where
  "strncasecmp_eq a b n \<longleftrightarrow> map to_lower (take n a) = map to_lower (take n b)"

section \<open>Wrappers\<close>

text \<open>The wrappers of the proxy report an error and go on as if nothing had been read.\<close>

definition soft :: "string option \<times> 's \<Rightarrow> string \<times> 's" where
  "soft r = (case fst r of Some t \<Rightarrow> t | None \<Rightarrow> [], snd r)"

definition Rio_readn_w :: "chunk list \<Rightarrow> nat \<Rightarrow> string \<times> chunk list" where
  "Rio_readn_w fd n = soft (rio_readn n fd)"

definition Rio_readnb_w :: "rio_t \<Rightarrow> nat \<Rightarrow> string \<times> rio_t" where
  "Rio_readnb_w rp n = soft (rio_readnb n rp)"

definition Rio_readlineb_w :: "rio_t \<Rightarrow> nat \<Rightarrow> string \<times> rio_t" where
  "Rio_readlineb_w rp maxlen = soft (rio_readlineb maxlen rp)"

definition Rio_writen_w :: "sink \<Rightarrow> string \<Rightarrow> int \<times> sink" where
  "Rio_writen_w w t = (let (done, w) = rio_writen t w in (if done then int (length t) else - 1, w))"

section \<open>The URI\<close>

text \<open>The host, the path without its first slash, and the port.\<close>

definition parse_uri :: "string \<Rightarrow> (string \<times> string \<times> string) option" where
  "parse_uri uri =
     (if \<not> strncasecmp_eq uri ''http://'' 7 then None
      else
        let hostbegin = drop 7 uri;
            delim = (\<lambda>c. c \<in> {CHR '' '', CHR '':'', CHR ''/'', RETURN, NEWLINE});
            hostend = dropWhile (\<lambda>c. \<not> delim c) hostbegin
        in case hostend of
             [] \<Rightarrow> None
           | e # p \<Rightarrow>
               Some (takeWhile (\<lambda>c. \<not> delim c) hostbegin,
                     case strchr hostbegin CHR ''/'' of None \<Rightarrow> [] | Some path \<Rightarrow> tl path,
                     if e = CHR '':'' then takeWhile isdigit p else ''80''))"

section \<open>One exchange\<close>

text \<open>\<open>sscanf\<close> with three words.\<close>

definition scan_rest :: "string \<Rightarrow> string" where
  "scan_rest s = dropWhile (\<lambda>c. \<not> isspace c) (dropWhile isspace s)"

definition three_words :: "string \<Rightarrow> (string \<times> string \<times> string) option" where
  "three_words s =
     (let a = scan_word s; s1 = scan_rest s; b = scan_word s1; c = scan_word (scan_rest s1)
      in if a = [] \<or> b = [] \<or> c = [] then None else Some (a, b, c))"

text \<open>
  The test for the end of the request line; \<open>None\<close> when it reads before the buffer.
\<close>

definition line_ends :: "string \<Rightarrow> bool option" where
  "line_ends s =
     (if s = [] then None
      else if last s = NEWLINE then Some True
      else if length s = 1 then None
      else Some (s ! (length s - 2) = RETURN))"

definition content_length :: "string \<Rightarrow> int \<Rightarrow> int" where
  "content_length buf n = (if strncasecmp_eq buf ''Content-Length'' 14 then atoi (drop 15 buf) else n)"

text \<open>
  The loop over the header lines of the request: whether the empty line was reached, the announced size
  of the body, and the connection.
\<close>

partial_function (option) send_request_headers ::
  "int \<Rightarrow> rio_t \<Rightarrow> sink \<Rightarrow> (bool \<times> int \<times> rio_t \<times> sink) option" where
  "send_request_headers req_size rp w =
     (let (buf, rp) = Rio_readlineb_w rp MAXLINE
      in if buf = [] then Some (False, req_size, rp, w)
         else
           let buf = cstr buf; (m, w) = Rio_writen_w w buf
           in if m \<noteq> int (length buf) then Some (False, req_size, rp, w)
              else
                let req_size = content_length buf req_size
                in if buf = CRLF then Some (True, req_size, rp, w)
                   else send_request_headers req_size rp w)"

text \<open>
  The loop over those of the response counts the bytes in an int and does not look at the result of the write;
  there is no result when the count overflows.
\<close>

partial_function (option) send_response_headers ::
  "int \<Rightarrow> int \<Rightarrow> rio_t \<Rightarrow> sink \<Rightarrow> (bool \<times> int \<times> int \<times> rio_t \<times> sink) option" where
  "send_response_headers resp_size resp_total rp w =
     (let (buf, rp) = Rio_readlineb_w rp MAXLINE
      in if buf = [] then Some (False, resp_size, resp_total, rp, w)
         else
           do { resp_total \<leftarrow> int_add resp_total (int (length buf));
                let buf = cstr buf; (m, w) = Rio_writen_w w buf; resp_size = content_length buf resp_size
                in if buf = CRLF then Some (True, resp_size, resp_total, rp, w)
                   else send_response_headers resp_size resp_total rp w })"

text \<open>The loops over the bodies, byte by byte.\<close>

primrec send_body :: "nat \<Rightarrow> rio_t \<Rightarrow> sink \<Rightarrow> bool \<times> rio_t \<times> sink" where
  "send_body 0 rp w = (True, rp, w)"
| "send_body (Suc i) rp w =
     (let (buf, rp) = Rio_readnb_w rp 1
      in if buf = [] then (False, rp, w)
         else
           let (m, w) = Rio_writen_w w buf
           in if m \<noteq> 1 then (False, rp, w) else send_body i rp w)"

text \<open>
  How an exchange ends: the descriptors are closed, the process ends, or the code reads outside its
  buffer.  \<open>url_log\<close> is \<open>None\<close> while it has not been written.
\<close>

datatype ending = Closed | ProcessExits | OutOfBounds

record exchange =
  url_log :: "string option"
  size_log :: int
  client_out :: sink
  server_out :: "sink option"

definition send_response :: "rio_t \<Rightarrow> exchange \<Rightarrow> exchange option" where
  "send_response server_rio x =
     do { (ok, resp_size, resp_total, server_rio, w) \<leftarrow> send_response_headers 0 0 server_rio (client_out x);
          let x = x\<lparr>client_out := w\<rparr>;
          if \<not> ok then Some x
          else
            do { resp_total \<leftarrow> (if resp_size > 0 then int_add resp_total resp_size else Some resp_total);
                 let (ok, _, w) = send_body (nat resp_size) server_rio w;
                     x = x\<lparr>client_out := w\<rparr>
                 in Some (if \<not> ok then x else x\<lparr>size_log := resp_total\<rparr>) } }"

definition send_request ::
  "string \<Rightarrow> rio_t \<Rightarrow> rio_t \<Rightarrow> sink \<Rightarrow> exchange \<Rightarrow> exchange option" where
  "send_request line client_rio server_rio w x =
     (let (_, w) = Rio_writen_w w line
      in do { (ok, req_size, client_rio, w) \<leftarrow> send_request_headers 0 client_rio w;
              if \<not> ok then Some (x\<lparr>server_out := Some w\<rparr>)
              else
                let (ok, _, w) = send_body (nat req_size) client_rio w;
                    x = x\<lparr>server_out := Some w\<rparr>
                in if \<not> ok then Some x else send_response server_rio x })"

text \<open>
  \<open>doit\<close>.  The buffers \<open>client_rio\<close> and \<open>server_rio\<close> are uninitialised objects; \<open>addresses\<close> is what
  \<open>getaddrinfo\<close> lists for a host and a port, each address with its descriptors when it can be reached.
\<close>

definition doit ::
  "(string \<Rightarrow> string \<Rightarrow> (chunk list \<times> sink) attempt list option) \<Rightarrow> rio_t \<Rightarrow> rio_t \<Rightarrow> chunk list \<Rightarrow> sink \<Rightarrow>
     (ending \<times> exchange) option" where
  "doit addresses client_rio server_rio clientfd w =
     (let x = \<lparr>url_log = None, size_log = 0, client_out = w, server_out = None\<rparr>;
          (buf, client_rio) = Rio_readlineb_w (rio_readinitb clientfd client_rio) MAXLINE
      in if buf = [] then Some (Closed, x)
         else
           let buf = cstr buf
           in case line_ends buf of
                None \<Rightarrow> Some (OutOfBounds, x)
              | Some False \<Rightarrow> Some (Closed, x)
              | Some True \<Rightarrow>
                  (case three_words buf of
                     None \<Rightarrow> Some (Closed, x)
                   | Some (method, uri, version) \<Rightarrow>
                       let x = x\<lparr>url_log := Some uri\<rparr>
                       in if version \<noteq> ''HTTP/1.1'' then Some (Closed, x)
                          else case parse_uri uri of
                                 None \<Rightarrow> Some (Closed, x)
                               | Some (hostname, pathname, port) \<Rightarrow>
                                   (case Open_clientfd (addresses hostname port) of
                                      Exits n \<Rightarrow> Some (ProcessExits, x)
                                    | Returns (serverfd, sout) \<Rightarrow>
                                        map_option (Pair Closed)
                                          (send_request (method @ '' /'' @ pathname @ '' '' @ version @ CRLF)
                                             client_rio (rio_readinitb serverfd server_rio) sout x))))"

section \<open>The log\<close>

text \<open>
  The entry, from the formatted time and the address in host byte order; \<open>None\<close> when it does not fit its
  array or the URI was never written.
\<close>

definition format_log_entry :: "string \<Rightarrow> 32 word \<Rightarrow> string option \<Rightarrow> int \<Rightarrow> string option" where
  "format_log_entry time_str host uri n =
     do { uri \<leftarrow> uri;
          let byte = (\<lambda>n. show_nat (unat (drop_bit n host AND 255)));
          let entry = time_str @ '': '' @ byte 24 @ ''.'' @ byte 16 @ ''.'' @ byte 8 @ ''.'' @ byte 0 @
                '' '' @ uri @ '' '' @ show_int n;
          if length entry < MAXLINE then Some entry else None }"

text \<open>The thread of one connection prints one line, if it gets there.\<close>

definition thread ::
  "(string \<Rightarrow> string \<Rightarrow> (chunk list \<times> sink) attempt list option) \<Rightarrow> rio_t \<Rightarrow> rio_t \<Rightarrow> string \<Rightarrow> 32 word \<Rightarrow>
     chunk list \<Rightarrow> sink \<Rightarrow> string option" where
  "thread addresses client_rio server_rio time_str host connfd w =
     do { (e, x) \<leftarrow> doit addresses client_rio server_rio connfd w;
          if e \<noteq> Closed then None
          else map_option (\<lambda>s. s @ [NEWLINE]) (format_log_entry time_str host (url_log x) (size_log x)) }"

end
