(* ===== verification/ProxyTheorems.thy ===== *)
theory ProxyTheorems
  imports RioReaders Proxy
begin

text \<open>
  Theorems about the proxy of \<open>lab10/proxy.c\<close>: what \<open>parse_uri\<close> makes of a URI, that an exchange forwards
  the request and the response, and where it does not get so far.
\<close>

section \<open>Writing and reading what is sent\<close>

text \<open>A sink that takes bytes at every call, or is interrupted.\<close>

definition steady :: "sink \<Rightarrow> bool" where
  "steady w \<longleftrightarrow> WriteErr \<notin> set (outcomes w) \<and> Wrote 0 \<notin> set (outcomes w)"

lemma rio_writen_steady:
  "steady w \<Longrightarrow> \<exists>w'. rio_writen t w = (True, w') \<and> written w' = written w @ t \<and> steady w'"
proof (induction t w rule: rio_writen.induct)
  case (1 t w)
  show ?case
  proof (cases "t = []")
    case True
    then show ?thesis using 1(3) by (subst rio_writen.simps) simp
  next
    case t: False
    obtain n v where f: "fd_write t w = (n, v)" by (cases "fd_write t w")
    have v: "steady v" "written v = written w @ take (nat n) t" "n \<le> 0 \<longrightarrow> eintr v"
      using f t 1(3) by (auto simp: fd_write_def steady_def min_def split: list.splits writes.splits if_splits)
    have e: "rio_writen t w = (if n \<le> 0 then (if eintr v then rio_writen t v else (False, v))
        else rio_writen (drop (nat n) t) v)"
      using t f by (subst rio_writen.simps) simp
    show ?thesis
    proof (cases "n \<le> 0")
      case True
      then show ?thesis using 1(1) [OF t refl f [symmetric]] v e by auto
    next
      case False
      then show ?thesis using 1(2) [OF t refl f [symmetric]] v e by auto
    qed
  qed
qed

lemma Rio_writen_w_steady:
  assumes "steady w"
  obtains w' where "Rio_writen_w w t = (int (length t), w')" "written w' = written w @ t" "steady w'"
  using rio_writen_steady [OF assms, of t] by (auto simp: Rio_writen_w_def)

lemma Rio_readlineb_w_line:
  assumes "rio_ok rp" and "rio_stream rp = l @ NEWLINE # r" and "NEWLINE \<notin> set l" and "length l < maxlen - 1"
  obtains rp' where "Rio_readlineb_w rp maxlen = (l @ [NEWLINE], rp')" "rio_ok rp'" "rio_stream rp' = r"
proof -
  obtain res rp' where e: "rio_readlineb maxlen rp = (res, rp')" by (cases "rio_readlineb maxlen rp")
  have "fgets (maxlen - 1) (rio_stream rp) = (l @ [NEWLINE], r)" using fgets_line [OF assms(3,4), of r] assms(2) by simp
  from buffered.line_correct [OF assms(1), of "maxlen - 1"] this e
  have "rio_ok rp'" "res = Some (l @ [NEWLINE])" "rio_stream rp' = r"
    by (auto simp: buffered.line_spec_def rio_readlineb_def)
  then show ?thesis using that e by (simp add: Rio_readlineb_w_def soft_def)
qed

lemma Rio_readnb_w_byte:
  assumes "rio_ok rp" and "rio_stream rp = c # r"
  obtains rp' where "Rio_readnb_w rp 1 = ([c], rp')" "rio_ok rp'" "rio_stream rp' = r"
  using buffered.loop_correct [OF assms(1), of 1] assms(2) that [of "snd (rio_readnb 1 rp)"]
  by (simp add: buffered.reads_spec_def Rio_readnb_w_def soft_def)

section \<open>Header blocks\<close>

definition header_ok :: "string \<Rightarrow> bool" where
  "header_ok h \<longleftrightarrow> NEWLINE \<notin> set h \<and> NUL \<notin> set h \<and> length h < MAXLINE - 1 \<and> h \<noteq> [RETURN]"

definition header_text :: "string list \<Rightarrow> string" where
  "header_text hs = concat (map (\<lambda>h. h @ [NEWLINE]) hs) @ CRLF"

definition announced :: "int \<Rightarrow> string list \<Rightarrow> int" where
  "announced n hs = foldl (\<lambda>n h. content_length (h @ [NEWLINE]) n) n hs"

lemma cstr_id: "NUL \<notin> set s \<Longrightarrow> cstr s = s"
  by (simp add: cstr_def)  (metis takeWhile_eq_all_conv)

lemma content_length_CRLF [simp]: "content_length CRLF n = n"
  by (simp add: content_length_def strncasecmp_eq_def CRLF_def)

lemma cstr_header: "header_ok h \<Longrightarrow> cstr (h @ [NEWLINE]) = h @ [NEWLINE]"
  by (rule cstr_id) (simp add: header_ok_def NEWLINE_def NUL_def)

lemma cstr_CRLF [simp]: "cstr CRLF = CRLF"
  by (rule cstr_id) (simp add: CRLF_def NEWLINE_def RETURN_def NUL_def)

lemma CRLF_line: "CRLF = [RETURN] @ [NEWLINE]" "NEWLINE \<notin> set [RETURN]" "length [RETURN] < MAXLINE - 1"
  by (simp_all add: CRLF_def NEWLINE_def RETURN_def MAXLINE_def)

lemma send_request_headers_text:
  assumes "list_all header_ok hs" and "rio_ok rp" and "rio_stream rp = header_text hs @ r" and "steady w"
  shows "\<exists>rp' w'. send_request_headers n rp w = Some (True, announced n hs, rp', w') \<and> rio_ok rp' \<and>
    rio_stream rp' = r \<and> written w' = written w @ header_text hs \<and> steady w'"
  using assms
proof (induction hs arbitrary: n rp w)
  case Nil
  then have "rio_stream rp = [RETURN] @ NEWLINE # r" by (simp add: header_text_def CRLF_def)
  from Rio_readlineb_w_line [OF Nil.prems(2) this CRLF_line(2,3)] obtain rp' where
    r: "Rio_readlineb_w rp MAXLINE = (CRLF, rp')" "rio_ok rp'" "rio_stream rp' = r" unfolding CRLF_line(1) by blast
  obtain w' where w: "Rio_writen_w w CRLF = (int (length CRLF), w')" "written w' = written w @ CRLF" "steady w'"
    using Rio_writen_w_steady [OF Nil.prems(4)] by blast
  have "CRLF \<noteq> []" by (simp add: CRLF_def)
  then show ?case using r w
    by (subst send_request_headers.simps) (simp add: header_text_def announced_def)
next
  case (Cons h hs)
  have h: "header_ok h" using Cons.prems(1) by simp
  let ?l = "h @ [NEWLINE]"
  have "rio_stream rp = h @ NEWLINE # header_text hs @ r" using Cons.prems(3) by (simp add: header_text_def)
  from Rio_readlineb_w_line [OF Cons.prems(2) this] obtain rp' where
    r: "Rio_readlineb_w rp MAXLINE = (?l, rp')" "rio_ok rp'" "rio_stream rp' = header_text hs @ r"
    using h by (auto simp: header_ok_def)
  obtain w' where w: "Rio_writen_w w ?l = (int (length ?l), w')" "written w' = written w @ ?l" "steady w'"
    using Rio_writen_w_steady [OF Cons.prems(4)] by blast
  have "?l \<noteq> CRLF" using h by (auto simp: header_ok_def CRLF_def)
  then have "send_request_headers n rp w = send_request_headers (content_length ?l n) rp' w'"
    using r w cstr_header [OF h] by (subst send_request_headers.simps) simp
  moreover obtain rp'' w'' where "send_request_headers (content_length ?l n) rp' w' = Some (True, announced (content_length ?l n) hs, rp'', w'')"
      "rio_ok rp''" "rio_stream rp'' = r" "written w'' = written w' @ header_text hs" "steady w''"
    using Cons.IH [OF _ r(2,3) w(3), of "content_length ?l n"] Cons.prems(1) by auto
  ultimately show ?case using w(2) by (simp add: announced_def header_text_def)
qed

lemma send_response_headers_text:
  assumes "list_all header_ok hs" and "rio_ok rp" and "rio_stream rp = header_text hs @ r" and "steady w"
    and "0 \<le> t" and "t + int (length (header_text hs)) < 2 ^ 31"
  shows "\<exists>rp' w'. send_response_headers n t rp w = Some (True, announced n hs, t + int (length (header_text hs)), rp', w') \<and>
    rio_ok rp' \<and> rio_stream rp' = r \<and> written w' = written w @ header_text hs \<and> steady w'"
  using assms
proof (induction hs arbitrary: n t rp w)
  case Nil
  then have "rio_stream rp = [RETURN] @ NEWLINE # r" by (simp add: header_text_def CRLF_def)
  from Rio_readlineb_w_line [OF Nil.prems(2) this CRLF_line(2,3)] obtain rp' where
    r: "Rio_readlineb_w rp MAXLINE = (CRLF, rp')" "rio_ok rp'" "rio_stream rp' = r" unfolding CRLF_line(1) by blast
  obtain w' where w: "Rio_writen_w w CRLF = (int (length CRLF), w')" "written w' = written w @ CRLF" "steady w'"
    using Rio_writen_w_steady [OF Nil.prems(4)] by blast
  have "CRLF \<noteq> []" by (simp add: CRLF_def)
  then show ?case using r w
      Nil.prems(5,6)
    by (subst send_response_headers.simps) (simp add: header_text_def announced_def Let_def int_add_def)
next
  case (Cons h hs)
  have h: "header_ok h" using Cons.prems(1) by simp
  let ?l = "h @ [NEWLINE]"
  have "rio_stream rp = h @ NEWLINE # header_text hs @ r" using Cons.prems(3) by (simp add: header_text_def)
  from Rio_readlineb_w_line [OF Cons.prems(2) this] obtain rp' where
    r: "Rio_readlineb_w rp MAXLINE = (?l, rp')" "rio_ok rp'" "rio_stream rp' = header_text hs @ r"
    using h by (auto simp: header_ok_def)
  obtain w' where w: "Rio_writen_w w ?l = (int (length ?l), w')" "written w' = written w @ ?l" "steady w'"
    using Rio_writen_w_steady [OF Cons.prems(4)] by blast
  have t: "0 \<le> t + int (length ?l)" "t + int (length ?l) + int (length (header_text hs)) < 2 ^ 31"
    using Cons.prems(5,6) by (simp_all add: header_text_def)
  then have "int_add t (int (length ?l)) = Some (t + int (length ?l))" by (simp add: int_add_def)
  moreover have "?l \<noteq> CRLF" using h by (auto simp: header_ok_def CRLF_def)
  ultimately have "send_response_headers n t rp w = send_response_headers (content_length ?l n) (t + int (length ?l)) rp' w'"
    using r w cstr_header [OF h] by (subst send_response_headers.simps) (simp add: Let_def)
  moreover obtain rp'' w'' where "send_response_headers (content_length ?l n) (t + int (length ?l)) rp' w' =
        Some (True, announced (content_length ?l n) hs, t + int (length ?l) + int (length (header_text hs)), rp'', w'')"
      "rio_ok rp''" "rio_stream rp'' = r" "written w'' = written w' @ header_text hs" "steady w''"
    using Cons.IH [OF _ r(2,3) w(3) t, of "content_length ?l n"] Cons.prems(1) by auto
  ultimately show ?case using w(2) by (simp add: announced_def header_text_def)
qed

lemma send_body_stream:
  assumes "rio_ok rp" and "rio_stream rp = body @ r" and "steady w"
  shows "\<exists>rp' w'. send_body (length body) rp w = (True, rp', w') \<and> rio_ok rp' \<and> rio_stream rp' = r \<and>
    written w' = written w @ body \<and> steady w'"
  using assms
proof (induction body arbitrary: rp w)
  case (Cons c body)
  obtain rp' where r: "Rio_readnb_w rp 1 = ([c], rp')" "rio_ok rp'" "rio_stream rp' = body @ r"
    using Rio_readnb_w_byte [OF Cons.prems(1), of c "body @ r"] Cons.prems(2) by auto
  obtain w' where w: "Rio_writen_w w [c] = (int (length [c]), w')" "written w' = written w @ [c]" "steady w'"
    using Rio_writen_w_steady [OF Cons.prems(3)] by blast
  show ?case using Cons.IH [OF r(2,3) w(3)] r(1) w(1,2) by (auto simp del: One_nat_def)
qed simp

section \<open>Request lines\<close>

definition word_ok :: "string \<Rightarrow> bool" where
  "word_ok a \<longleftrightarrow> a \<noteq> [] \<and> list_all (\<lambda>c. \<not> isspace c \<and> c \<noteq> NUL) a"

lemma word_scan: "word_ok a \<Longrightarrow> isspace c \<Longrightarrow> scan_word (a @ c # s) = a" "word_ok a \<Longrightarrow> isspace c \<Longrightarrow> scan_rest (a @ c # s) = c # s"
  "isspace c \<Longrightarrow> scan_word (c # s) = scan_word s" "isspace c \<Longrightarrow> scan_rest (c # s) = scan_rest s"
proof -
  have d: "dropWhile isspace (a @ t) = a @ t" if "word_ok a" for t using that by (cases a) (auto simp: word_ok_def)
  have w: "takeWhile (\<lambda>c. \<not> isspace c) (a @ c # s) = a" "dropWhile (\<lambda>c. \<not> isspace c) (a @ c # s) = c # s"
    if "word_ok a" "isspace c"
    using that by (auto simp: word_ok_def list_all_iff takeWhile_append dropWhile_append3)
  show "word_ok a \<Longrightarrow> isspace c \<Longrightarrow> scan_word (a @ c # s) = a" using d w by (simp add: scan_word_def)
  show "word_ok a \<Longrightarrow> isspace c \<Longrightarrow> scan_rest (a @ c # s) = c # s" using d w by (simp add: scan_rest_def)
qed (simp_all add: scan_word_def scan_rest_def)

lemma space_isspace [simp]: "isspace CHR '' ''" "isspace RETURN" "isspace NEWLINE"
  by (simp_all add: isspace_def)

definition request_line :: "string \<Rightarrow> string \<Rightarrow> string" where
  "request_line method uri = method @ '' '' @ uri @ '' HTTP/1.1'' @ CRLF"

lemma three_words_request:
  assumes "word_ok method" and "word_ok uri"
  shows "three_words (request_line method uri) = Some (method, uri, ''HTTP/1.1'')"
proof -
  have v: "word_ok ''HTTP/1.1''" by (simp add: word_ok_def isspace_def NUL_def TAB_def NEWLINE_def RETURN_def)
  have "scan_word (''HTTP/1.1'' @ RETURN # [NEWLINE]) = ''HTTP/1.1''" by (rule word_scan(1) [OF v]) simp
  then show ?thesis
    using assms word_scan(1,2) [OF assms(1), of "CHR '' ''"] word_scan(1,2) [OF assms(2), of "CHR '' ''"] word_scan(3,4)
    by (simp add: three_words_def request_line_def CRLF_def word_ok_def)
qed

lemma line_ends_request: "line_ends (request_line method uri) = Some True"
  by (simp add: line_ends_def request_line_def CRLF_def)

lemma cstr_request: "word_ok method \<Longrightarrow> word_ok uri \<Longrightarrow> cstr (request_line method uri) = request_line method uri"
  by (rule cstr_id) (auto simp: request_line_def CRLF_def word_ok_def list_all_iff NUL_def NEWLINE_def RETURN_def)

lemma read_request_line:
  assumes "length (rio_buf rp) = RIO_BUFSIZE" and "contents fd = request_line method uri @ r"
    and "word_ok method" "word_ok uri" "length (request_line method uri) < MAXLINE"
  shows "\<exists>rp'. Rio_readlineb_w (rio_readinitb fd rp) MAXLINE = (request_line method uri, rp') \<and> rio_ok rp' \<and> rio_stream rp' = r"
proof -
  let ?l = "method @ '' '' @ uri @ '' HTTP/1.1'' @ [RETURN]"
  have "rio_stream (rio_readinitb fd rp) = ?l @ NEWLINE # r"
    using assms(2) by (simp add: rio_readinitb_stream request_line_def CRLF_def)
  moreover have "NEWLINE \<notin> set ?l"
    using assms(3,4) by (auto simp: word_ok_def list_all_iff NEWLINE_def RETURN_def isspace_def)
  moreover have "length ?l < MAXLINE - 1" using assms(5) by (simp add: request_line_def CRLF_def)
  ultimately show ?thesis
    using Rio_readlineb_w_line [OF rio_readinitb_ok [OF assms(1)], of fd ?l r MAXLINE]
    by (auto simp: request_line_def CRLF_def)
qed

section \<open>The exchange\<close>

text \<open>C9. A well-formed request to a server that answers: the proxy sends the server the request line with the
  path only, the headers and the body, and sends the client the headers and the body of the response, each
  byte once and in order, however the bytes arrive and however few are taken at a time; it logs the URI and
  the number of bytes of the response.  Well-formed: the lines fit the buffers, the bodies are as long as their
  last Content-Length announces, and the response, which is counted in an int, is shorter than 2 GiB; the sinks
  take bytes at every call that is not interrupted.\<close>

theorem doit_forwards:
  assumes req: "contents clientfd = request_line method uri @ header_text hs @ body @ rest"
    and words: "word_ok method" "word_ok uri" "length (request_line method uri) < MAXLINE"
    and uri: "parse_uri uri = Some (host, path, port)"
    and hs: "list_all header_ok hs" "announced 0 hs = int (length body)"
    and server: "open_clientfd (addresses host port) = Opened (serverfd, sout)"
    and resp: "contents serverfd = header_text hs' @ body' @ rest'"
    and hs': "list_all header_ok hs'" "announced 0 hs' = int (length body')"
    and short: "length (header_text hs' @ body') < 2 ^ 31"
    and sinks: "steady w" "steady sout"
    and bufs: "length (rio_buf client_rio) = RIO_BUFSIZE" "length (rio_buf server_rio) = RIO_BUFSIZE"
  shows "\<exists>cout sout'. doit addresses client_rio server_rio clientfd w =
      Some (Closed, \<lparr>url_log = Some uri, size_log = int (length (header_text hs' @ body')), client_out = cout,
        server_out = Some sout'\<rparr>) \<and>
    written cout = written w @ header_text hs' @ body' \<and>
    written sout' = written sout @ method @ '' /'' @ path @ '' HTTP/1.1'' @ CRLF @ header_text hs @ body"
proof -
  let ?c = "rio_readinitb clientfd client_rio" and ?s = "rio_readinitb serverfd server_rio"
  obtain c1 where c1: "Rio_readlineb_w ?c MAXLINE = (request_line method uri, c1)" "rio_ok c1"
      "rio_stream c1 = header_text hs @ body @ rest"
    using read_request_line [OF bufs(1) req words] by blast
  let ?r = "method @ '' /'' @ path @ '' '' @ ''HTTP/1.1'' @ CRLF"
  obtain s1 where s1: "Rio_writen_w sout ?r = (int (length ?r), s1)" "written s1 = written sout @ ?r" "steady s1"
    using Rio_writen_w_steady [OF sinks(2)] by blast
  obtain c2 s2 where c2: "send_request_headers 0 c1 s1 = Some (True, announced 0 hs, c2, s2)" "rio_ok c2"
      "rio_stream c2 = body @ rest" "written s2 = written s1 @ header_text hs" "steady s2"
    using send_request_headers_text [OF hs(1) c1(2,3) s1(3)] by blast
  obtain c3 s3 where c3: "send_body (length body) c2 s2 = (True, c3, s3)" "written s3 = written s2 @ body"
    using send_body_stream [OF c2(2,3,5)] by blast
  have "rio_stream ?s = header_text hs' @ body' @ rest'" using resp by (simp add: rio_readinitb_stream)
  then obtain t1 w1 where t1: "send_response_headers 0 0 ?s w =
      Some (True, announced 0 hs', 0 + int (length (header_text hs')), t1, w1)" "rio_ok t1"
      "rio_stream t1 = body' @ rest'" "written w1 = written w @ header_text hs'" "steady w1"
    using send_response_headers_text [OF hs'(1) rio_readinitb_ok [OF bufs(2)] _ sinks(1), of serverfd "body' @ rest'" 0 0] short by auto
  obtain t2 w2 where t2: "send_body (length body') t1 w1 = (True, t2, w2)" "written w2 = written w1 @ body'"
    using send_body_stream [OF t1(2,3,5)] by blast
  have o: "Open_clientfd (addresses host port) = Returns (serverfd, sout)" using server by (simp add: Open_clientfd_def)
  have n: "request_line method uri \<noteq> []" by (simp add: request_line_def)
  have r: "send_response ?s x = Some (x\<lparr>client_out := w2, size_log := int (length (header_text hs' @ body'))\<rparr>)"
    if "client_out x = w" for x
    using t1(1) t2(1) hs'(2) that short by (simp add: send_response_def int_add_def)
  have q: "send_request ?r c1 ?s sout x =
      Some (x\<lparr>client_out := w2, size_log := int (length (header_text hs' @ body')), server_out := Some s3\<rparr>)"
    if "client_out x = w" for x
    using s1(1) c2(1) c3(1) hs(2) r that by (simp add: send_request_def)
  have "doit addresses client_rio server_rio clientfd w =
      Some (Closed, \<lparr>url_log = Some uri, size_log = int (length (header_text hs' @ body')), client_out = w2,
        server_out = Some s3\<rparr>)"
    using c1(1) n cstr_request [OF words(1,2)] three_words_request [OF words(1,2)] uri o q
    by (simp add: doit_def line_ends_request)
  then show ?thesis using s1(2) c2(4) c3(2) t1(4) t2(2) by simp
qed

lemma doit_forwards_witness:
  "\<exists>cout sout. doit (\<lambda>h p. if h = ''a'' \<and> p = ''80''
        then Some [Refuses True, Accepts ([Data (''HTTP/1.1 200'' @ CRLF @ ''Content-Length: 2'' @ CRLF @ CRLF), Interrupted, Data ''hi''],
             \<lparr>outcomes = [Wrote 1, WriteIntr], written = [], eintr = False\<rparr>)]
        else None) empty_rio empty_rio [Data ''GET http:'', Data (''//a/b HTTP/1.1'' @ CRLF), Data CRLF]
      \<lparr>outcomes = [], written = [], eintr = False\<rparr> = Some (Closed, \<lparr>url_log = Some ''http://a/b'', size_log = 37,
        client_out = cout, server_out = Some sout\<rparr>) \<and>
    written cout = ''HTTP/1.1 200'' @ CRLF @ ''Content-Length: 2'' @ CRLF @ CRLF @ ''hi'' \<and>
    written sout = ''GET /b HTTP/1.1'' @ CRLF @ CRLF"
proof -
  let ?hs = "[''HTTP/1.1 200'' @ [RETURN], ''Content-Length: 2'' @ [RETURN]]"
  have c: "[RETURN, NEWLINE] = CRLF" by (simp add: CRLF_def)
  have a: "announced 0 ?hs = int (length ''hi'')" by code_simp
  have h: "list_all header_ok ?hs" by (simp add: header_ok_def MAXLINE_def NEWLINE_def RETURN_def NUL_def)
  have t: "header_text ?hs = ''HTTP/1.1 200'' @ CRLF @ ''Content-Length: 2'' @ CRLF @ CRLF"
    by (simp add: header_text_def CRLF_def)
  have w: "word_ok ''GET''" "word_ok ''http://a/b''" "length (request_line ''GET'' ''http://a/b'') < MAXLINE"
    "parse_uri ''http://a/b'' = Some (''a'', ''b'', ''80'')"
    by (simp_all add: word_ok_def isspace_def NUL_def TAB_def NEWLINE_def RETURN_def request_line_def CRLF_def MAXLINE_def)
      code_simp
  let ?s = "\<lparr>outcomes = [Wrote 1, WriteIntr], written = [], eintr = False\<rparr>"
  let ?fd = "[Data (''HTTP/1.1 200'' @ CRLF @ ''Content-Length: 2'' @ CRLF @ CRLF), Interrupted, Data ''hi'']"
  have e: "length (rio_buf empty_rio) = RIO_BUFSIZE" by (simp add: empty_rio_def)
  have l: "length (header_text ?hs @ ''hi'') = 37" by (simp add: header_text_def CRLF_def)
  show ?thesis
    using doit_forwards [of "[Data ''GET http:'', Data (''//a/b HTTP/1.1'' @ CRLF), Data CRLF]" "''GET''" "''http://a/b''"
        "[]" "[]" "[]" "''a''" "''b''" "''80''" "\<lambda>h p. if h = ''a'' \<and> p = ''80'' then Some [Refuses True, Accepts (?fd, ?s)] else None"
        ?fd ?s ?hs "''hi''" "[]" "\<lparr>outcomes = [], written = [], eintr = False\<rparr>" empty_rio empty_rio] w a h t e l
    by (simp add: request_line_def header_text_def announced_def open_clientfd_def steady_def CRLF_def)
qed

text \<open>
  A host that cannot be reached: \<open>Open_clientfd\<close> does not return a negative number, which \<open>doit\<close> tests for,
  but ends the process, and with it every other connection.
\<close>

lemma unreachable_host_ends_proxy:
  assumes "contents clientfd = request_line method uri @ r" and "word_ok method" and "word_ok uri"
    and "length (request_line method uri) < MAXLINE" and "parse_uri uri = Some (host, path, port)"
    and "open_clientfd (addresses host port) = Failure n" and "length (rio_buf client_rio) = RIO_BUFSIZE"
  shows "map_option fst (doit addresses client_rio server_rio clientfd w) = Some ProcessExits"
proof -
  obtain c1 where "Rio_readlineb_w (rio_readinitb clientfd client_rio) MAXLINE = (request_line method uri, c1)"
    using read_request_line [OF assms(7,1-4)] by blast
  moreover have "request_line method uri \<noteq> []" by (simp add: request_line_def)
  ultimately show ?thesis
    using cstr_request [OF assms(2,3)] three_words_request [OF assms(2,3)] assms(5,6)
    by (simp add: doit_def line_ends_request Open_clientfd_def)
qed

section \<open>The URI\<close>

text \<open>\<open>parse_uri\<close> returns the host, the path and the port of a URI with a path, whatever the case of its
  scheme, and port 80 when the URI names none.\<close>

lemma parse_uri_correct:
  assumes "map to_lower scheme = ''http://''" and "set host \<inter> set ('' :/'' @ CRLF) = {}" and "list_all isdigit port"
  shows "parse_uri (scheme @ host @ (if named then CHR '':'' # port else []) @ ''/'' @ path) =
    Some (host, path, if named then port else ''80'')"
proof -
  let ?p = "if named then CHR '':'' # port else []"
  let ?d = "\<lambda>c. c \<in> {CHR '' '', CHR '':'', CHR ''/'', RETURN, NEWLINE}"
  have l: "length scheme = 7" using arg_cong [OF assms(1), of length] by simp
  then have s: "strncasecmp_eq (scheme @ t) ''http://'' 7" "drop 7 (scheme @ t) = t" for t
    using assms(1) by (simp_all add: strncasecmp_eq_def to_lower_def)
  have h: "\<not> ?d c" if "c \<in> set host" for c using assms(2) that by (auto simp: CRLF_def)
  obtain e r where er: "?p @ ''/'' @ path = e # r" "?d e" by (cases named) auto
  have tw: "takeWhile (\<lambda>c. \<not> ?d c) (host @ ?p @ ''/'' @ path) = host" "dropWhile (\<lambda>c. \<not> ?d c) (host @ ?p @ ''/'' @ path) = e # r"
    unfolding er(1) using h er(2) by (auto simp: takeWhile_append dropWhile_append3)
  have ns: "CHR ''/'' \<notin> set host" "CHR ''/'' \<notin> set port"
    using assms(2,3) by (auto simp: list_all_iff isdigit_def)
  have "strchr ((host @ ?p) @ CHR ''/'' # path) CHR ''/'' = Some (CHR ''/'' # path)"
    using ns by (intro strchr_past) auto
  moreover have "takeWhile isdigit (port @ ''/'' @ path) = port"
    using assms(3) by (simp add: list_all_iff takeWhile_append isdigit_def)
  moreover have "e = CHR '':'' \<longleftrightarrow> named" "named \<Longrightarrow> r = port @ ''/'' @ path" using er(1) by (auto split: if_splits)
  ultimately show ?thesis using tw s [of "host @ ?p @ ''/'' @ path"] by (simp add: parse_uri_def Let_def)
qed

lemma parse_uri_correct_witness:
  "parse_uri ''HTTP://www.example.org:8080/x/y'' = Some (''www.example.org'', ''x/y'', ''8080'')"
  using parse_uri_correct [of "''HTTP://''" "''www.example.org''" "''8080''" True "''x/y''"]
  by (simp add: to_lower_def CRLF_def NEWLINE_def RETURN_def isdigit_def)

text \<open>Without a slash behind the host there is no end of the host to find.\<close>

lemma parse_uri_without_path: "parse_uri ''http://www.example.org'' = None"
  by code_simp

section \<open>The log\<close>

text \<open>A client that sends nothing is logged with a URI that was never written.\<close>

lemma empty_request_logs_garbage:
  assumes "contents clientfd = []" and "length (rio_buf client_rio) = RIO_BUFSIZE"
  shows "thread addresses client_rio server_rio time_str host clientfd w = None"
proof -
  have "fst (rio_readlineb MAXLINE (rio_readinitb clientfd client_rio)) \<in> {None, Some []}"
    using buffered.line_correct [OF rio_readinitb_ok [OF assms(2)], of "MAXLINE - 1" clientfd] assms(1)
    by (simp add: buffered.line_spec_def rio_readlineb_def rio_readinitb_stream MAXLINE_def eval_nat_numeral)
  then have "fst (Rio_readlineb_w (rio_readinitb clientfd client_rio) MAXLINE) = []"
    by (auto simp: Rio_readlineb_w_def soft_def)
  then show ?thesis
    by (cases "Rio_readlineb_w (rio_readinitb clientfd client_rio) MAXLINE")
      (simp add: thread_def doit_def format_log_entry_def)
qed

text \<open>A URI that fills its buffer does not fit the log entry.\<close>

lemma long_uri_overflows_log:
  "MAXLINE \<le> length uri + length time_str \<Longrightarrow> format_log_entry time_str host (Some uri) n = None"
  by (simp add: format_log_entry_def Let_def)

end
