(* ===== verification/ProxyServer.thy ===== *)
theory ProxyServer
  imports ProxyTheorems
begin

text \<open>
  The proxy as a whole: \<open>main\<close> of \<open>lab10/proxy.c\<close>, which accepts connections for ever, its threads, and the
  semaphore of \<open>csapp.c\<close> around the output of the log.

  One step is the acceptance of a connection or one action of one thread; the exchange of a thread with its
  client and server is one action, as it shares nothing with the other threads, and \<open>printf\<close> writes its line
  one character at a time.
\<close>

section \<open>Semaphores and wrappers\<close>

text \<open>\<open>sem_wait\<close> blocks on 0; the wrappers exit when the call fails, which it does not for a valid semaphore.\<close>

definition Sem_init :: "nat \<Rightarrow> nat" where "Sem_init n = n"

definition P :: "nat \<Rightarrow> nat option" where "P s = (if 0 < s then Some (s - 1) else None)"

definition V :: "nat \<Rightarrow> nat" where "V s = s + 1"

section \<open>The server\<close>

record client =
  connfd :: "chunk list"
  reply :: sink
  host :: "32 word"

text \<open>Where a thread is: in \<open>doit\<close>, before \<open>P\<close> with its line, in \<open>printf\<close> (the characters out and to come), at its end.\<close>

datatype phase = Serving client | Logging string | Printing string string | Finished

record server =
  alive :: bool
  mutex :: nat
  threads :: "phase list"
  stdout :: string

text \<open>\<open>main\<close> up to its loop: the exit status, or the server with its first semaphore value.\<close>

definition proxy_main :: "nat \<Rightarrow> ('d \<Rightarrow> bool) \<Rightarrow> 'd attempt list option \<Rightarrow> int + server" where
  "proxy_main argc listens as =
     (if argc \<noteq> 2 then Inl 0
      else case Open_listenfd listens as of
             Exits n \<Rightarrow> Inl n
           | Returns listenfd \<Rightarrow> Inr \<lparr>alive = True, mutex = Sem_init 1, threads = [], stdout = []\<rparr>)"

text \<open>
  The steps.  The buffers of a thread and the time of its log entry are arbitrary; an exchange that ends the
  process or leaves an array, and a log entry that overflows its array, end the server.
\<close>

inductive proxy_step :: "(string \<Rightarrow> string \<Rightarrow> (chunk list \<times> sink) attempt list option) \<Rightarrow> server \<Rightarrow> server \<Rightarrow> bool"
  for addresses :: "string \<Rightarrow> string \<Rightarrow> (chunk list \<times> sink) attempt list option"
where
  accept: "alive s \<Longrightarrow> proxy_step addresses s (s\<lparr>threads := threads s @ [Serving c]\<rparr>)"
| serve: "alive s \<Longrightarrow> t < length (threads s) \<Longrightarrow> threads s ! t = Serving c \<Longrightarrow>
    thread addresses crio srio time_str (host c) (connfd c) (reply c) = Some line \<Longrightarrow>
    proxy_step addresses s (s\<lparr>threads := (threads s)[t := Logging line]\<rparr>)"
| die: "alive s \<Longrightarrow> t < length (threads s) \<Longrightarrow> threads s ! t = Serving c \<Longrightarrow>
    thread addresses crio srio time_str (host c) (connfd c) (reply c) = None \<Longrightarrow>
    proxy_step addresses s (s\<lparr>alive := False\<rparr>)"
| enter: "alive s \<Longrightarrow> t < length (threads s) \<Longrightarrow> threads s ! t = Logging line \<Longrightarrow> P (mutex s) = Some m \<Longrightarrow>
    proxy_step addresses s (s\<lparr>mutex := m, threads := (threads s)[t := Printing [] line]\<rparr>)"
| put: "alive s \<Longrightarrow> t < length (threads s) \<Longrightarrow> threads s ! t = Printing out (c # cs) \<Longrightarrow>
    proxy_step addresses s (s\<lparr>threads := (threads s)[t := Printing (out @ [c]) cs], stdout := stdout s @ [c]\<rparr>)"
| leave: "alive s \<Longrightarrow> t < length (threads s) \<Longrightarrow> threads s ! t = Printing out [] \<Longrightarrow>
    proxy_step addresses s (s\<lparr>mutex := V (mutex s), threads := (threads s)[t := Finished]\<rparr>)"

inductive_cases proxy_step_cases: "proxy_step addresses s s'"

definition reachable :: "(string \<Rightarrow> string \<Rightarrow> (chunk list \<times> sink) attempt list option) \<Rightarrow> server \<Rightarrow> bool" where
  "reachable addresses s \<longleftrightarrow>
     (proxy_step addresses)\<^sup>*\<^sup>* \<lparr>alive = True, mutex = Sem_init 1, threads = [], stdout = []\<rparr> s"

section \<open>The log\<close>

text \<open>A line of the log: an entry of \<open>format_log_entry\<close> and the line end.\<close>

definition log_line :: "string \<Rightarrow> bool" where
  "log_line l \<longleftrightarrow> (\<exists>time_str h uri n e. format_log_entry time_str h uri n = Some e \<and> l = e @ [NEWLINE])"

definition printing :: "phase \<Rightarrow> bool" where
  "printing p \<longleftrightarrow> (\<exists>out rest. p = Printing out rest)"

definition phase_ok :: "phase \<Rightarrow> bool" where
  "phase_ok p = (case p of Logging l \<Rightarrow> log_line l | Printing out rest \<Rightarrow> log_line (out @ rest) | _ \<Rightarrow> True)"

fun printed :: "phase \<Rightarrow> string" where
  "printed (Printing out rest) = out"
| "printed _ = []"

text \<open>
  The invariant: the semaphore counts the threads in \<open>printf\<close>, of which there is at most one, and the output is
  one line for each finished thread and what the printing one has written.
\<close>

definition log_inv :: "server \<Rightarrow> bool" where
  "log_inv s \<longleftrightarrow> (\<forall>p \<in> set (threads s). phase_ok p) \<and> mutex s + length (filter printing (threads s)) = 1 \<and>
     (\<exists>lines. (\<forall>l \<in> set lines. log_line l) \<and> length lines = length (filter (\<lambda>p. p = Finished) (threads s)) \<and>
        stdout s = concat lines @ concat (map printed (threads s)))"

lemma filter_update:
  "t < length xs \<Longrightarrow> length (filter Q (xs[t := x])) + (if Q (xs ! t) then 1 else 0) =
     length (filter Q xs) + (if Q x then 1 else 0)"
proof -
  assume t: "t < length xs"
  have x: "xs = take t xs @ xs ! t # drop (Suc t) xs" using t by (rule id_take_nth_drop)
  have "length (filter Q xs) = length (filter Q (take t xs)) + (if Q (xs ! t) then 1 else 0) +
      length (filter Q (drop (Suc t) xs))" by (subst x) simp
  then show ?thesis using upd_conv_take_nth_drop [OF t, of x] by simp
qed

lemma set_update: "t < length xs \<Longrightarrow> \<forall>p \<in> set xs. phase_ok p \<Longrightarrow> phase_ok y \<Longrightarrow> \<forall>p \<in> set (xs[t := y]). phase_ok p"
  using set_update_subset_insert [of xs t y] by blast

text \<open>All threads but the printing one have printed nothing that is not yet a line.\<close>

lemma printed_none: "filter printing xs = [] \<Longrightarrow> concat (map printed xs) = []"
proof (induction xs)
  case (Cons x xs)
  then show ?case by (cases x) (auto simp: printing_def)
qed simp

lemma printed_update:
  assumes "length (filter printing xs) = (if printing (xs ! t) then 1 else 0)" and "t < length xs"
  shows "concat (map printed (xs[t := y])) = printed y" "concat (map printed xs) = printed (xs ! t)"
proof -
  have x: "xs = take t xs @ xs ! t # drop (Suc t) xs" using assms(2) by (rule id_take_nth_drop)
  have "length (filter printing xs) = length (filter printing (take t xs)) + (if printing (xs ! t) then 1 else 0) +
      length (filter printing (drop (Suc t) xs))" by (subst x) simp
  then have n: "filter printing (take t xs) = []" "filter printing (drop (Suc t) xs) = []"
    using assms(1) by (auto split: if_splits)
  have u: "xs[t := y] = take t xs @ y # drop (Suc t) xs" using assms(2) by (rule upd_conv_take_nth_drop)
  show "concat (map printed (xs[t := y])) = printed y" 
    unfolding u by (simp only: map_append list.map concat_append concat.simps printed_none [OF n(1)] printed_none [OF n(2)]) simp
  show "concat (map printed xs) = printed (xs ! t)" 
    by (subst x) (simp only: map_append list.map concat_append concat.simps printed_none [OF n(1)] printed_none [OF n(2)], simp)
qed

lemma printed_same: "t < length xs \<Longrightarrow> printed y = printed (xs ! t) \<Longrightarrow> map printed (xs[t := y]) = map printed xs"
  by (simp add: map_update) (metis list_update_id nth_map)

lemma thread_log_line: "thread addresses crio srio time_str h fd w = Some l \<Longrightarrow> log_line l"
  by (auto simp: thread_def log_line_def Option.bind_eq_Some_conv split: if_splits) blast

lemma one_printing: "log_inv s \<Longrightarrow> t < length (threads s) \<Longrightarrow> printing (threads s ! t) \<Longrightarrow>
    mutex s = 0 \<and> length (filter printing (threads s)) = 1"
  using filter_empty_conv [of printing "threads s"] by (auto simp: log_inv_def add_is_1)

lemma log_inv_step:
  assumes "proxy_step addresses s s'" and "log_inv s"
  shows "log_inv s'"
  using assms
proof (induction rule: proxy_step.cases)
  case (accept s c)
  then show ?case by (auto simp: log_inv_def phase_ok_def printing_def)
next
  case (serve s t c crio srio time_str line)
  have l: "phase_ok (Logging line)" using thread_log_line [OF serve(6)] by (simp add: phase_ok_def)
  note f = filter_update [OF serve(4), of printing "Logging line"] filter_update [OF serve(4), of "\<lambda>p. p = Finished" "Logging line"]
  show ?case using serve f set_update [OF serve(4) _ l] printed_same [OF serve(4), of "Logging line"]
    by (auto simp: log_inv_def printing_def)
next
  case (die s t c crio srio time_str)
  then show ?case by (simp add: log_inv_def)
next
  case (enter s t line m)
  have l: "phase_ok (Printing [] line)" using enter by (auto simp: log_inv_def phase_ok_def dest!: nth_mem)
  note f = filter_update [OF enter(4), of printing "Printing [] line"] filter_update [OF enter(4), of "\<lambda>p. p = Finished" "Printing [] line"]
  have m: "mutex s = 1" "m = 0" "filter printing (threads s) = []"
    using enter by (auto simp: log_inv_def P_def add_is_1 split: if_splits)
  show ?case using enter m f set_update [OF enter(4) _ l] printed_same [OF enter(4), of "Printing [] line"]
    by (auto simp: log_inv_def printing_def P_def split: if_splits)
next
  case (put s t out c cs)
  have l: "phase_ok (Printing (out @ [c]) cs)" using put by (auto simp: log_inv_def phase_ok_def dest!: nth_mem)
  note f = filter_update [OF put(4), of printing "Printing (out @ [c]) cs"]
    filter_update [OF put(4), of "\<lambda>p. p = Finished" "Printing (out @ [c]) cs"]
  have p: "length (filter printing (threads s)) = (if printing (threads s ! t) then 1 else 0)"
    using one_printing [OF _ put(4)] put by (simp add: printing_def)
  show ?case using put f set_update [OF put(4) _ l] printed_update(1) [OF p put(4), of "Printing (out @ [c]) cs"] printed_update(2) [OF p put(4)]
    by (auto simp: log_inv_def printing_def)
next
  case (leave s t out)
  have l: "phase_ok Finished" by (simp add: phase_ok_def)
  have o: "log_line out" using leave by (auto simp: log_inv_def phase_ok_def dest!: nth_mem)
  note f = filter_update [OF leave(4), of printing Finished] filter_update [OF leave(4), of "\<lambda>p. p = Finished" Finished]
  have p: "mutex s = 0" "length (filter printing (threads s)) = (if printing (threads s ! t) then 1 else 0)"
    using one_printing [OF _ leave(4)] leave by (simp_all add: printing_def)
  obtain lines where i: "\<forall>l \<in> set lines. log_line l" "length lines = length (filter (\<lambda>p. p = Finished) (threads s))"
      "stdout s = concat lines @ concat (map printed (threads s))" using leave unfolding log_inv_def by blast
  note q = printed_update(1) [OF p(2) leave(4), of Finished] printed_update(2) [OF p(2) leave(4)]
  have "stdout s = concat (lines @ [out]) @ concat (map printed ((threads s)[t := Finished]))"
    using i(3) q leave(5) by simp
  moreover have "length (lines @ [out]) = length (filter (\<lambda>p. p = Finished) ((threads s)[t := Finished]))"
    using i(2) f(2) leave(5) by simp
  moreover have "\<forall>l \<in> set (lines @ [out]). log_line l" using i(1) o by auto
  ultimately have "\<exists>lines. (\<forall>l \<in> set lines. log_line l) \<and>
      length lines = length (filter (\<lambda>p. p = Finished) ((threads s)[t := Finished])) \<and>
      stdout s = concat lines @ concat (map printed ((threads s)[t := Finished]))" by blast
  then show ?case using leave f(1) p set_update [OF leave(4) _ l] by (simp add: log_inv_def V_def printing_def)
qed

lemma log_inv_reachable: "reachable addresses s \<Longrightarrow> log_inv s"
  unfolding reachable_def
proof (induction rule: rtranclp_induct)
  case base
  then show ?case by (simp add: log_inv_def Sem_init_def)
next
  case (step s s')
  then show ?case using log_inv_step by blast
qed

text \<open>
  C8. The log of the concurrent proxy: in every state that the accept loop and the threads can reach, under any
  interleaving, at most one thread is between \<open>P\<close> and \<open>V\<close>, and the output is whole log lines, one for each
  finished thread, followed by what that one thread has written of its own line.
\<close>

theorem log_lines_whole:
  assumes "reachable addresses s"
  shows "length (filter printing (threads s)) = 1 - mutex s \<and> mutex s \<le> 1 \<and>
    (\<exists>lines. (\<forall>l \<in> set lines. log_line l) \<and> length lines = length (filter (\<lambda>p. p = Finished) (threads s)) \<and>
      (if mutex s = 1 then stdout s = concat lines
       else \<exists>out rest. Printing out rest \<in> set (threads s) \<and> log_line (out @ rest) \<and> stdout s = concat lines @ out))"
proof -
  note i = log_inv_reachable [OF assms]
  then obtain lines where l: "\<forall>l \<in> set lines. log_line l" "length lines = length (filter (\<lambda>p. p = Finished) (threads s))"
      "stdout s = concat lines @ concat (map printed (threads s))" unfolding log_inv_def by blast
  have n: "mutex s + length (filter printing (threads s)) = 1" using i by (simp add: log_inv_def)
  show ?thesis
  proof (cases "mutex s = 1")
    case True
    then have "filter printing (threads s) = []" using n by simp
    then show ?thesis using True l printed_none by auto
  next
    case False
    then have m: "mutex s = 0" "length (filter printing (threads s)) = 1" using n by linarith+
    then obtain t where t: "t < length (threads s)" "printing (threads s ! t)"
      by (metis filter_False in_set_conv_nth list.size(3) zero_neq_one)
    then obtain out rest where p: "threads s ! t = Printing out rest" by (auto simp: printing_def)
    have "concat (map printed (threads s)) = out" using printed_update(2) [OF _ t(1)] m(2) t(2) p by simp
    moreover have "Printing out rest \<in> set (threads s)" "log_line (out @ rest)"
      using nth_mem [OF t(1)] p i by (auto simp: log_inv_def phase_ok_def)
    ultimately show ?thesis using m l by auto
  qed
qed

definition demo_client :: client where
  "demo_client = \<lparr>connfd = [Data (request_line ''GET'' ''x'')], reply = \<lparr>outcomes = [], written = [], eintr = False\<rparr>, host = 0\<rparr>"

lemma demo_line: "thread (\<lambda>_ _. None) empty_rio empty_rio ''t'' 0 (connfd demo_client) (reply demo_client) =
    Some (''t: 0.0.0.0 x 0'' @ [NEWLINE])"
proof -
  have w: "word_ok ''GET''" "word_ok ''x''" "length (request_line ''GET'' ''x'') < MAXLINE"
    by (simp_all add: word_ok_def isspace_def NUL_def TAB_def NEWLINE_def RETURN_def request_line_def CRLF_def MAXLINE_def)
  have e: "length (rio_buf empty_rio) = RIO_BUFSIZE" by (simp add: empty_rio_def)
  have n: "request_line ''GET'' ''x'' \<noteq> []" by (simp add: request_line_def)
  obtain c where "Rio_readlineb_w (rio_readinitb (connfd demo_client) empty_rio) MAXLINE = (request_line ''GET'' ''x'', c)"
    using read_request_line [OF e, of "connfd demo_client" "''GET''" "''x''" "contents []"] w n by (auto simp: demo_client_def)
  moreover have "parse_uri ''x'' = None" by code_simp
  moreover have "format_log_entry ''t'' 0 (Some ''x'') 0 = Some ''t: 0.0.0.0 x 0''" by code_simp
  ultimately show ?thesis
    using cstr_request [OF w(1,2)] three_words_request [OF w(1,2)] n by (simp add: thread_def doit_def line_ends_request)
qed

theorem log_lines_whole_witness:
  "\<exists>s out rest. reachable (\<lambda>_ _. None) s \<and> mutex s = 0 \<and> Printing out rest \<in> set (threads s) \<and> log_line (out @ rest) \<and> stdout s = out"
proof -
  let ?A = "\<lambda>_ _. None" and ?l = "''t: 0.0.0.0 x 0'' @ [NEWLINE]"
  let ?s0 = "\<lparr>alive = True, mutex = 1, threads = [], stdout = []\<rparr>"
  let ?s1 = "\<lparr>alive = True, mutex = 1, threads = [Serving demo_client], stdout = []\<rparr>"
  let ?s2 = "\<lparr>alive = True, mutex = 1, threads = [Logging ?l], stdout = []\<rparr>"
  let ?s3 = "\<lparr>alive = True, mutex = 0, threads = [Printing [] ?l], stdout = []\<rparr>"
  have "proxy_step ?A ?s0 ?s1" using proxy_step.accept [of ?s0 ?A demo_client] by simp
  moreover have "proxy_step ?A ?s1 ?s2"
    using proxy_step.serve [of ?s1 0 demo_client ?A empty_rio empty_rio "''t''" ?l] demo_line by (simp add: demo_client_def)
  moreover have "proxy_step ?A ?s2 ?s3" using proxy_step.enter [of ?s2 0 ?l 0 ?A] by (simp add: P_def)
  ultimately have r: "reachable ?A ?s3" unfolding reachable_def Sem_init_def by (meson rtranclp.rtrancl_into_rtrancl rtranclp.rtrancl_refl)
  from log_lines_whole [OF r] show ?thesis using r by auto
qed

text \<open>The semaphore never blocks the log for good: while a thread has a line to write, some thread can go on.\<close>

lemma log_progress:
  assumes "reachable addresses s" and "alive s" and "t < length (threads s)" and "threads s ! t = Logging line"
  shows "\<exists>s' u. proxy_step addresses s s' \<and> u < length (threads s) \<and> threads s' ! u \<noteq> threads s ! u"
proof (cases "mutex s = 0")
  case True
  then obtain u where u: "u < length (threads s)" "printing (threads s ! u)"
    using log_inv_reachable [OF assms(1)]
    by (metis One_nat_def add_0 filter_False in_set_conv_nth list.size(3) log_inv_def zero_neq_one)
  then obtain out rest where p: "threads s ! u = Printing out rest" by (auto simp: printing_def)
  show ?thesis
  proof (cases rest)
    case Nil
    with p proxy_step.leave [OF assms(2) u(1), of out addresses] u(1) show ?thesis by force
  next
    case (Cons c cs)
    with p proxy_step.put [OF assms(2) u(1), of out c cs addresses] u(1) show ?thesis by force
  qed
next
  case False
  then have "P (mutex s) = Some (mutex s - 1)" by (simp add: P_def)
  from proxy_step.enter [OF assms(2-4) this, of addresses] assms(3,4) show ?thesis by force
qed

end
