(* ===== verification/CacheLab.thy ===== *)
theory CacheLab
  imports CStrings
begin

text \<open>
  The transpose part of the cache lab: \<open>lab8/trans.c\<close> and the helpers of \<open>lab8/cachelab.c\<close>, the program
  \<open>tracegen\<close> that runs and validates transpose functions (\<open>lab8/tracegen.c\<close>), and the program \<open>test-trans\<close>
  that evaluates them (\<open>lab8/test-trans.c\<close>).

  A parameter \<open>int A[N][M]\<close> is the memory of the matrix, row after row: \<open>A[i][j]\<close> is the element \<open>i * M + j\<close>.
  An access outside that memory gives \<open>None\<close>.
\<close>

type_synonym matrix = "32 word list"

definition at :: "int \<Rightarrow> matrix \<Rightarrow> int \<Rightarrow> int \<Rightarrow> 32 word option" where
  "at cols A i j = rd A (i * cols + j)"

definition put :: "int \<Rightarrow> matrix \<Rightarrow> int \<Rightarrow> int \<Rightarrow> 32 word \<Rightarrow> matrix option" where
  "put cols A i j v = wr A (i * cols + j) v"

text \<open>\<open>for (i = lo; i < hi; i++)\<close> around a body that may fail.\<close>

function for_loop :: "int \<Rightarrow> int \<Rightarrow> (int \<Rightarrow> 's \<Rightarrow> 's option) \<Rightarrow> 's \<Rightarrow> 's option" where
  "for_loop lo hi body s = (if lo < hi then do { s \<leftarrow> body lo s; for_loop (lo + 1) hi body s } else Some s)"
  by pat_completeness auto
termination
  by (relation "measure (\<lambda>(lo, hi, _). nat (hi - lo))") auto

declare for_loop.simps [simp del]

section \<open>Transposing\<close>

definition transpose_submit :: "int \<Rightarrow> int \<Rightarrow> matrix \<Rightarrow> matrix \<Rightarrow> matrix option" where
  "transpose_submit M N A B = Some B"

definition trans :: "int \<Rightarrow> int \<Rightarrow> matrix \<Rightarrow> matrix \<Rightarrow> matrix option" where
  "trans M N A =
     for_loop 0 N (\<lambda>i. for_loop 0 M (\<lambda>j B. do { tmp \<leftarrow> at M A i j; put N B j i tmp }))"

definition correctTrans :: "int \<Rightarrow> int \<Rightarrow> matrix \<Rightarrow> matrix \<Rightarrow> matrix option" where
  "correctTrans M N A =
     for_loop 0 N (\<lambda>i. for_loop 0 M (\<lambda>j B. do { tmp \<leftarrow> at M A i j; put N B j i tmp }))"

text \<open>The loops that return early carry the result found; once there is one they do nothing.\<close>

definition is_transpose :: "int \<Rightarrow> int \<Rightarrow> matrix \<Rightarrow> matrix \<Rightarrow> bool option" where
  "is_transpose M N A B =
     for_loop 0 N (\<lambda>i. for_loop 0 M (\<lambda>j same.
       if \<not> same then Some False else do { a \<leftarrow> at M A i j; b \<leftarrow> at N B j i; Some (a = b) })) True"

definition initMatrix :: "('r \<Rightarrow> 32 word \<times> 'r) \<Rightarrow> int \<Rightarrow> int \<Rightarrow> matrix \<times> matrix \<times> 'r \<Rightarrow> (matrix \<times> matrix \<times> 'r) option" where
  "initMatrix rand M N =
     for_loop 0 N (\<lambda>i. for_loop 0 M (\<lambda>j (A, B, r).
       do { let (x, r) = rand r; A \<leftarrow> put M A i j x; let (y, r) = rand r; B \<leftarrow> put N B j i y; Some (A, B, r) }))"

definition randMatrix :: "('r \<Rightarrow> 32 word \<times> 'r) \<Rightarrow> int \<Rightarrow> int \<Rightarrow> matrix \<times> 'r \<Rightarrow> (matrix \<times> 'r) option" where
  "randMatrix rand M N =
     for_loop 0 N (\<lambda>i. for_loop 0 M (\<lambda>j (A, r).
       do { let (x, r) = rand r; A \<leftarrow> put M A i j x; Some (A, r) }))"

section \<open>The registered functions\<close>

record trans_func_t =
  func_ptr :: "int \<Rightarrow> int \<Rightarrow> matrix \<Rightarrow> matrix \<Rightarrow> matrix option"
  description :: string
  correct :: int
  num_hits :: "32 word"
  num_misses :: "32 word"
  num_evictions :: "32 word"

definition MAX_TRANS_FUNCS :: nat where "MAX_TRANS_FUNCS = 100"

text \<open>\<open>func_list\<close> up to \<open>func_counter\<close>; there is no test against the size of the array.\<close>

definition registerTransFunction ::
  "(int \<Rightarrow> int \<Rightarrow> matrix \<Rightarrow> matrix \<Rightarrow> matrix option) \<Rightarrow> string \<Rightarrow> trans_func_t list \<Rightarrow> trans_func_t list option"
where
  "registerTransFunction f desc fs =
     (if length fs < MAX_TRANS_FUNCS then
        Some (fs @ [\<lparr>func_ptr = f, description = desc, correct = 0, num_hits = 0, num_misses = 0, num_evictions = 0\<rparr>])
      else None)"

definition registerFunctions :: "trans_func_t list \<Rightarrow> trans_func_t list option" where
  "registerFunctions fs =
     do {
       fs \<leftarrow> registerTransFunction transpose_submit ''Transpose submission'' fs;
       registerTransFunction trans ''Simple row-wise scan transpose'' fs
     }"

section \<open>tracegen\<close>

text \<open>
  \<open>validate\<close> transposes \<open>A\<close> into a fresh matrix \<open>C\<close> of zeros and compares: the value is \<open>True\<close>, or \<open>False\<close> with
  the message on the first difference.
\<close>

definition mismatch :: "int \<Rightarrow> 32 word \<Rightarrow> 32 word \<Rightarrow> int \<Rightarrow> int \<Rightarrow> string" where
  "mismatch fn c b i j =
     ''Validation failed on function '' @ show_int fn @ ''! Expected '' @ show_int (sint c) @ '' but got '' @
     show_int (sint b) @ '' at B['' @ show_int i @ ''][''  @ show_int j @ '']'' @ [NEWLINE]"

definition validate :: "int \<Rightarrow> int \<Rightarrow> int \<Rightarrow> matrix \<Rightarrow> matrix \<Rightarrow> (bool \<times> string) option" where
  "validate fn M N A B =
     do {
       C \<leftarrow> correctTrans M N A (replicate (nat (M * N)) 0);
       for_loop 0 M (\<lambda>i. for_loop 0 N (\<lambda>j (ok, out).
         if \<not> ok then Some (ok, out)
         else do { b \<leftarrow> at N B i j; c \<leftarrow> at N C i j; Some (if b \<noteq> c then (False, mismatch fn c b i j) else (True, out)) })) (True, [])
     }"

text \<open>One function between its markers, and the validation of what it left in \<open>B\<close>.\<close>

definition run_function :: "trans_func_t list \<Rightarrow> int \<Rightarrow> int \<Rightarrow> int \<Rightarrow> matrix \<Rightarrow> matrix \<Rightarrow> (bool \<times> matrix) option" where
  "run_function fs i M N A B =
     do { f \<leftarrow> rd fs i; B \<leftarrow> func_ptr f M N A B; (ok, _) \<leftarrow> validate i M N A B; Some (ok, B) }"

function run_all :: "trans_func_t list \<Rightarrow> int \<Rightarrow> int \<Rightarrow> int \<Rightarrow> matrix \<Rightarrow> matrix \<Rightarrow> int option" where
  "run_all fs i M N A B =
     (if i < int (length fs) then do {
        (ok, B) \<leftarrow> run_function fs i M N A B;
        if \<not> ok then Some (i + 1) else run_all fs (i + 1) M N A B
      } else Some 0)"
  by pat_completeness auto
termination
  by (relation "measure (\<lambda>(fs, i, _). nat (int (length fs) - i))") auto

declare run_all.simps [simp del]

text \<open>\<open>static int A[256][256], B[256][256]\<close>\<close>

definition static_matrix :: matrix where "static_matrix = replicate (256 * 256) 0"

text \<open>
  The options, as \<open>getopt\<close> delivers them: a letter, \<open>?\<close> for an unknown one, and the argument.  \<open>None\<close> is the
  exit with status 1.
\<close>

fun tracegen_options :: "(char \<times> string) list \<Rightarrow> int \<times> int \<times> int \<Rightarrow> (int \<times> int \<times> int) option" where
  "tracegen_options [] (M, N, sel) = Some (M, N, sel)"
| "tracegen_options ((c, arg) # opts) (M, N, sel) =
     (if c = CHR ''M'' then tracegen_options opts (atoi arg, N, sel)
      else if c = CHR ''N'' then tracegen_options opts (M, atoi arg, sel)
      else if c = CHR ''F'' then tracegen_options opts (M, N, atoi arg)
      else None)"

text \<open>
  \<open>main\<close> of \<open>tracegen\<close> behind the parsing of its options: the static matrices have 256 rows of 256 elements,
  \<open>selectedFunc\<close> is -1 without the option \<open>F\<close>, and the value is the exit status.
\<close>

definition tracegen_main :: "('r \<Rightarrow> 32 word \<times> 'r) \<Rightarrow> 'r \<Rightarrow> int \<Rightarrow> int \<Rightarrow> int \<Rightarrow> int option" where
  "tracegen_main rand r M N selectedFunc =
     do {
       fs \<leftarrow> registerFunctions [];
       (A, B, _) \<leftarrow> initMatrix rand M N (static_matrix, static_matrix, r);
       if selectedFunc = - 1 then run_all fs 0 M N A B
       else do { (ok, _) \<leftarrow> run_function fs selectedFunc M N A B; Some (if \<not> ok then selectedFunc + 1 else 0) }
     }"

section \<open>The trace of one function\<close>

text \<open>Lines of memory accesses, and \<open>sscanf(buf + 3, "%llx,%u", &addr, &len)\<close>: without a number \<open>addr\<close> stays.\<close>

definition is_access :: "string \<Rightarrow> bool" where
  "is_access buf \<longleftrightarrow> 3 \<le> length buf \<and> buf ! 0 = CHR '' '' \<and> buf ! 2 = CHR '' '' \<and>
     (buf ! 1 = CHR ''S'' \<or> buf ! 1 = CHR ''M'' \<or> buf ! 1 = CHR ''L'')"

definition scan_addr :: "string \<Rightarrow> addr \<Rightarrow> addr" where
  "scan_addr s addr =
     (let (neg, s) = scan_sign (dropWhile isspace s);
          s = (case s of z # x # t \<Rightarrow> if z = CHR ''0'' \<and> to_lower x = CHR ''x'' \<and> digit_at 16 t then t else s | _ \<Rightarrow> s)
      in if digit_at 16 s then
           let (v, _) = scan_digits 16 0 s
           in if 2 ^ 64 \<le> v then - 1 else if neg then - of_int v else of_int v
         else addr)"

text \<open>The loop over the trace: the lines that it writes, and whether it closed the file at the end marker.\<close>

fun filter_trace :: "addr \<Rightarrow> addr \<Rightarrow> bool \<Rightarrow> addr \<Rightarrow> string list \<Rightarrow> string list \<times> bool" where
  "filter_trace marker_start marker_end flag addr [] = ([], False)"
| "filter_trace marker_start marker_end flag addr (buf # bufs) =
     (if is_access buf then
        let addr = scan_addr (drop 3 buf) addr;
            flag = (if addr = marker_start then True else flag);
            out = (if flag \<and> addr < 0xffffffff then [buf] else [])
        in if addr = marker_end then (out, True)
           else (let (outs, closed) = filter_trace marker_start marker_end flag addr bufs in (out @ outs, closed))
      else filter_trace marker_start marker_end flag addr bufs)"

text \<open>The last address that was read when the loop ends.\<close>

fun last_addr :: "addr \<Rightarrow> addr \<Rightarrow> string list \<Rightarrow> addr" where
  "last_addr marker_end addr [] = addr"
| "last_addr marker_end addr (buf # bufs) =
     (if is_access buf then
        let addr = scan_addr (drop 3 buf) addr in if addr = marker_end then addr else last_addr marker_end addr bufs
      else last_addr marker_end addr bufs)"

section \<open>test-trans\<close>

record results =
  funcid :: int
  res_correct :: int
  misses :: int

definition INT_MAX :: int where "INT_MAX = 2 ^ 31 - 1"

definition results_init :: results where
  "results_init = \<lparr>funcid = - 1, res_correct = 0, misses = INT_MAX\<rparr>"

text \<open>
  The world of \<open>eval_perf\<close>: the exit status of \<open>valgrind ./tracegen\<close> for a function, the lines of the trace
  that it wrote and its marker addresses, how many characters of a part of the trace are in its file while that is
  not closed, what the reference simulator finds for a file, and the uninitialised value of \<open>addr\<close>.
\<close>

record world =
  tracegen :: "int \<Rightarrow> int"
  trace_tmp :: "int \<Rightarrow> string list"
  marker :: "int \<Rightarrow> addr \<times> addr"
  flushed :: "int \<Rightarrow> nat"
  csim_ref :: "string \<Rightarrow> 32 word \<times> 32 word \<times> 32 word"
  first_addr :: addr

definition SUBMIT_DESCRIPTION :: string where "SUBMIT_DESCRIPTION = ''Transpose submission''"

text \<open>The body of the loop for function \<open>i\<close>; \<open>addr\<close> keeps its value from one function to the next.\<close>

definition eval_function :: "world \<Rightarrow> int \<Rightarrow> trans_func_t \<Rightarrow> addr \<Rightarrow> results \<Rightarrow> trans_func_t \<times> addr \<times> results" where
  "eval_function W i f addr res =
     (let res = (if description f = SUBMIT_DESCRIPTION then res\<lparr>funcid := i\<rparr> else res);
          flag = tracegen W i mod 256
      in if flag \<noteq> 0 then (f, addr, res)
         else
           let (marker_start, marker_end) = marker W i;
               f = f\<lparr>correct := 1\<rparr>;
               res = (if funcid res = i then res\<lparr>res_correct := 1\<rparr> else res);
               (part, closed) = filter_trace marker_start marker_end False addr (trace_tmp W i);
               addr = last_addr marker_end addr (trace_tmp W i);
               file = (if closed then concat part else take (flushed W i) (concat part));
               (hits, ms, evictions) = csim_ref W file;
               f = f\<lparr>num_hits := hits, num_misses := ms, num_evictions := evictions\<rparr>;
               res = (if funcid res = i then res\<lparr>misses := sint ms\<rparr> else res)
           in (f, addr, res))"

fun eval_functions :: "world \<Rightarrow> int \<Rightarrow> trans_func_t list \<Rightarrow> addr \<Rightarrow> results \<Rightarrow> trans_func_t list \<times> results" where
  "eval_functions W i [] addr res = ([], res)"
| "eval_functions W i (f # fs) addr res =
     (let (f, addr, res) = eval_function W i f addr res;
          (fs, res) = eval_functions W (i + 1) fs addr res
      in (f # fs, res))"

definition eval_perf :: "world \<Rightarrow> results \<Rightarrow> (trans_func_t list \<times> results) option" where
  "eval_perf W res = do { fs \<leftarrow> registerFunctions []; Some (eval_functions W 0 fs (first_addr W) res) }"

text \<open>The options of \<open>test-trans\<close>: the sizes, or the exit status after the usage message.\<close>

fun test_trans_options :: "(char \<times> string) list \<Rightarrow> int \<times> int \<Rightarrow> int + int \<times> int" where
  "test_trans_options [] (M, N) = Inr (M, N)"
| "test_trans_options ((c, arg) # opts) (M, N) =
     (if c = CHR ''M'' then test_trans_options opts (atoi arg, N)
      else if c = CHR ''N'' then test_trans_options opts (M, atoi arg)
      else if c = CHR ''h'' then Inl 0
      else Inl 1)"

text \<open>\<open>main\<close> behind the parsing of its options: the exit status and, when it gets there, the line of results.\<close>

definition MAXN :: int where "MAXN = 256"

definition test_trans_main :: "(int \<Rightarrow> int \<Rightarrow> world) \<Rightarrow> int \<Rightarrow> int \<Rightarrow> (int \<times> string) option" where
  "test_trans_main W M N =
     (if M = 0 \<or> N = 0 then Some (1, [])
      else if M > MAXN \<or> N > MAXN then Some (1, [])
      else do {
        (_, res) \<leftarrow> eval_perf (W M N) results_init;
        Some (0, if funcid res = - 1 then ''TEST_TRANS_RESULTS=0:0''
                 else ''TEST_TRANS_RESULTS='' @ show_int (res_correct res) @ '':'' @ show_int (misses res))
      })"

section \<open>The cache simulator\<close>

text \<open>The file \<open>.csim_results\<close> that \<open>printSummary\<close> writes; \<open>csim\<close> is a stub that reports zeros.\<close>

definition printSummary :: "int \<Rightarrow> int \<Rightarrow> int \<Rightarrow> string \<times> string" where
  "printSummary hits ms evictions =
     (''hits:'' @ show_int hits @ '' misses:'' @ show_int ms @ '' evictions:'' @ show_int evictions @ [NEWLINE],
      show_int hits @ '' '' @ show_int ms @ '' '' @ show_int evictions @ [NEWLINE])"

definition csim_main :: "string \<times> string" where
  "csim_main = printSummary 0 0 0"

text \<open>How \<open>eval_perf\<close> reads that file.\<close>

definition scan_results :: "string \<Rightarrow> (int \<times> int \<times> int) option" where
  "scan_results file =
     do { (hits, s) \<leftarrow> fscan_int file; (ms, s) \<leftarrow> fscan_int s; (evictions, s) \<leftarrow> fscan_int s; Some (hits, ms, evictions) }"

end
