(* ===== verification/CacheLabTheorems.thy ===== *)
theory CacheLabTheorems
  imports CacheLab
begin

text \<open>
  The transpose lab: which functions \<open>tracegen\<close> accepts, what of a trace is evaluated, and what \<open>test-trans\<close> reports.
\<close>

section \<open>Loops over matrices\<close>

lemma for_loop_invariant:
  assumes "lo \<le> hi" and "I lo s" and "\<And>i s. lo \<le> i \<Longrightarrow> i < hi \<Longrightarrow> I i s \<Longrightarrow> \<exists>s'. body i s = Some s' \<and> I (i + 1) s'"
  shows "\<exists>s'. for_loop lo hi body s = Some s' \<and> I hi s'"
  using assms
proof (induction lo hi body s rule: for_loop.induct)
  case (1 lo hi body s)
  show ?case
  proof (cases "lo < hi")
    case True
    obtain s1 where s1: "body lo s = Some s1" "I (lo + 1) s1" using "1.prems"(3) [of lo s] "1.prems"(2) True by auto
    from "1.IH" [OF True s1(1) _ s1(2)] "1.prems"(3) True
    have "\<exists>s'. for_loop (lo + 1) hi body s1 = Some s' \<and> I hi s'" by simp
    then show ?thesis using True s1(1) by (simp add: for_loop.simps [of lo])
  next
    case False
    then show ?thesis using "1.prems" by (simp add: for_loop.simps [of hi hi])
  qed
qed

text \<open>Two nested loops over an \<open>n\<close> by \<open>m\<close> rectangle; the invariant speaks of the cells that are done.\<close>

definition cells :: "int \<Rightarrow> int \<Rightarrow> int \<Rightarrow> int \<Rightarrow> (int \<Rightarrow> int \<Rightarrow> bool) \<Rightarrow> bool" where
  "cells n m i j P \<longleftrightarrow> (\<forall>i' \<in> {0..<n}. \<forall>j' \<in> {0..<m}. i' < i \<or> i' = i \<and> j' < j \<longrightarrow> P i' j')"

lemma cells_start [simp]: "cells n m 0 0 P"
  by (simp add: cells_def)

lemma cells_end: "cells n m n 0 P \<longleftrightarrow> (\<forall>i \<in> {0..<n}. \<forall>j \<in> {0..<m}. P i j)"
  by (auto simp: cells_def)

lemma cells_row: "cells n m (i + 1) 0 P \<longleftrightarrow> cells n m i m P"
  unfolding cells_def zless_add1_eq by auto

lemma cells_step: "0 \<le> i \<Longrightarrow> i < n \<Longrightarrow> 0 \<le> j \<Longrightarrow> j < m \<Longrightarrow> cells n m i (j + 1) P \<longleftrightarrow> cells n m i j P \<and> P i j"
  unfolding cells_def zless_add1_eq by auto

lemma nested_loops:
  assumes "0 \<le> n" and "0 \<le> m" and "I 0 0 s"
    and "\<And>i j s. 0 \<le> i \<Longrightarrow> i < n \<Longrightarrow> 0 \<le> j \<Longrightarrow> j < m \<Longrightarrow> I i j s \<Longrightarrow> \<exists>s'. body i j s = Some s' \<and> I i (j + 1) s'"
    and "\<And>i s. 0 \<le> i \<Longrightarrow> i < n \<Longrightarrow> I i m s \<Longrightarrow> I (i + 1) 0 s"
  shows "\<exists>s'. for_loop 0 n (\<lambda>i. for_loop 0 m (body i)) s = Some s' \<and> I n 0 s'"
proof (rule for_loop_invariant [where I = "\<lambda>i. I i 0"])
  fix i s assume i: "0 \<le> i" "i < n" "I i 0 s"
  have "\<exists>s'. for_loop 0 m (body i) s = Some s' \<and> I i m s'"
    by (rule for_loop_invariant [where I = "I i"]) (use i assms(2,4) in auto)
  then show "\<exists>s'. for_loop 0 m (body i) s = Some s' \<and> I (i + 1) 0 s'" using assms(5) i by blast
qed (use assms in auto)

text \<open>The cells of a matrix are different elements within its memory.\<close>

lemma cell_bounds:
  fixes i j n m :: int
  assumes "0 \<le> i" and "i < n" and "0 \<le> j" and "j < m"
  shows "0 \<le> i * m + j" "i * m + j < n * m" "i * m + j < m * n"
proof -
  have "i * m + m \<le> n * m" using assms mult_right_mono [of "i + 1" n m] by (simp add: distrib_right)
  then show "0 \<le> i * m + j" "i * m + j < n * m" "i * m + j < m * n" using assms by (simp_all add: mult.commute)
qed

lemma cell_eq:
  fixes i j i' j' m :: int
  assumes "0 \<le> j" and "j < m" and "0 \<le> j'" and "j' < m"
  shows "i * m + j = i' * m + j' \<longleftrightarrow> i = i' \<and> j = j'"
proof
  assume e: "i * m + j = i' * m + j'"
  have "(i * m + j) div m = i" "(i' * m + j') div m = i'" using assms by simp_all
  then show "i = i' \<and> j = j'" using e by simp
qed simp

lemma at_cell:
  "0 \<le> i \<Longrightarrow> i < n \<Longrightarrow> 0 \<le> j \<Longrightarrow> j < m \<Longrightarrow> n * m \<le> int (length A) \<Longrightarrow> at m A i j = Some (A ! nat (i * m + j))"
  using cell_bounds [of i n j m] by (simp add: at_def rd_def)

lemma put_cell:
  "0 \<le> i \<Longrightarrow> i < n \<Longrightarrow> 0 \<le> j \<Longrightarrow> j < m \<Longrightarrow> n * m \<le> int (length A) \<Longrightarrow> put m A i j v = Some (A[nat (i * m + j) := v])"
  using cell_bounds [of i n j m] by (simp add: put_def wr_def)

lemma nth_put_cell:
  assumes "0 \<le> i" "i < n" "0 \<le> j" "j < m" "0 \<le> i'" "i' < n" "0 \<le> j'" "j' < m" "n * m \<le> int (length A)"
  shows "A[nat (i * m + j) := v] ! nat (i' * m + j') = (if i = i' \<and> j = j' then v else A ! nat (i' * m + j'))"
proof -
  have "nat (i * m + j) < length A" using cell_bounds [of i n j m] assms by linarith
  then show ?thesis
    using cell_bounds [of i n j m] cell_bounds [of i' n j' m] cell_eq [of j m j' i i'] assms
    by (simp add: nth_list_update nat_eq_iff)
qed

section \<open>Transposing\<close>

definition transposed :: "int \<Rightarrow> int \<Rightarrow> matrix \<Rightarrow> matrix \<Rightarrow> bool" where
  "transposed M N A B \<longleftrightarrow> (\<forall>i \<in> {0..<N}. \<forall>j \<in> {0..<M}. B ! nat (j * N + i) = A ! nat (i * M + j))"

definition shaped :: "int \<Rightarrow> int \<Rightarrow> matrix \<Rightarrow> bool" where
  "shaped M N A \<longleftrightarrow> M * N \<le> int (length A)"

lemma trans_transposes:
  assumes "0 \<le> M" and "0 \<le> N" and "shaped M N A" and "shaped M N B"
  shows "\<exists>B'. trans M N A B = Some B' \<and> length B' = length B \<and> transposed M N A B'"
proof -
  let ?P = "\<lambda>B' i j. B' ! nat (j * N + i) = A ! nat (i * M + j)"
  let ?I = "\<lambda>i j B'. length B' = length B \<and> cells N M i j (?P B')"
  have "\<exists>B'. trans M N A B = Some B' \<and> ?I N 0 B'"
    unfolding trans_def
  proof (rule nested_loops [where I = ?I])
    fix i j s assume c: "0 \<le> i" "i < N" "0 \<le> j" "j < M" "?I i j s"
    have a: "at M A i j = Some (A ! nat (i * M + j))" "put N s j i v = Some (s[nat (j * N + i) := v])" for v
      using at_cell [of i N j M A] put_cell [of j M i N s] c assms(3,4) by (simp_all add: shaped_def mult.commute)
    let ?s = "s[nat (j * N + i) := A ! nat (i * M + j)]"
    have "?s ! nat (j' * N + i') = (if j = j' \<and> i = i' then A ! nat (i * M + j) else s ! nat (j' * N + i'))"
      if "i' \<in> {0..<N}" "j' \<in> {0..<M}" for i' j'
      using nth_put_cell [of j M i N j' i' s] that c assms(4) by (simp add: shaped_def)
    then have "cells N M i j (?P ?s)" "?P ?s i j" using c by (auto simp: cells_def)
    then have "?I i (j + 1) ?s" using c cells_step by simp
    then show "\<exists>s'. (do { tmp \<leftarrow> at M A i j; put N s j i tmp }) = Some s' \<and> ?I i (j + 1) s'" by (simp add: a)
  qed (use assms in \<open>auto simp: cells_row\<close>)
  then show ?thesis by (auto simp: transposed_def cells_end)
qed

lemma correctTrans_trans: "correctTrans = trans"
  by (simp add: fun_eq_iff correctTrans_def trans_def)

lemma is_transpose_iff:
  assumes "0 \<le> M" and "0 \<le> N" and "shaped M N A" and "shaped M N B"
  shows "is_transpose M N A B = Some (transposed M N A B)"
proof -
  let ?I = "\<lambda>i j same. same = cells N M i j (\<lambda>i j. B ! nat (j * N + i) = A ! nat (i * M + j))"
  have "\<exists>same. is_transpose M N A B = Some same \<and> ?I N 0 same"
    unfolding is_transpose_def
  proof (rule nested_loops [where I = ?I])
    fix i j s assume c: "0 \<le> i" "i < N" "0 \<le> j" "j < M" "?I i j s"
    have "at M A i j = Some (A ! nat (i * M + j))" "at N B j i = Some (B ! nat (j * N + i))"
      using at_cell [of i N j M A] at_cell [of j M i N B] c assms(3,4) by (simp_all add: shaped_def mult.commute)
    then show "\<exists>s'. (if \<not> s then Some False else do { a \<leftarrow> at M A i j; b \<leftarrow> at N B j i; Some (a = b) }) = Some s' \<and> ?I i (j + 1) s'"
      using c by (auto simp: cells_step)
  qed (use assms in \<open>auto simp: cells_row\<close>)
  then show ?thesis by (simp add: transposed_def cells_end)
qed

section \<open>Validation\<close>

lemma validate_iff:
  assumes "0 \<le> M" and "0 \<le> N" and "shaped M N A" and "shaped M N B"
  obtains out where "validate fn M N A B = Some (transposed M N A B, out)"
proof -
  have "0 \<le> M * N" using assms by simp
  then have z: "shaped M N (replicate (nat (M * N)) 0)" by (simp add: shaped_def)
  obtain C where C: "correctTrans M N A (replicate (nat (M * N)) 0) = Some C" "int (length C) = M * N" "transposed M N A C"
    using trans_transposes [OF assms(1-3) z] \<open>0 \<le> M * N\<close> by (auto simp: correctTrans_trans)
  let ?e = "\<lambda>i j. B ! nat (i * N + j) = C ! nat (i * N + j)"
  let ?I = "\<lambda>i j (r :: bool \<times> string). fst r = cells M N i j ?e"
  let ?body = "\<lambda>i j (ok, out). if \<not> ok then Some (ok, out)
    else do { b \<leftarrow> at N B i j; c \<leftarrow> at N C i j; Some (if b \<noteq> c then (False, mismatch fn c b i j) else (True, out)) }"
  have "\<exists>r. for_loop 0 M (\<lambda>i. for_loop 0 N (?body i)) (True, []) = Some r \<and> ?I M 0 r"
  proof (rule nested_loops [where I = ?I])
    fix i j r assume c: "0 \<le> i" "i < M" "0 \<le> j" "j < N" "?I i j r"
    have "at N B i j = Some (B ! nat (i * N + j))" "at N C i j = Some (C ! nat (i * N + j))"
      using at_cell [of i M j N B] at_cell [of i M j N C] c assms(4) C(2) by (simp_all add: shaped_def)
    then show "\<exists>s'. ?body i j r = Some s' \<and> ?I i (j + 1) s'"
      using c by (cases r) (auto simp: cells_step)
  qed (use assms in \<open>auto simp: cells_row\<close>)
  then obtain r where r: "for_loop 0 M (\<lambda>i. for_loop 0 N (?body i)) (True, []) = Some r" "fst r = cells M N M 0 ?e" by blast
  have "cells M N M 0 ?e \<longleftrightarrow> transposed M N A B" using C(3) by (auto simp: cells_end transposed_def)
  then have "validate fn M N A B = Some (transposed M N A B, snd r)"
    using C(1) r by (cases r) (simp add: validate_def)
  then show thesis by (rule that)
qed

text \<open>
  C38. What \<open>tracegen\<close> accepts: for matrices that fit their memory \<open>validate\<close> returns 1 exactly when \<open>B\<close> is the
  transpose of \<open>A\<close>, which is what \<open>is_transpose\<close> returns; the baseline function always passes, and \<open>trans\<close> leaves
  every matrix at its size.
\<close>

theorem validate_transpose:
  assumes "0 \<le> M" and "0 \<le> N" and "shaped M N A" and "shaped M N B"
  shows "\<exists>out B'. validate fn M N A B = Some (transposed M N A B, out) \<and> is_transpose M N A B = Some (transposed M N A B) \<and>
    trans M N A B = Some B' \<and> length B' = length B \<and> is_transpose M N A B' = Some True"
proof -
  obtain B' where b: "trans M N A B = Some B'" "length B' = length B" "transposed M N A B'"
    using trans_transposes [OF assms] by blast
  have "is_transpose M N A B' = Some True"
    using is_transpose_iff [OF assms(1-3), of B'] b assms(4) by (simp add: shaped_def)
  moreover obtain out where "validate fn M N A B = Some (transposed M N A B, out)" using validate_iff [OF assms] .
  ultimately show ?thesis using b(1,2) is_transpose_iff [OF assms] by blast
qed

theorem validate_transpose_witness:
  "\<exists>out. validate 0 3 2 [1, 2, 3, 4, 5, 6] [1, 4, 2, 5, 3, 6] = Some (True, out)"
proof -
  have "transposed 3 2 [1, 2, 3, 4, 5, 6] [1, 4, 2, 5, 3, 6]" by code_simp
  with validate_transpose [of 3 2 "[1, 2, 3, 4, 5, 6]" "[1, 4, 2, 5, 3, 6]" 0] show ?thesis by (auto simp: shaped_def)
qed

section \<open>The programs\<close>

lemma length_static: "length static_matrix = 65536"
  by (simp add: static_matrix_def)

lemma init_matrices:
  fixes r :: 'r
  assumes "0 \<le> M" and "0 \<le> N" and "shaped M N A" and "shaped M N B"
  obtains A' B' r' where "initMatrix rand M N (A, B, r) = Some (A', B', r')" "length A' = length A" "length B' = length B"
proof -
  let ?I = "\<lambda>(i :: int) (j :: int) (s :: matrix \<times> matrix \<times> 'r). length (fst s) = length A \<and> length (fst (snd s)) = length B"
  have "\<exists>s. initMatrix rand M N (A, B, r) = Some s \<and> ?I N 0 s"
    unfolding initMatrix_def
  proof (rule nested_loops [where I = ?I])
    fix i j and s :: "matrix \<times> matrix \<times> 'r"
    assume c: "0 \<le> i" "i < N" "0 \<le> j" "j < M" "?I i j s"
    then show "\<exists>s'. (case s of (A, B, r) \<Rightarrow>
        do { let (x, r) = rand r; A \<leftarrow> put M A i j x; let (y, r) = rand r; B \<leftarrow> put N B j i y; Some (A, B, r) }) = Some s' \<and> ?I i (j + 1) s'"
      using put_cell [of i N j M "fst s"] put_cell [of j M i N "fst (snd s)"] assms(3,4)
      by (auto simp: shaped_def mult.commute split: prod.splits)
  qed (use assms in auto)
  then show thesis using that by auto
qed

definition registered :: "trans_func_t list" where
  "registered = [\<lparr>func_ptr = transpose_submit, description = ''Transpose submission'', correct = 0, num_hits = 0, num_misses = 0, num_evictions = 0\<rparr>,
     \<lparr>func_ptr = trans, description = ''Simple row-wise scan transpose'', correct = 0, num_hits = 0, num_misses = 0, num_evictions = 0\<rparr>]"

lemma length_registered: "length registered = 2"
  by (simp add: registered_def)

lemma registerFunctions_list: "registerFunctions [] = Some registered"
  by (simp add: registerFunctions_def registerTransFunction_def registered_def MAX_TRANS_FUNCS_def)

text \<open>
  The exit status of \<open>tracegen -F f\<close> at sizes within the static matrices: 0 for the baseline, and for the
  submission, which is empty, 0 only when the random matrices happened to be transposes.
\<close>

lemma tracegen_status:
  assumes "0 \<le> M" and "M \<le> 256" and "0 \<le> N" and "N \<le> 256"
  obtains A B r' where "initMatrix rand M N (static_matrix, static_matrix, r) = Some (A, B, r')"
    "tracegen_main rand r M N 0 = Some (if transposed M N A B then 0 else 1)" "tracegen_main rand r M N 1 = Some 0"
    "tracegen_main rand r M N (- 1) = Some (if transposed M N A B then 0 else 1)"
proof -
  have "M * N \<le> 256 * 256" using assms by (intro mult_mono) auto
  then have z: "shaped M N static_matrix" by (simp add: shaped_def length_static)
  obtain A B r' where i: "initMatrix rand M N (static_matrix, static_matrix, r) = Some (A, B, r')"
      "length A = 65536" "length B = 65536"
    using init_matrices [OF assms(1,3) z z] by (metis length_static)
  then have s: "shaped M N A" "shaped M N B" using z by (simp_all add: shaped_def length_static)
  obtain out where "validate 0 M N A B = Some (transposed M N A B, out)" using validate_iff [OF assms(1,3) s] .
  then have sub: "run_function registered 0 M N A B = Some (transposed M N A B, B)"
    by (simp add: run_function_def registered_def rd_def transpose_submit_def)
  obtain B' where b: "trans M N A B = Some B'" "length B' = length B" "transposed M N A B'"
    using trans_transposes [OF assms(1,3) s] by blast
  then have "shaped M N B'" using s by (simp add: shaped_def)
  then obtain out where "validate 1 M N A B' = Some (True, out)" using validate_iff [OF assms(1,3) s(1), of B' 1] b(3) by auto
  then have tr: "run_function registered 1 M N A B = Some (True, B')"
    using b(1) by (simp add: run_function_def registered_def rd_def)
  have "run_all registered 0 M N A B = Some (if transposed M N A B then 0 else 1)"
    using sub tr length_registered
    by (simp add: run_all.simps [of registered 0] run_all.simps [of registered 1] run_all.simps [of registered 2])
  then show thesis using that [OF i(1)] sub tr by (simp add: tracegen_main_def registerFunctions_list i(1))
qed

text \<open>
  Run over all functions, \<open>tracegen\<close> does not reset \<open>B\<close> between them: a function that does nothing passes
  behind one that is correct.
\<close>

lemma run_all_stale:
  assumes "0 \<le> M" and "0 \<le> N" and "shaped M N A" and "shaped M N B"
    and "func_ptr f = trans" and "func_ptr g = transpose_submit"
  shows "run_all [f, g] 0 M N A B = Some 0"
proof -
  obtain B' where b: "trans M N A B = Some B'" "length B' = length B" "transposed M N A B'"
    using trans_transposes [OF assms(1-4)] by blast
  then have s: "shaped M N B'" using assms(4) by (simp add: shaped_def)
  obtain out where "validate 0 M N A B' = Some (transposed M N A B', out)" using validate_iff [OF assms(1-3) s] .
  moreover obtain out' where "validate 1 M N A B' = Some (transposed M N A B', out')" using validate_iff [OF assms(1-3) s] .
  ultimately have "run_function [f, g] 0 M N A B = Some (True, B')" "run_function [f, g] 1 M N A B' = Some (True, B')"
    using b assms(5,6) by (simp_all add: run_function_def rd_def transpose_submit_def)
  then show ?thesis
    by (simp add: run_all.simps [of "[f, g]" 0] run_all.simps [of "[f, g]" 1] run_all.simps [of "[f, g]" 2])
qed

section \<open>Traces\<close>

text \<open>A line whose number can be read, and its address.\<close>

definition line_addr :: "string \<Rightarrow> addr" where
  "line_addr buf = scan_addr (drop 3 buf) 0"

definition numbered :: "string \<Rightarrow> bool" where
  "numbered buf \<longleftrightarrow> (\<forall>a. scan_addr (drop 3 buf) a = line_addr buf)"

lemma numbered_test: "scan_addr (drop 3 b) 0 = scan_addr (drop 3 b) 1 \<Longrightarrow> numbered b"
  by (auto simp: numbered_def line_addr_def scan_addr_def Let_def split: prod.splits if_splits)

definition recorded :: "string \<Rightarrow> bool" where
  "recorded buf \<longleftrightarrow> is_access buf \<and> line_addr buf < 0xffffffff"

lemma filter_trace_line:
  "numbered buf \<Longrightarrow> filter_trace s e flag a (buf # bufs) =
     (if is_access buf then
        let flag = (flag \<or> line_addr buf = s); out = (if flag \<and> recorded buf then [buf] else [])
        in if line_addr buf = e then (out, True)
           else (out @ fst (filter_trace s e flag (line_addr buf) bufs), snd (filter_trace s e flag (line_addr buf) bufs))
      else filter_trace s e flag a bufs)"
  by (simp add: numbered_def recorded_def Let_def case_prod_unfold)

declare filter_trace.simps(2) [simp del]

lemma filter_trace_skip:
  "\<forall>b \<in> set pre. numbered b \<and> (is_access b \<longrightarrow> line_addr b \<noteq> s \<and> line_addr b \<noteq> e) \<Longrightarrow>
     \<exists>a'. filter_trace s e False a (pre @ bufs) = filter_trace s e False a' bufs"
  by (induction pre arbitrary: a) (auto simp: filter_trace_line Let_def)

lemma filter_trace_inside:
  "\<forall>b \<in> set mid. numbered b \<and> (is_access b \<longrightarrow> line_addr b \<noteq> e) \<Longrightarrow> numbered x \<Longrightarrow> is_access x \<Longrightarrow> line_addr x = e \<Longrightarrow>
     filter_trace s e True a (mid @ x # post) = (filter recorded (mid @ [x]), True)"
  by (induction mid arbitrary: a) (auto simp: filter_trace_line Let_def recorded_def)

lemma filter_trace_markers:
  assumes "\<forall>b \<in> set (pre @ x # mid @ [y]). numbered b" and "is_access x" and "line_addr x = s" and "is_access y" and "line_addr y = e"
    and "s \<noteq> e" and "\<forall>b \<in> set pre. is_access b \<longrightarrow> line_addr b \<noteq> s \<and> line_addr b \<noteq> e"
    and "\<forall>b \<in> set mid. is_access b \<longrightarrow> line_addr b \<noteq> e"
  shows "filter_trace s e False a (pre @ x # mid @ y # post) = (filter recorded (x # mid @ [y]), True)"
proof -
  obtain a' where "filter_trace s e False a (pre @ x # mid @ y # post) = filter_trace s e False a' (x # mid @ y # post)"
    using filter_trace_skip [of pre s e a "x # mid @ y # post"] assms(1,7) by auto
  then show ?thesis
    using assms filter_trace_inside [of mid e y s _ post] by (auto simp: filter_trace_line Let_def recorded_def)
qed

text \<open>
  C39. The trace of one function is what lies between the markers: the accesses from the start marker to the
  end marker, both included, at addresses below \<open>0xffffffff\<close>, in order; and the file is closed.
\<close>

theorem filter_trace_between:
  assumes "\<forall>b \<in> set (pre @ x # mid @ [y]). numbered b" and "is_access x" and "line_addr x = s" and "is_access y" and "line_addr y = e"
    and "s \<noteq> e" and "\<forall>b \<in> set pre. is_access b \<longrightarrow> line_addr b \<noteq> s \<and> line_addr b \<noteq> e"
    and "\<forall>b \<in> set mid. is_access b \<longrightarrow> line_addr b \<noteq> e"
  shows "filter_trace s e False a (pre @ x # mid @ y # post) = (filter recorded (x # mid @ [y]), True)"
  by (rule filter_trace_markers [OF assms])

theorem filter_trace_between_witness:
  "filter_trace 0x601040 0x601041 False 0
     ([''I  04000000,3'', '' L 04222000,8''] @ '' S 00601040,1'' # ['' L 00601060,4'', '' S 1ffeffe7e0,8'', '' M 00641060,4''] @
      '' S 00601041,1'' # ['' L 00601080,4'']) =
   ([ '' S 00601040,1'', '' L 00601060,4'', '' M 00641060,4'', '' S 00601041,1''], True)"
proof -
  let ?mid = "['' L 00601060,4'', '' S 1ffeffe7e0,8'', '' M 00641060,4'']"
  have "filter recorded ('' S 00601040,1'' # ?mid @ ['' S 00601041,1'']) =
      ['' S 00601040,1'', '' L 00601060,4'', '' M 00641060,4'', '' S 00601041,1'']" by code_simp
  moreover have "\<forall>b \<in> set ([''I  04000000,3'', '' L 04222000,8''] @ '' S 00601040,1'' # ?mid @ ['' S 00601041,1'']). numbered b"
  proof (intro ballI numbered_test)
    fix b assume "b \<in> set ([''I  04000000,3'', '' L 04222000,8''] @ '' S 00601040,1'' # ?mid @ ['' S 00601041,1''])"
    moreover have "\<forall>b \<in> set ([''I  04000000,3'', '' L 04222000,8''] @ '' S 00601040,1'' # ?mid @ ['' S 00601041,1'']).
        scan_addr (drop 3 b) 0 = scan_addr (drop 3 b) 1" by code_simp
    ultimately show "scan_addr (drop 3 b) 0 = scan_addr (drop 3 b) 1" by blast
  qed
  then have "filter_trace 0x601040 0x601041 False 0
      ([''I  04000000,3'', '' L 04222000,8''] @ '' S 00601040,1'' # ?mid @ '' S 00601041,1'' # ['' L 00601080,4'']) =
      (filter recorded ('' S 00601040,1'' # ?mid @ ['' S 00601041,1'']), True)"
    by (rule filter_trace_between) code_simp+
  ultimately show ?thesis by (simp only:)
qed

text \<open>Without an end marker the file is not closed before the simulator reads it.\<close>

lemma filter_trace_open:
  "\<forall>b \<in> set bufs. numbered b \<and> (is_access b \<longrightarrow> line_addr b \<noteq> e) \<Longrightarrow> \<not> snd (filter_trace s e flag a bufs)"
  by (induction bufs arbitrary: a flag) (auto simp: filter_trace_line Let_def)

section \<open>The report\<close>

text \<open>
  C40. What \<open>test-trans\<close> reports, with \<open>tracegen\<close> as modelled: the submission is reported incorrect with \<open>INT_MAX\<close>
  misses unless the random matrices happened to be transposes; else as correct, with the misses that the simulator
  counts in the file of the accesses between the markers, when both markers occur in the trace of the submission
  and every access of it has an address.
\<close>

theorem test_trans_reports:
  assumes size: "0 < M" "M \<le> 256" "0 < N" "N \<le> 256"
    and tracegen: "\<forall>f \<in> {0, 1}. tracegen_main rand r M N f = Some (tracegen (W M N) f)"
    and trace: "trace_tmp (W M N) 0 = pre @ x # mid @ y # post" "marker (W M N) 0 = (s, e)"
    and markers: "is_access x" "line_addr x = s" "is_access y" "line_addr y = e" "s \<noteq> e"
    and others: "\<forall>b \<in> set (pre @ x # mid @ [y]). numbered b"
      "\<forall>b \<in> set pre. is_access b \<longrightarrow> line_addr b \<noteq> s \<and> line_addr b \<noteq> e" "\<forall>b \<in> set mid. is_access b \<longrightarrow> line_addr b \<noteq> e"
  shows "\<exists>A B r'. initMatrix rand M N (static_matrix, static_matrix, r) = Some (A, B, r') \<and>
    test_trans_main W M N = Some (0,
      if transposed M N A B then
        ''TEST_TRANS_RESULTS=1:'' @ show_int (sint (fst (snd (csim_ref (W M N) (concat (filter recorded (x # mid @ [y])))))))
      else ''TEST_TRANS_RESULTS=0:'' @ show_int INT_MAX)"
proof -
  obtain A B r' where i: "initMatrix rand M N (static_matrix, static_matrix, r) = Some (A, B, r')"
      "tracegen_main rand r M N 0 = Some (if transposed M N A B then 0 else 1)" "tracegen_main rand r M N 1 = Some 0"
    using tracegen_status [of M N rand r] size by (metis order_less_imp_le)
  then have w: "tracegen (W M N) 0 = (if transposed M N A B then 0 else 1)" "tracegen (W M N) 1 = 0" using tracegen by auto
  have s: "show_int 0 = ''0''" "show_int 1 = ''1''" by code_simp+
  have f: "filter_trace s e False a (pre @ x # mid @ y # post) = (filter recorded (x # mid @ [y]), True)" for a
    by (rule filter_trace_markers [OF others(1) markers others(2,3)])
  have "test_trans_main W M N = Some (0,
      if transposed M N A B then
        ''TEST_TRANS_RESULTS=1:'' @ show_int (sint (fst (snd (csim_ref (W M N) (concat (filter recorded (x # mid @ [y])))))))
      else ''TEST_TRANS_RESULTS=0:'' @ show_int INT_MAX)"
    using size w trace f
    by (simp add: test_trans_main_def MAXN_def eval_perf_def registerFunctions_list registered_def eval_function_def
        results_init_def SUBMIT_DESCRIPTION_def Let_def case_prod_unfold s del: filter.simps)
  then show ?thesis using i(1) by blast
qed

definition demo_rand :: "nat \<Rightarrow> 32 word \<times> nat" where
  "demo_rand r = (of_nat r, r + 1)"

definition demo_world :: "int \<Rightarrow> int \<Rightarrow> world" where
  "demo_world M N = \<lparr>tracegen = (\<lambda>f. the (tracegen_main demo_rand 7 M N f)),
     trace_tmp = (\<lambda>_. [''I  04000000,3'', '' S 00601040,1'', '' L 00601060,4'', '' S 00601041,1'']),
     marker = (\<lambda>_. (0x601040, 0x601041)), flushed = (\<lambda>_. 0), csim_ref = (\<lambda>file. (0, of_nat (length file), 0)), first_addr = 7\<rparr>"

theorem test_trans_reports_witness:
  "\<exists>line. test_trans_main demo_world 32 32 = Some (0, line)"
proof -
  obtain A B r' where "tracegen_main demo_rand 7 32 32 0 = Some (if transposed 32 32 A B then 0 else 1)"
      "tracegen_main demo_rand 7 32 32 1 = Some 0"
    by (rule tracegen_status [of 32 32 demo_rand 7]) simp_all
  then have t: "\<forall>f \<in> {0, 1}. tracegen_main demo_rand 7 32 32 f = Some (tracegen (demo_world 32 32) f)"
    by (auto simp: demo_world_def)
  have n: "\<forall>b \<in> set ([''I  04000000,3''] @ '' S 00601040,1'' # ['' L 00601060,4''] @ ['' S 00601041,1'']). numbered b"
  proof (intro ballI numbered_test)
    fix b assume "b \<in> set ([''I  04000000,3''] @ '' S 00601040,1'' # ['' L 00601060,4''] @ ['' S 00601041,1''])"
    moreover have "\<forall>b \<in> set ([''I  04000000,3''] @ '' S 00601040,1'' # ['' L 00601060,4''] @ ['' S 00601041,1'']).
        scan_addr (drop 3 b) 0 = scan_addr (drop 3 b) 1" by code_simp
    ultimately show "scan_addr (drop 3 b) 0 = scan_addr (drop 3 b) 1" by blast
  qed
  let ?pre = "[''I  04000000,3'']" and ?x = "'' S 00601040,1''" and ?mid = "['' L 00601060,4'']" and ?y = "'' S 00601041,1''"
  have a: "is_access ?x" "line_addr ?x = 0x601040" "is_access ?y" "line_addr ?y = 0x601041" "(0x601040 :: addr) \<noteq> 0x601041"
    "\<forall>b \<in> set ?pre. is_access b \<longrightarrow> line_addr b \<noteq> 0x601040 \<and> line_addr b \<noteq> 0x601041"
    "\<forall>b \<in> set ?mid. is_access b \<longrightarrow> line_addr b \<noteq> 0x601041"
    by code_simp+
  have w: "trace_tmp (demo_world 32 32) 0 = ?pre @ ?x # ?mid @ ?y # []" "marker (demo_world 32 32) 0 = (0x601040, 0x601041)"
    by (simp_all add: demo_world_def)
  show ?thesis
    using test_trans_reports [of 32 32 demo_rand 7 demo_world ?pre ?x ?mid ?y "[]" "0x601040" "0x601041",
        OF _ _ _ _ t w a(1-5) n a(6,7)]
    by auto
qed

text \<open>The file of the simulator reads back.\<close>

lemma scan_printSummary:
  "h \<in> {0..<2 ^ 31} \<Longrightarrow> m \<in> {0..<2 ^ 31} \<Longrightarrow> e \<in> {0..<2 ^ 31} \<Longrightarrow> scan_results (snd (printSummary h m e)) = Some (h, m, e)"
  by (simp add: scan_results_def printSummary_def fscan_show)

end
