(* ===== verification/Fcyc.thy ===== *)
theory Fcyc
  imports Timing
begin

text \<open>
  The K-best estimate of a running time: \<open>lab7/fcyc.c\<close>, and the choice of the timer in \<open>lab7/fsecs.c\<close>.
  A loop that does not end, an access outside an array and the exit after a failed \<open>malloc\<close> give \<open>None\<close>.
\<close>

section \<open>Samples\<close>

record sampler =
  kbest :: int
  maxsamples :: int
  compensate :: bool
  epsilon :: real
  samples :: "real list"
  samplecount :: int

definition sampler_init :: sampler where
  "sampler_init = \<lparr>kbest = 3, maxsamples = 20, compensate = False, epsilon = 1 / 100, samples = [], samplecount = 0\<rparr>"

definition init_sampler :: "sampler \<Rightarrow> sampler" where
  "init_sampler s = s\<lparr>samples := replicate (nat (kbest s)) 0, samplecount := 0\<rparr>"

text \<open>The insertion sort: the value at \<open>pos\<close> moves to the left while its neighbour is larger.\<close>

primrec sift :: "'a::linorder list \<Rightarrow> nat \<Rightarrow> 'a list" where
  "sift vs 0 = vs"
| "sift vs (Suc p) = (if vs ! p > vs ! Suc p then sift (vs[p := vs ! Suc p, Suc p := vs ! p]) p else vs)"

definition add_sample :: "real \<Rightarrow> sampler \<Rightarrow> sampler option" where
  "add_sample val s =
     (if samplecount s < kbest s then
        let pos = nat (samplecount s)
        in Some (s\<lparr>samples := sift ((samples s)[pos := val]) pos, samplecount := samplecount s + 1\<rparr>)
      else do {
        worst \<leftarrow> rd (samples s) (kbest s - 1);
        if val < worst then
          let pos = nat (kbest s - 1)
          in Some (s\<lparr>samples := sift ((samples s)[pos := val]) pos, samplecount := samplecount s + 1\<rparr>)
        else Some (s\<lparr>samplecount := samplecount s + 1\<rparr>)
      })"

definition has_converged :: "sampler \<Rightarrow> bool" where
  "has_converged s \<longleftrightarrow>
     kbest s \<le> samplecount s \<and> samples s ! nat (kbest s - 1) \<le> (1 + epsilon s) * samples s ! 0"

section \<open>Clearing the cache\<close>

record cache =
  clear_cache :: bool
  cache_bytes :: int
  cache_block :: int
  cache_buf :: "32 word list option"
  sink :: "32 word"

definition cache_init :: cache where
  "cache_init = \<lparr>clear_cache = False, cache_bytes = 524288, cache_block = 32, cache_buf = None, sink = 0\<rparr>"

text \<open>\<open>bytes / sizeof(int)\<close>: the \<open>int\<close> is converted to an unsigned long before the division.\<close>

definition ints :: "int \<Rightarrow> nat" where
  "ints bytes = unat (word_of_int bytes div 4 :: 64 word)"

partial_function (option) clear_loop :: "32 word list \<Rightarrow> int \<Rightarrow> int \<Rightarrow> int \<Rightarrow> 32 word \<Rightarrow> 32 word option" where
  "clear_loop buf cptr cend incr acc =
     (if cptr < cend then do { v \<leftarrow> rd buf cptr; clear_loop buf (cptr + incr) cend incr (acc + v) } else Some acc)"

definition clear :: "'w machine \<Rightarrow> cache \<Rightarrow> 'w \<Rightarrow> cache option" where
  "clear M b w =
     do {
       buf \<leftarrow> (case cache_buf b of None \<Rightarrow> malloc_ints M (ints (cache_bytes b)) w | Some buf \<Rightarrow> Some buf);
       x \<leftarrow> clear_loop buf 0 (int (ints (cache_bytes b))) (sint (of_nat (ints (cache_block b)) :: 32 word)) (sink b);
       Some (b\<lparr>cache_buf := Some buf, sink := x\<rparr>)
     }"

section \<open>The measurement\<close>

text \<open>One turn of either loop of \<open>fcyc\<close>, up to the new sample.\<close>

type_synonym 'w timed = "(clock \<times> cache) \<times> 'w"

definition run_once :: "'w machine \<Rightarrow> bool \<Rightarrow> ('w \<Rightarrow> 'w) \<Rightarrow> 'w timed \<Rightarrow> (real \<times> 'w timed) option" where
  "run_once M comps f t =
     (let ((c, b), w) = t
      in do {
        b \<leftarrow> (if clear_cache b then clear M b w else Some b);
        (c, w) \<leftarrow> (if comps then start_comp_counter M c w else Some (start_counter M c w));
        let w = f w;
        let (cyc, w) = (if comps then get_comp_counter M c w else get_counter M c w);
        Some (cyc, ((c, b), w))
      })"

text \<open>The loop, over any way to take a sample.  It ends because every turn counts a sample.\<close>

lemma add_sample_counts:
  "add_sample v s = Some s' \<Longrightarrow> samplecount s' = samplecount s + 1 \<and> maxsamples s' = maxsamples s \<and>
     kbest s' = kbest s \<and> epsilon s' = epsilon s"
  by (auto simp: add_sample_def Let_def Option.bind_eq_Some_conv split: if_splits)

function fcyc_loop :: "('t \<Rightarrow> (real \<times> 't) option) \<Rightarrow> sampler \<Rightarrow> 't \<Rightarrow> (sampler \<times> 't) option" where
  "fcyc_loop take_one s t =
     (case take_one t of
        None \<Rightarrow> None
      | Some (cyc, t) \<Rightarrow>
          (case add_sample cyc s of
             None \<Rightarrow> None
           | Some s \<Rightarrow>
               if \<not> has_converged s \<and> samplecount s < maxsamples s then fcyc_loop take_one s t else Some (s, t)))"
  by pat_completeness auto
termination
  by (relation "measure (\<lambda>(m, s, t). nat (maxsamples s - samplecount s))") (auto dest: add_sample_counts)

declare fcyc_loop.simps [simp del]

definition fcyc :: "'w machine \<Rightarrow> ('w \<Rightarrow> 'w) \<Rightarrow> sampler \<Rightarrow> 'w timed \<Rightarrow> (real \<times> sampler \<times> 'w timed) option" where
  "fcyc M f s t =
     do {
       (s, t) \<leftarrow> fcyc_loop (run_once M (compensate s) f) (init_sampler s) t;
       result \<leftarrow> rd (samples s) 0;
       Some (result, s\<lparr>samples := []\<rparr>, t)
     }"

section \<open>Parameters\<close>

definition set_fcyc_clear_cache :: "bool \<Rightarrow> cache \<Rightarrow> cache" where
  "set_fcyc_clear_cache clr b = b\<lparr>clear_cache := clr\<rparr>"

definition set_fcyc_cache_size :: "int \<Rightarrow> cache \<Rightarrow> cache" where
  "set_fcyc_cache_size bytes b =
     (if bytes \<noteq> cache_bytes b then b\<lparr>cache_bytes := bytes, cache_buf := None\<rparr> else b)"

definition set_fcyc_cache_block :: "int \<Rightarrow> cache \<Rightarrow> cache" where
  "set_fcyc_cache_block bytes b = b\<lparr>cache_block := bytes\<rparr>"

definition set_fcyc_k :: "int \<Rightarrow> sampler \<Rightarrow> sampler" where
  "set_fcyc_k k s = s\<lparr>kbest := k\<rparr>"

definition set_fcyc_maxsamples :: "int \<Rightarrow> sampler \<Rightarrow> sampler" where
  "set_fcyc_maxsamples n s = s\<lparr>maxsamples := n\<rparr>"

definition set_fcyc_epsilon :: "real \<Rightarrow> sampler \<Rightarrow> sampler" where
  "set_fcyc_epsilon e s = s\<lparr>epsilon := e\<rparr>"

definition set_fcyc_compensate :: "bool \<Rightarrow> sampler \<Rightarrow> sampler" where
  "set_fcyc_compensate comps s = s\<lparr>compensate := comps\<rparr>"

text \<open>\<open>fsecs.c\<close> when it uses the cycle counter: \<open>init_fsecs\<close> sets the parameters and measures the clock rate.\<close>

definition init_fsecs :: "'w machine \<Rightarrow> sampler \<Rightarrow> 'w timed \<Rightarrow> real \<times> sampler \<times> 'w timed" where
  "init_fsecs M s t =
     (let ((c, b), w) = t;
          s = set_fcyc_maxsamples 20 s;
          b = set_fcyc_clear_cache True b;
          s = set_fcyc_compensate True s;
          s = set_fcyc_epsilon (1 / 100) s;
          s = set_fcyc_k 3 s;
          (Mhz, c, w) = mhz M c w
      in (Mhz, s, ((c, b), w)))"

definition fsecs :: "'w machine \<Rightarrow> real \<Rightarrow> ('w \<Rightarrow> 'w) \<Rightarrow> sampler \<Rightarrow> 'w timed \<Rightarrow> (real \<times> sampler \<times> 'w timed) option" where
  "fsecs M Mhz f s t =
     do { (cycles, s, t) \<leftarrow> fcyc M f s t; Some (cycles / (Mhz * 1000000), s, t) }"

section \<open>What clearing reads\<close>

text \<open>
  The loop stays within the buffer and ends when the block size is at least that of an \<open>int\<close>; with a
  smaller one it never ends.
\<close>

lemma clear_loop_returns:
  "0 < incr \<Longrightarrow> 0 \<le> cptr \<Longrightarrow> cend \<le> int (length buf) \<Longrightarrow> \<exists>y. clear_loop buf cptr cend incr x = Some y"
proof (induction "nat (cend - cptr)" arbitrary: cptr x rule: less_induct)
  case less
  show ?case
  proof (cases "cptr < cend")
    case True
    then have "\<exists>y. clear_loop buf (cptr + incr) cend incr z = Some y" for z using less by simp
    then show ?thesis using True less.prems by (subst clear_loop.simps) (simp add: rd_def)
  qed (simp add: clear_loop.simps)
qed

lemma clear_loop_step:
  assumes "clear_loop buf cptr cend incr x = Some y"
  shows "incr = 0 \<longrightarrow> \<not> cptr < cend"
  using assms by (induction rule: clear_loop.raw_induct [rotated, consumes 1])
    (auto split: if_splits simp: Option.bind_eq_Some_conv)

lemma clear_loop_stays: "cptr < cend \<Longrightarrow> clear_loop buf cptr cend 0 x = None"
  using clear_loop_step [of buf cptr cend 0 x] by (cases "clear_loop buf cptr cend 0 x") auto

lemma clear_returns:
  assumes "0 \<le> cache_bytes b" "cache_bytes b < 2 ^ 31" "4 \<le> cache_block b" "cache_block b < 2 ^ 31"
    and "cache_buf b = None" "malloc_ints M (ints (cache_bytes b)) w = Some buf" "length buf = ints (cache_bytes b)"
  shows "\<exists>b'. clear M b w = Some b' \<and> cache_buf b' = Some buf"
proof -
  have i: "ints z = nat z div 4" if "0 \<le> z" "z < 2 ^ 31" for z
  proof -
    have "word_of_int z = (of_nat (nat z) :: 64 word)" using that by simp
    moreover have "nat z < 2 ^ 31" using that by simp
    then have "unat (of_nat (nat z) :: 64 word) = nat z" by (simp add: unat_of_nat)
    ultimately have "unat (word_of_int z :: 64 word) = nat z" by metis
    then show ?thesis by (simp add: ints_def unat_div_distrib)
  qed
  let ?n = "nat (cache_block b) div 4"
  have "0 < ?n" "?n < 2 ^ 31" using assms(3,4) by simp_all
  then have "sint (of_nat ?n :: 32 word) = int ?n" by (simp add: signed_of_nat signed_take_bit_int_eq_self)
  then have "0 < sint (of_nat (ints (cache_block b)) :: 32 word)" using i assms(3,4) \<open>0 < ?n\<close> by simp
  from clear_loop_returns [OF this, of 0 "int (ints (cache_bytes b))" buf "sink b"] assms(7) obtain y where
    "clear_loop buf 0 (int (ints (cache_bytes b))) (sint (of_nat (ints (cache_block b)) :: 32 word)) (sink b) = Some y"
    by auto
  then show ?thesis using assms(5,6) by (simp add: clear_def)
qed

section \<open>The smallest samples\<close>

text \<open>What the array holds after the samples \<open>xs\<close>: the \<open>k\<close> smallest in order, and zeros while there are fewer.\<close>

definition best :: "nat \<Rightarrow> real list \<Rightarrow> real list" where
  "best k xs = take k (sort xs) @ replicate (k - length xs) 0"

lemma insort_unique: "sorted xs \<Longrightarrow> sorted zs \<Longrightarrow> mset zs = add_mset v (mset xs) \<Longrightarrow> insort v xs = zs"
  by (metis mset_insort properties_for_sort sorted_insort sorted_sort_id)

lemma sift_insort: "sorted ys \<Longrightarrow> sift (ys @ v # zs) (length ys) = insort v ys @ zs"
proof (induction ys arbitrary: zs rule: rev_induct)
  case (snoc y ys)
  show ?case
  proof (cases "v < y")
    case True
    have "sift (ys @ [y] @ v # zs) (Suc (length ys)) = sift (ys @ v # (y # zs)) (length ys)"
      using True by (simp add: nth_append list_update_append)
    also have "\<dots> = insort v ys @ y # zs" using snoc by (simp add: sorted_append)
    also have "insort v (ys @ [y]) = insort v ys @ [y]"
      using True snoc.prems by (intro insort_unique) (auto simp: sorted_append sorted_insort set_insort_key)
    then have "insort v ys @ y # zs = insort v (ys @ [y]) @ zs" by simp
    finally show ?thesis by simp
  next
    case False
    then have "insort v (ys @ [y]) = ys @ [y, v]"
      using snoc.prems by (intro insort_unique) (fastforce simp: sorted_append)+
    with False show ?thesis by (simp add: nth_append)
  qed
qed simp

lemma sort_snoc: "sort (xs @ [v]) = insort v (sort xs)" for v :: "'a::linorder"
  by (rule properties_for_sort) (simp_all add: sorted_insort)

lemma take_insort:
  assumes "sorted ys" and "k < length ys"
  shows "take (Suc k) (insort v ys) = (if v < ys ! k then insort v (take k ys) else take (Suc k) ys)"
proof -
  let ?as = "take k ys" and ?b = "ys ! k" and ?cs = "drop (Suc k) ys"
  have y: "ys = ?as @ ?b # ?cs" using assms(2) by (simp add: Cons_nth_drop_Suc)
  have s: "sorted (?as @ ?b # ?cs)" using assms(1) y by simp
  have m: "mset ys = mset ?as + add_mset ?b (mset ?cs)" by (subst y) simp
  show ?thesis
  proof (cases "v < ?b")
    case True
    have "insort v ys = insort v ?as @ ?b # ?cs"
      using s True by (intro insort_unique) (auto simp: assms(1) m sorted_append sorted_insort set_insort_key)
    then show ?thesis using True assms(2) by (simp add: min_def)
  next
    case False
    have "insort v ys = ?as @ ?b # insort v ?cs"
      using s False by (intro insort_unique) (fastforce simp: assms(1) m sorted_append sorted_insort set_insort_key)+
    then show ?thesis using False assms(2) by (simp add: min_def take_Suc_conv_app_nth)
  qed
qed

definition holds :: "sampler \<Rightarrow> real list \<Rightarrow> bool" where
  "holds s xs \<longleftrightarrow> 0 < kbest s \<and> samplecount s = int (length xs) \<and> samples s = best (nat (kbest s)) xs"

lemma holds_init: "0 < kbest s \<Longrightarrow> holds (init_sampler s) []"
  by (simp add: holds_def init_sampler_def best_def)

lemma holds_add:
  assumes "holds s xs"
  obtains s' where "add_sample v s = Some s'" "holds s' (xs @ [v])"
proof -
  obtain k where k: "nat (kbest s) = Suc k" "kbest s = 1 + int k"
  proof
    show "nat (kbest s) = Suc (nat (kbest s - 1))" "kbest s = 1 + int (nat (kbest s - 1))"
      using assms unfolding holds_def by linarith+
  qed
  have c: "samplecount s = int (length xs)" and b: "samples s = best (Suc k) xs" using assms k by (simp_all add: holds_def)
  show thesis
  proof (cases "length xs \<le> k")
    case True
    let ?zs = "replicate (k - length xs) 0"
    have "(samples s)[length xs := v] = sort xs @ v # ?zs"
      using True by (simp add: b best_def list_update_append Suc_diff_le)
    then have "sift ((samples s)[length xs := v]) (length xs) = best (Suc k) (xs @ [v])"
      using sift_insort [of "sort xs" v ?zs] True by (simp add: best_def sort_snoc)
    then show thesis using True c k that by (simp add: add_sample_def holds_def)
  next
    case False
    then have s: "samples s = take (Suc k) (sort xs)" and n: "k < length (sort xs)" by (simp_all add: b best_def)
    have r: "rd (samples s) (kbest s - 1) = Some (sort xs ! k)" using n by (simp add: s k rd_def)
    have "(samples s)[k := v] = take k (sort xs) @ [v]" using n by (simp add: s take_Suc_conv_app_nth list_update_append min_def)
    then have "sift ((samples s)[k := v]) k = insort v (take k (sort xs))"
      using sift_insort [of "take k (sort xs)" v "[]"] n by (simp add: min_def sorted_wrt_take)
    then show thesis using False c k r that take_insort [OF _ n, of v]
      by (simp add: add_sample_def holds_def best_def sort_snoc s split: if_splits)
  qed
qed

text \<open>The samples taken in order, and when they are close enough.\<close>

fun measured :: "('t \<Rightarrow> (real \<times> 't) option) \<Rightarrow> nat \<Rightarrow> 't \<Rightarrow> (real list \<times> 't) option" where
  "measured take_one 0 t = Some ([], t)"
| "measured take_one (Suc n) t =
     do { (v, t) \<leftarrow> take_one t; (vs, t) \<leftarrow> measured take_one n t; Some (v # vs, t) }"

definition close :: "sampler \<Rightarrow> real list \<Rightarrow> bool" where
  "close s xs \<longleftrightarrow> kbest s \<le> int (length xs) \<and> sort xs ! nat (kbest s - 1) \<le> (1 + epsilon s) * sort xs ! 0"

lemma holds_converged: "holds s xs \<Longrightarrow> xs \<noteq> [] \<Longrightarrow> has_converged s \<longleftrightarrow> close s xs"
  by (auto simp: holds_def has_converged_def close_def best_def)

lemma holds_first:
  assumes "holds s xs" and "xs \<noteq> []"
  shows "rd (samples s) 0 = Some (Min (set xs))"
proof -
  obtain y ys where y: "sort xs = y # ys" using assms(2) by (metis length_0_conv length_sort neq_Nil_conv)
  have "set xs = set (y # ys)" using y by (metis set_sort)
  then have "Min (set xs) = y"
    using sorted_sort [of xs] unfolding y by (intro Min_eqI) auto
  then show ?thesis using assms y by (auto simp: holds_def best_def rd_def take_Cons' nth_append)
qed

lemma fcyc_loop_takes:
  assumes "holds s xs" and "measured m (length ys) t = Some (ys, u)" and "ys \<noteq> []"
    and "maxsamples s \<le> int (length xs + length ys)"
  shows "\<exists>n s' t'. fcyc_loop m s t = Some (s', t') \<and> 0 < n \<and> n \<le> length ys \<and> holds s' (xs @ take n ys) \<and>
    measured m n t = Some (take n ys, t') \<and> (close s (xs @ take n ys) \<or> maxsamples s \<le> int (length xs + n)) \<and>
    (\<forall>j. 0 < j \<and> j < n \<longrightarrow> \<not> close s (xs @ take j ys))"
  using assms
proof (induction ys arbitrary: s xs t)
  case (Cons y ys)
  from Cons.prems(2) obtain t1 where t1: "m t = Some (y, t1)" "measured m (length ys) t1 = Some (ys, u)"
    by (auto simp: Option.bind_eq_Some_conv)
  obtain s1 where s1: "add_sample y s = Some s1" "holds s1 (xs @ [y])" using holds_add [OF Cons.prems(1)] .
  note c = add_sample_counts [OF s1(1)]
  have cl: "close s1 zs \<longleftrightarrow> close s zs" for zs using c by (simp add: close_def)
  have sc: "samplecount s1 = int (length xs + 1)" using s1(2) by (simp add: holds_def)
  have v: "has_converged s1 \<longleftrightarrow> close s (xs @ [y])" using holds_converged [OF s1(2)] cl by simp
  show ?case
  proof (cases "has_converged s1 \<or> maxsamples s \<le> int (length xs + 1)")
    case True
    then have "fcyc_loop m s t = Some (s1, t1)" using t1 s1 c sc by (auto simp: fcyc_loop.simps [of m s t])
    then show ?thesis using True s1(2) t1 v by (intro exI [of _ 1] exI [of _ s1] exI [of _ t1]) auto
  next
    case False
    then have f: "fcyc_loop m s t = fcyc_loop m s1 t1" using t1 s1 c sc by (simp add: fcyc_loop.simps [of m s t])
    have "ys \<noteq> []" using False Cons.prems(4) by auto
    from Cons.IH [OF s1(2) t1(2) this] Cons.prems(4) c obtain n s' t' where
      i: "fcyc_loop m s1 t1 = Some (s', t')" "0 < n" "n \<le> length ys" "holds s' ((xs @ [y]) @ take n ys)"
        "measured m n t1 = Some (take n ys, t')" "close s1 ((xs @ [y]) @ take n ys) \<or> maxsamples s1 \<le> int (length (xs @ [y]) + n)"
        "\<forall>j. 0 < j \<and> j < n \<longrightarrow> \<not> close s1 ((xs @ [y]) @ take j ys)" by auto
    have "\<not> close s (xs @ take j (y # ys))" if "0 < j" "j < Suc n" for j
      using that i(7) False v cl by (cases j; cases "j - 1") auto
    then show ?thesis using f i t1 c cl by (intro exI [of _ "Suc n"] exI [of _ s'] exI [of _ t']) auto
  qed
qed simp

text \<open>
  C22. The K-best scheme: when the machine yields the measurements, \<open>fcyc\<close> returns after at most
  \<open>maxsamples\<close> of them (and at least one) the smallest; it stops at the first number of samples of which the \<open>k\<close>
  smallest lie within epsilon, or at the last.
\<close>

theorem fcyc_k_best:
  assumes "0 < kbest s" and "measured (run_once M (compensate s) f) (nat (max 1 (maxsamples s))) t = Some (ys, u)"
  shows "\<exists>n s' t'. fcyc M f s t = Some (Min (set (take n ys)), s', t') \<and> 0 < n \<and> n \<le> nat (max 1 (maxsamples s)) \<and>
    measured (run_once M (compensate s) f) n t = Some (take n ys, t') \<and>
    (close s (take n ys) \<or> n = nat (max 1 (maxsamples s))) \<and> (\<forall>j. 0 < j \<and> j < n \<longrightarrow> \<not> close s (take j ys))"
proof -
  have len: "measured m n t = Some (ys, u) \<Longrightarrow> length ys = n" for m n and t u :: "'a timed" and ys
    by (induction n arbitrary: t ys) (auto simp: Option.bind_eq_Some_conv)
  note l = len [OF assms(2)]
  let ?s = "init_sampler s"
  have cl: "close ?s = close s" "maxsamples ?s = maxsamples s" by (simp_all add: close_def init_sampler_def fun_eq_iff)
  have "ys \<noteq> []" using l by auto
  have "maxsamples ?s \<le> int (length ([] :: real list) + length ys)" using l cl by (simp add: max_def)
  from fcyc_loop_takes [OF holds_init [OF assms(1)] assms(2) [folded l] \<open>ys \<noteq> []\<close> this]
  obtain n s' t' where i: "fcyc_loop (run_once M (compensate s) f) ?s t = Some (s', t')" "0 < n" "n \<le> length ys"
      "holds s' (take n ys)" "measured (run_once M (compensate s) f) n t = Some (take n ys, t')"
      "close s (take n ys) \<or> maxsamples s \<le> int n" "\<forall>j. 0 < j \<and> j < n \<longrightarrow> \<not> close s (take j ys)"
    unfolding cl append_Nil using l by auto
  have ne: "take n ys \<noteq> []" using i(2) \<open>ys \<noteq> []\<close> by simp
  have e: "fcyc M f s t = Some (Min (set (take n ys)), s'\<lparr>samples := []\<rparr>, t')"
    using holds_first [OF i(4) ne] i(1) by (simp add: fcyc_def)
  have d: "close s (take n ys) \<or> n = nat (max 1 (maxsamples s))" using i(2,3,6) l by linarith
  show ?thesis
    by (intro exI [of _ n] exI [of _ "s'\<lparr>samples := []\<rparr>"] exI [of _ t'] conjI e d i(2,5,7) i(3) [unfolded l])
qed

text \<open>A machine whose counter advances by the cost of each run, and the first five samples of a run.\<close>

definition demo_machine :: "(nat \<times> nat list) machine" where
  "demo_machine = \<lparr>rdtsc = \<lambda>(t, ds). (halves (of_nat t), (t, ds)), tms_utime = \<lambda>w. (0, w), gettimeofday = \<lambda>w. ((0, 0), w),
     getitimer = \<lambda>w. ((0, 0), w), sleep = \<lambda>_ w. w, malloc_ints = \<lambda>_ _. None\<rparr>"

definition demo_run :: "nat \<times> nat list \<Rightarrow> nat \<times> nat list" where
  "demo_run w = (case w of (t, d # ds) \<Rightarrow> (t + d, ds) | (t, []) \<Rightarrow> (t, []))"

lemma demo_once:
  assumes "d < 2 ^ 53"
  shows "run_once demo_machine False demo_run ((c, cache_init), (t, d # ds)) =
    Some (of_nat d, ((set_counter (halves (of_nat t)) c, cache_init), (t + d, ds)))"
  using tsc.exact [of t "t + d" c] assms
  by (simp add: run_once_def cache_init_def start_counter_def get_counter_def demo_machine_def demo_run_def)

lemma measured_numeral: "measured m (numeral k) t =
    do { (v, t) \<leftarrow> m t; (vs, t) \<leftarrow> measured m (pred_numeral k) t; Some (v # vs, t) }"
  by (simp add: numeral_eq_Suc)

theorem fcyc_k_best_witness:
  "\<exists>n s' t'. fcyc demo_machine demo_run (set_fcyc_maxsamples 5 sampler_init) ((clock_init, cache_init), (0, [900, 700, 800, 701, 702])) =
     Some (Min (set (take n [900, 700, 800, 701, 702])), s', t') \<and> 0 < n \<and> n \<le> 5"
proof -
  let ?s = "set_fcyc_maxsamples 5 sampler_init"
  let ?t = "((clock_init, cache_init), (0, [900, 700, 800, 701, 702])) :: (nat \<times> nat list) timed"
  define ys :: "real list" where "ys = [900, 700, 800, 701, 702]"
  have s: "0 < kbest ?s" "compensate ?s = False" "nat (max 1 (maxsamples ?s)) = 5"
    by (simp_all add: set_fcyc_maxsamples_def sampler_init_def)
  have "\<exists>u. measured (run_once demo_machine False demo_run) 5 ?t = Some (ys, u)"
    by (simp add: demo_once measured_numeral ys_def)
  then obtain u where "measured (run_once demo_machine False demo_run) 5 ?t = Some (ys, u)" by blast
  from fcyc_k_best [of ?s demo_machine demo_run ?t ys u, unfolded s(2,3), OF s(1) this]
  show ?thesis unfolding ys_def by blast
qed

end
