(* ===== verification/Yat.thy ===== *)
theory Yat
  imports CStrings
begin

text \<open>
  \<open>yat\<close>, the tester of the Y64 assembler (\<open>lab5/yat.c\<close>): it runs the assembler of the student and a reference
  through the shell, compares their output, and keeps the score.

  The shell is a parameter, from a command and the world to the status of \<open>system\<close> and the next world.  Commands
  are put together in \<open>cmdbuf\<close>; one that does not fit the buffer gives \<open>None\<close>.
\<close>

section \<open>Commands\<close>

definition COMMAND_BUFFER_SIZE :: nat where "COMMAND_BUFFER_SIZE = 1024"

type_synonym 'w shell = "string \<Rightarrow> 'w \<Rightarrow> int \<times> 'w"

definition run_command :: "'w shell \<Rightarrow> string \<Rightarrow> 'w \<Rightarrow> (int \<times> 'w) option" where
  "run_command sh cmdbuf w = (if length cmdbuf < COMMAND_BUFFER_SIZE then Some (sh cmdbuf w) else None)"

text \<open>\<open>!\<close> on a status, and the conjunction of statuses that must all be 0, which stops at the first that is not.\<close>

definition c_not :: "int \<Rightarrow> int" where "c_not n = (if n = 0 then 1 else 0)"

fun all_zero :: "('w \<Rightarrow> (int \<times> 'w) option) list \<Rightarrow> 'w \<Rightarrow> (bool \<times> 'w) option" where
  "all_zero [] w = Some (True, w)"
| "all_zero (c # cs) w = do { (n, w) \<leftarrow> c w; if n = 0 then all_zero cs w else Some (False, w) }"

fun strstr :: "string \<Rightarrow> string \<Rightarrow> string option" where
  "strstr [] needle = (if needle = [] then Some [] else None)"
| "strstr (c # cs) needle =
     (if take (length needle) (c # cs) = needle then Some (c # cs) else strstr cs needle)"

definition make_y64asm :: "'w shell \<Rightarrow> 'w \<Rightarrow> int \<times> 'w" where
  "make_y64asm sh = sh ''make > /dev/null''"

definition make_app_stu :: "'w shell \<Rightarrow> string \<Rightarrow> 'w \<Rightarrow> (int \<times> 'w) option" where
  "make_app_stu sh name = run_command sh (''cd y64-app; make '' @ name @ ''.yo > /dev/null'')"

definition make_app_base :: "'w shell \<Rightarrow> string \<Rightarrow> 'w \<Rightarrow> (int \<times> 'w) option" where
  "make_app_base sh name = run_command sh (''cd y64-base; make '' @ name @ ''.yo > /dev/null'')"

definition diff_app :: "'w shell \<Rightarrow> string \<Rightarrow> 'w \<Rightarrow> (int \<times> 'w) option" where
  "diff_app sh name =
     run_command sh ((''diff y64-app/'' @ name @ ''.yo y64-base/'' @ name @ ''.yo'') @ ''; '' @
                 (''diff y64-app/'' @ name @ ''.bin y64-base/'' @ name @ ''.bin''))"

definition make_err_stu :: "'w shell \<Rightarrow> string \<Rightarrow> 'w \<Rightarrow> (int \<times> 'w) option" where
  "make_err_stu sh name w =
     do { (n, w) \<leftarrow> run_command sh (''./y64asm y64-err/'' @ name @ ''.ys 2> '' @ name @ ''.err'') w; Some (c_not n, w) }"

definition make_err_base :: "'w shell \<Rightarrow> string \<Rightarrow> 'w \<Rightarrow> (int \<times> 'w) option" where
  "make_err_base sh name w =
     do { (n, w) \<leftarrow> run_command sh (''./y64-base/y64asm-base y64-err/'' @ name @ ''.ys 2> '' @ name @ ''.err.base'') w;
          Some (c_not n, w) }"

definition diff_err :: "'w shell \<Rightarrow> string \<Rightarrow> 'w \<Rightarrow> (int \<times> 'w) option" where
  "diff_err sh name = run_command sh (''diff '' @ name @ ''.err '' @ name @ ''.err.base'')"

definition make_ins_stu :: "'w shell \<Rightarrow> string \<Rightarrow> 'w \<Rightarrow> (int \<times> 'w) option" where
  "make_ins_stu sh name = run_command sh (''cd y64-ins; make '' @ name @ ''.yo > /dev/null'')"

definition make_ins_base :: "'w shell \<Rightarrow> string \<Rightarrow> 'w \<Rightarrow> (int \<times> 'w) option" where
  "make_ins_base sh name w =
     do {
       (n, w) \<leftarrow> run_command sh (''cd y64-ins; ../y64-base/y64asm-base -v '' @ name @ ''.ys > '' @ name @ ''.yo'') w;
       if n \<noteq> 0 then Some (1, w)
       else do {
         (_, w) \<leftarrow> run_command sh (''cd y64-ins; mv '' @ name @ ''.yo '' @ name @ ''.yo.base; mv '' @ name @ ''.bin '' @ name @ ''.bin.base'') w;
         Some (0, w)
       }
     }"

definition diff_ins :: "'w shell \<Rightarrow> string \<Rightarrow> 'w \<Rightarrow> (int \<times> 'w) option" where
  "diff_ins sh name =
     run_command sh ((''cd y64-ins; diff '' @ name @ ''.yo.base '' @ name @ ''.yo'') @ ''; '' @
                 (''diff '' @ name @ ''.bin.base '' @ name @ ''.bin''))"

section \<open>Tests and scores\<close>

record 'w yat =
  world :: 'w
  ins_pass_count :: nat
  err_pass_count :: nat
  ins_test_count :: nat
  err_test_count :: nat
  app_test_count :: nat
  app_pass_count :: nat

definition test_uni :: "'w shell \<Rightarrow> string \<Rightarrow> 'w yat \<Rightarrow> 'w yat option" where
  "test_uni sh name y =
     (if strstr name ''error'' \<noteq> None then do {
        let y = y\<lparr>err_test_count := err_test_count y + 1\<rparr>;
        (ok, w) \<leftarrow> all_zero [make_err_base sh name, make_err_stu sh name, diff_err sh name] (world y);
        Some (y\<lparr>world := w, err_pass_count := err_pass_count y + (if ok then 1 else 0)\<rparr>)
      } else do {
        let y = y\<lparr>ins_test_count := ins_test_count y + 1\<rparr>;
        (ok, w) \<leftarrow> all_zero [make_ins_base sh name, make_ins_stu sh name, diff_ins sh name] (world y);
        Some (y\<lparr>world := w, ins_pass_count := ins_pass_count y + (if ok then 1 else 0)\<rparr>)
      })"

definition test_app :: "'w shell \<Rightarrow> string \<Rightarrow> 'w yat \<Rightarrow> 'w yat option" where
  "test_app sh name y =
     do {
       let y = y\<lparr>app_test_count := app_test_count y + 1\<rparr>;
       (ok, w) \<leftarrow> all_zero [make_app_base sh name, make_app_stu sh name, diff_app sh name] (world y);
       Some (y\<lparr>world := w, app_pass_count := app_pass_count y + (if ok then 1 else 0)\<rparr>)
     }"

definition uni_list :: "string list" where
  "uni_list =
     [''halt'', ''nop'', ''rrmovq'', ''cmovle'', ''cmovl'', ''cmove'', ''cmovne'', ''cmovge'', ''cmovg'', ''irmovq'', ''rmmovq'',
      ''mrmovq'', ''addq'', ''subq'', ''andq'', ''xorq'', ''jmp'', ''jle'', ''jl'', ''je'', ''jne'', ''jge'', ''jg'', ''call'',
      ''ret'', ''pushq'', ''popq'', ''byte'', ''word'', ''long'', ''quad'', ''pos'', ''align'', ''dup-symbol-error'',
      ''invalid-reg-error'', ''delim-missing-error'', ''invalid-imm-error'', ''invalid-mem-error'', ''invalid-dest-error'',
      ''unknown-symbol-error'', ''invalid-directive-error'']"

definition app_list :: "string list" where
  "app_list =
     [''abs-asum-cmov'', ''abs-asum-jmp'', ''asumr'', ''asum'', ''cjr'', ''j-cc'', ''poptest'', ''prog10'', ''prog1'', ''prog2'',
      ''prog3'', ''prog4'', ''prog5'', ''prog6'', ''prog7'', ''prog8'', ''prog9'', ''pushquestion'', ''pushtest'', ''ret-hazard'']"

fun test_each :: "(string \<Rightarrow> 's \<Rightarrow> 's option) \<Rightarrow> string list \<Rightarrow> 's \<Rightarrow> 's option" where
  "test_each test [] y = Some y"
| "test_each test (name # names) y = do { y \<leftarrow> test name y; test_each test names y }"

definition test_all_uni :: "'w shell \<Rightarrow> 'w yat \<Rightarrow> 'w yat option" where
  "test_all_uni sh = test_each (test_uni sh) uni_list"

definition test_all_app :: "'w shell \<Rightarrow> 'w yat \<Rightarrow> 'w yat option" where
  "test_all_app sh = test_each (test_app sh) app_list"

text \<open>
  The scores that \<open>print_result\<close> prints, gained and full, for instructions, errors and applications, and the total
  when all three have been tested.  An application counts 2.
\<close>

definition print_result :: "'w yat \<Rightarrow> (nat \<times> nat) option \<times> (nat \<times> nat) option \<times> (nat \<times> nat) option \<times> (nat \<times> nat) option" where
  "print_result y =
     (let ins = (ins_pass_count y, ins_test_count y);
          err = (err_pass_count y, err_test_count y);
          app = (app_pass_count y * 2, app_test_count y * 2)
      in (if ins_test_count y \<noteq> 0 then Some ins else None,
          if err_test_count y \<noteq> 0 then Some err else None,
          if app_test_count y \<noteq> 0 then Some app else None,
          if ins_test_count y \<noteq> 0 \<and> err_test_count y \<noteq> 0 \<and> app_test_count y \<noteq> 0
          then Some (fst ins + fst err + fst app, snd ins + snd err + snd app) else None))"

definition clean_up :: "'w shell \<Rightarrow> 'w \<Rightarrow> 'w" where
  "clean_up sh w =
     foldl (\<lambda>w c. snd (sh c w)) w
       [''cd y64-ins; make clean > /dev/null'', ''cd y64-err; make clean > /dev/null'', ''cd y64-app; make clean > /dev/null'',
        ''cd y64-base; make clean > /dev/null'', ''rm -f *.err *.err.base'']"

section \<open>The program\<close>

text \<open>The first argument chooses what to do.\<close>

definition choice :: "string list \<Rightarrow> nat" where
  "choice argv =
     (if length argv < 2 then 1
      else if argv ! 1 = ''-h'' then 1
      else if argv ! 1 = ''-s'' then 2
      else if argv ! 1 = ''-S'' then 3
      else if argv ! 1 = ''-a'' then 4
      else if argv ! 1 = ''-A'' then 5
      else if argv ! 1 = ''-F'' then 6
      else 0)"

text \<open>The exit status and the counters, from which \<open>print_result\<close> prints; \<open>None\<close> when \<open>cmdbuf\<close> overflows.\<close>

definition yat_main :: "'w shell \<Rightarrow> string list \<Rightarrow> 'w \<Rightarrow> (int \<times> 'w yat option) option" where
  "yat_main sh argv w =
     (let stuff = choice argv
      in if stuff = 0 then Some (1, None)
         else if stuff = 1 then Some (0, None)
         else
           let (n, w) = make_y64asm sh w;
               y = \<lparr>world = w, ins_pass_count = 0, err_pass_count = 0, ins_test_count = 0, err_test_count = 0,
                    app_test_count = 0, app_pass_count = 0\<rparr>
           in if n \<noteq> 0 then Some (1, None)
              else if (stuff = 2 \<or> stuff = 4) \<and> length argv \<noteq> 3 then Some (1, None)
              else do {
                y \<leftarrow> (if stuff = 2 then test_uni sh (argv ! 2) y
                     else if stuff = 4 then test_app sh (argv ! 2) y
                     else if stuff = 3 then test_all_uni sh y
                     else if stuff = 5 then test_all_app sh y
                     else do { y \<leftarrow> test_all_uni sh y; test_all_app sh y });
                Some (0, Some (y\<lparr>world := clean_up sh (world y)\<rparr>))
              })"

section \<open>What the scores mean\<close>

text \<open>A command that fits the buffer returns, and the names of the lists are short enough for every command.\<close>

lemma command_fits: "length c < 1024 \<Longrightarrow> run_command sh c w = Some (sh c w)"
  by (simp add: run_command_def COMMAND_BUFFER_SIZE_def)

definition returns :: "('w \<Rightarrow> (int \<times> 'w) option) \<Rightarrow> bool" where
  "returns c \<longleftrightarrow> (\<forall>w. \<exists>r. c w = Some r)"

lemma all_zero_returns:
  assumes "\<forall>c \<in> set cs. returns c"
  shows "\<exists>r. all_zero cs w = Some r"
  using assms
proof (induction cs arbitrary: w)
  case (Cons c cs)
  obtain n w' where c: "c w = Some (n, w')"
    using Cons.prems unfolding returns_def by fastforce
  show ?case
  proof (cases "n = 0")
    case True
    then show ?thesis using Cons c by simp
  next
    case False
    then show ?thesis using c by (simp del: split_paired_Ex)
  qed
qed (simp del: split_paired_Ex)

lemma returns_run_command: "length c < 1024 \<Longrightarrow> returns (\<lambda>w. run_command sh c w)"
  by (simp add: returns_def command_fits)

lemma make_returns:
  assumes "length name \<le> 200"
  shows "returns (make_app_stu sh name)" and "returns (make_app_base sh name)" and "returns (diff_app sh name)"
    and "returns (make_err_stu sh name)" and "returns (make_err_base sh name)" and "returns (diff_err sh name)"
    and "returns (make_ins_stu sh name)" and "returns (make_ins_base sh name)" and "returns (diff_ins sh name)"
  using assms
  by (simp_all add: returns_def make_app_stu_def make_app_base_def diff_app_def make_err_stu_def make_err_base_def diff_err_def
      make_ins_stu_def make_ins_base_def diff_ins_def command_fits split: prod.splits)

text \<open>One test adds one to one count of tests, and at most one to the score that goes with it.\<close>

definition scored :: "'w yat \<Rightarrow> 'w yat \<Rightarrow> nat \<Rightarrow> nat \<Rightarrow> nat \<Rightarrow> bool" where
  "scored y y' ins err app \<longleftrightarrow>
     ins_test_count y' = ins_test_count y + ins \<and> err_test_count y' = err_test_count y + err \<and>
     app_test_count y' = app_test_count y + app \<and>
     ins_pass_count y \<le> ins_pass_count y' \<and> ins_pass_count y' \<le> ins_pass_count y + ins \<and>
     err_pass_count y \<le> err_pass_count y' \<and> err_pass_count y' \<le> err_pass_count y + err \<and>
     app_pass_count y \<le> app_pass_count y' \<and> app_pass_count y' \<le> app_pass_count y + app"

definition is_error :: "string \<Rightarrow> bool" where "is_error name \<longleftrightarrow> strstr name ''error'' \<noteq> None"

lemma scored_trans: "scored y y' a b c \<Longrightarrow> scored y' y'' a' b' c' \<Longrightarrow> scored y y'' (a + a') (b + b') (c + c')"
  by (simp add: scored_def)

lemma test_uni_scored:
  assumes "length name \<le> 200"
  shows "\<exists>y'. test_uni sh name y = Some y' \<and> scored y y' (if is_error name then 0 else 1) (if is_error name then 1 else 0) 0"
proof (cases "is_error name")
  case True
  obtain ok w' where "all_zero [make_err_base sh name, make_err_stu sh name, diff_err sh name] (world y) = Some (ok, w')"
    using all_zero_returns [of "[make_err_base sh name, make_err_stu sh name, diff_err sh name]" "world y"] make_returns [OF assms, of sh] by (force simp del: all_zero.simps)
  then show ?thesis using True by (simp add: is_error_def test_uni_def Let_def scored_def del: all_zero.simps)
next
  case False
  obtain ok w' where "all_zero [make_ins_base sh name, make_ins_stu sh name, diff_ins sh name] (world y) = Some (ok, w')"
    using all_zero_returns [of "[make_ins_base sh name, make_ins_stu sh name, diff_ins sh name]" "world y"] make_returns [OF assms, of sh] by (force simp del: all_zero.simps)
  then show ?thesis using False by (simp add: is_error_def test_uni_def Let_def scored_def del: all_zero.simps)
qed

lemma test_app_scored:
  assumes "length name \<le> 200"
  shows "\<exists>y'. test_app sh name y = Some y' \<and> scored y y' 0 0 1"
proof -
  obtain ok w' where "all_zero [make_app_base sh name, make_app_stu sh name, diff_app sh name] (world y) = Some (ok, w')"
    using all_zero_returns [of "[make_app_base sh name, make_app_stu sh name, diff_app sh name]" "world y"] make_returns [OF assms, of sh] by (force simp del: all_zero.simps)
  then show ?thesis by (simp add: test_app_def Let_def scored_def del: all_zero.simps)
qed

lemma test_each_uni:
  assumes "\<forall>name \<in> set names. length name \<le> 200"
  shows "\<exists>y'. test_each (test_uni sh) names y = Some y' \<and>
    scored y y' (length (filter (\<lambda>n. \<not> is_error n) names)) (length (filter is_error names)) 0"
  using assms
proof (induction names arbitrary: y)
  case Nil
  then show ?case by (simp add: scored_def)
next
  case (Cons name names)
  obtain y1 where y1: "test_uni sh name y = Some y1" "scored y y1 (if is_error name then 0 else 1) (if is_error name then 1 else 0) 0"
    using test_uni_scored Cons.prems by fastforce
  obtain y2 where y2: "test_each (test_uni sh) names y1 = Some y2"
      "scored y1 y2 (length (filter (\<lambda>n. \<not> is_error n) names)) (length (filter is_error names)) 0"
    using Cons by fastforce
  show ?case using y1 y2 scored_trans [OF y1(2) y2(2)] by (cases "is_error name") simp_all
qed

lemma test_each_app:
  assumes "\<forall>name \<in> set names. length name \<le> 200"
  shows "\<exists>y'. test_each (test_app sh) names y = Some y' \<and> scored y y' 0 0 (length names)"
  using assms
proof (induction names arbitrary: y)
  case Nil
  then show ?case by (simp add: scored_def)
next
  case (Cons name names)
  obtain y1 where y1: "test_app sh name y = Some y1" "scored y y1 0 0 1"
    using test_app_scored Cons.prems by fastforce
  obtain y2 where y2: "test_each (test_app sh) names y1 = Some y2" "scored y1 y2 0 0 (length names)"
    using Cons by fastforce
  show ?case using y1 y2 scored_trans [OF y1(2) y2(2)] by simp
qed

lemma uni_list_counts:
  "(\<forall>name \<in> set uni_list. length name \<le> 200) \<and> length (filter (\<lambda>n. \<not> is_error n) uni_list) = 33 \<and>
   length (filter is_error uni_list) = 8"
  by code_simp

lemma app_list_counts: "(\<forall>name \<in> set app_list. length name \<le> 200) \<and> length app_list = 20"
  by code_simp

lemma yat_full:
  assumes make: "fst (make_y64asm sh w) = 0"
  shows "\<exists>y. yat_main sh [''yat'', ''-F''] w = Some (0, Some y) \<and>
    ins_test_count y = 33 \<and> err_test_count y = 8 \<and> app_test_count y = 20 \<and>
    (\<exists>score. print_result y = (Some (ins_pass_count y, 33), Some (err_pass_count y, 8), Some (app_pass_count y * 2, 40), Some (score, 81)) \<and>
       score \<le> 81)"
proof -
  obtain w1 where w1: "make_y64asm sh w = (0, w1)" using make by (cases "make_y64asm sh w") simp
  let ?y = "\<lparr>world = w1, ins_pass_count = 0, err_pass_count = 0, ins_test_count = 0, err_test_count = 0,
             app_test_count = 0, app_pass_count = 0\<rparr>"
  obtain y1 where y1: "test_all_uni sh ?y = Some y1" "scored ?y y1 33 8 0"
    using test_each_uni [of uni_list sh ?y] uni_list_counts by (auto simp: test_all_uni_def)
  obtain y2 where y2: "test_all_app sh y1 = Some y2" "scored y1 y2 0 0 20"
    using test_each_app [of app_list sh y1] app_list_counts by (auto simp: test_all_app_def)
  have main: "yat_main sh [''yat'', ''-F''] w = Some (0, Some (y2\<lparr>world := clean_up sh (world y2)\<rparr>))"
    using w1 y1(1) y2(1) by (simp add: yat_main_def choice_def)
  have "scored ?y y2 33 8 20" using scored_trans [OF y1(2) y2(2)] by simp
  then show ?thesis unfolding main by (simp add: scored_def print_result_def Let_def)
qed

text \<open>
  In a shell that runs the two commands of a list one after the other, and gives the status of the second, \<open>diff_app\<close>
  succeeds when the binaries are the same: the listings may differ.
\<close>

lemma diff_app_bin_only:
  fixes sh :: "'w shell"
  defines "diff x name \<equiv> ''diff y64-app/'' @ name @ x @ '' y64-base/'' @ name @ x"
  assumes sequence: "\<And>w. sh (diff ''.yo'' name @ ''; '' @ diff ''.bin'' name) w =
      sh (diff ''.bin'' name) (snd (sh (diff ''.yo'' name) w))"
    and name: "length name \<le> 200"
    and bin: "\<And>w. fst (sh (diff ''.bin'' name) w) = 0"
  shows "\<exists>w'. diff_app sh name w = Some (0, w')"
proof -
  have "diff_app sh name w = run_command sh (diff ''.yo'' name @ ''; '' @ diff ''.bin'' name) w"
    by (simp add: diff_app_def diff_def)
  also have "\<dots> = Some (sh (diff ''.yo'' name @ ''; '' @ diff ''.bin'' name) w)"
    by (rule command_fits) (use name in \<open>simp add: diff_def\<close>)
  finally show ?thesis using sequence bin by (metis prod.collapse)
qed

end
