(* ===== verification/YatSim.thy ===== *)
theory YatSim
  imports Yat
begin

text \<open>
  The tester of the Y64 simulator (\<open>lab4/yat.c\<close>): like the tester of the assembler, with a limit on the steps of the
  simulator, no cases of errors, and a command that shows the right result.
\<close>

section \<open>Commands\<close>

definition make_y64sim :: "'w shell \<Rightarrow> 'w \<Rightarrow> int \<times> 'w" where
  "make_y64sim sh = sh ''make > /dev/null''"

definition make_app_stu :: "'w shell \<Rightarrow> string \<Rightarrow> int \<Rightarrow> 'w \<Rightarrow> (int \<times> 'w) option" where
  "make_app_stu sh name steps =
     (if steps \<noteq> 0 then run_command sh (''cd y64-app-bin; ../y64sim '' @ name @ ''.bin '' @ show_int steps @ '' > '' @ name @ ''.sim'')
      else run_command sh (''cd y64-app-bin; ../y64sim '' @ name @ ''.bin > '' @ name @ ''.sim''))"

definition make_app_base :: "'w shell \<Rightarrow> string \<Rightarrow> int \<Rightarrow> 'w \<Rightarrow> (int \<times> 'w) option" where
  "make_app_base sh name steps =
     (if steps \<noteq> 0
      then run_command sh (''cd y64-base; ./y64asm-base '' @ name @ ''.ys; ./y64sim-base '' @ name @ ''.bin '' @
        show_int steps @ '' > '' @ name @ ''.sim.base'')
      else run_command sh (''cd y64-base; ./y64asm-base '' @ name @ ''.ys; ./y64sim-base '' @ name @ ''.bin > '' @ name @ ''.sim.base''))"

definition diff_app :: "'w shell \<Rightarrow> string \<Rightarrow> 'w \<Rightarrow> (int \<times> 'w) option" where
  "diff_app sh name = run_command sh ('' diff ./y64-base/'' @ name @ ''.sim.base ./y64-app-bin/'' @ name @ ''.sim'')"

definition make_ins_stu :: "'w shell \<Rightarrow> string \<Rightarrow> int \<Rightarrow> 'w \<Rightarrow> (int \<times> 'w) option" where
  "make_ins_stu sh name steps =
     (if steps \<noteq> 0 then run_command sh (''cd y64-ins-bin; ../y64sim '' @ name @ ''.bin '' @ show_int steps @ '' > '' @ name @ ''.sim'')
      else run_command sh (''cd y64-ins-bin; make '' @ name @ ''.sim > /dev/null''))"

definition make_ins_base :: "'w shell \<Rightarrow> string \<Rightarrow> int \<Rightarrow> 'w \<Rightarrow> (int \<times> 'w) option" where
  "make_ins_base sh name steps =
     (if steps \<noteq> 0
      then run_command sh (''cd y64-base; ./y64asm-base '' @ name @ ''.ys; ./y64sim-base '' @ name @ ''.bin '' @
        show_int steps @ '' > '' @ name @ ''.sim.base'')
      else run_command sh (''cd y64-base; ./y64asm-base '' @ name @ ''.ys; ./y64sim-base '' @ name @ ''.bin > '' @ name @ ''.sim.base''))"

definition diff_ins :: "'w shell \<Rightarrow> string \<Rightarrow> 'w \<Rightarrow> (int \<times> 'w) option" where
  "diff_ins sh name = run_command sh ('' diff ./y64-base/'' @ name @ ''.sim.base ./y64-ins-bin/'' @ name @ ''.sim'')"

definition get_correct :: "'w shell \<Rightarrow> string \<Rightarrow> int \<Rightarrow> 'w \<Rightarrow> (int \<times> 'w) option" where
  "get_correct sh name steps =
     (if steps \<noteq> 0
      then run_command sh (''cd y64-base; ./y64asm-base '' @ name @ ''.ys; ./y64sim-base '' @ name @ ''.bin '' @ show_int steps)
      else run_command sh (''cd y64-base; make '' @ name @ ''.sim; cat '' @ name @ ''.sim''))"

section \<open>Tests and scores\<close>

record 'w yat_sim =
  world :: 'w
  ins_pass_count :: nat
  ins_test_count :: nat
  app_test_count :: nat
  app_pass_count :: nat

definition test_ins_bin :: "'w shell \<Rightarrow> int \<Rightarrow> string \<Rightarrow> 'w yat_sim \<Rightarrow> 'w yat_sim option" where
  "test_ins_bin sh steps name y =
     do {
       let y = y\<lparr>ins_test_count := ins_test_count y + 1\<rparr>;
       (ok, w) \<leftarrow> all_zero [make_ins_base sh name steps, make_ins_stu sh name steps, diff_ins sh name] (world y);
       Some (y\<lparr>world := w, ins_pass_count := ins_pass_count y + (if ok then 1 else 0)\<rparr>)
     }"

definition test_app_bin :: "'w shell \<Rightarrow> int \<Rightarrow> string \<Rightarrow> 'w yat_sim \<Rightarrow> 'w yat_sim option" where
  "test_app_bin sh steps name y =
     do {
       let y = y\<lparr>app_test_count := app_test_count y + 1\<rparr>;
       (ok, w) \<leftarrow> all_zero [make_app_base sh name steps, make_app_stu sh name steps, diff_app sh name] (world y);
       Some (y\<lparr>world := w, app_pass_count := app_pass_count y + (if ok then 1 else 0)\<rparr>)
     }"

definition uni_list :: "string list" where
  "uni_list =
     [''halt'', ''nop'', ''rrmovq'', ''cmovle'', ''cmovl'', ''cmove'', ''cmovne'', ''cmovge'', ''cmovg'', ''irmovq'', ''rmmovq'',
      ''mrmovq'', ''addq'', ''subq'', ''andq'', ''xorq'', ''jmp'', ''jle'', ''jl'', ''je'', ''jne'', ''jge'', ''jg'', ''call'',
      ''ret'', ''pushq'', ''popq'', ''byte'', ''word'', ''long'', ''quad'', ''pos'', ''align'']"

definition app_list :: "string list" where
  "app_list =
     [''abs-asum-cmov'', ''abs-asum-jmp'', ''asumr'', ''asum'', ''cjr'', ''j-cc'', ''poptest'', ''prog10'', ''prog1'', ''prog2'',
      ''prog3'', ''prog4'', ''prog5'', ''prog6'', ''prog7'', ''prog8'', ''prog9'', ''pushquestion'', ''pushtest'', ''ret-hazard'']"

definition test_all_ins_bin :: "'w shell \<Rightarrow> 'w yat_sim \<Rightarrow> 'w yat_sim option" where
  "test_all_ins_bin sh = test_each (test_ins_bin sh 0) uni_list"

definition test_all_app_bin :: "'w shell \<Rightarrow> 'w yat_sim \<Rightarrow> 'w yat_sim option" where
  "test_all_app_bin sh = test_each (test_app_bin sh 0) app_list"

definition print_result :: "'w yat_sim \<Rightarrow> (nat \<times> nat) option \<times> (nat \<times> nat) option \<times> (nat \<times> nat) option" where
  "print_result y =
     (let ins = (ins_pass_count y, ins_test_count y);
          app = (app_pass_count y * 2, app_test_count y * 2)
      in (if ins_test_count y \<noteq> 0 then Some ins else None,
          if app_test_count y \<noteq> 0 then Some app else None,
          if ins_test_count y \<noteq> 0 \<and> app_test_count y \<noteq> 0 then Some (fst ins + fst app, snd ins + snd app) else None))"

definition clean_up :: "'w shell \<Rightarrow> 'w \<Rightarrow> 'w" where
  "clean_up sh w =
     foldl (\<lambda>w c. snd (sh c w)) w
       [''make clean > /dev/null'', ''cd y64-ins-bin; make clean > /dev/null'', ''cd y64-app-bin; make clean > /dev/null'',
        ''cd y64-base; make clean > /dev/null'']"

section \<open>The program\<close>

definition choice :: "string list \<Rightarrow> nat" where
  "choice argv =
     (if length argv < 2 then 1
      else if argv ! 1 = ''-h'' then 1
      else if argv ! 1 = ''-s'' then 2
      else if argv ! 1 = ''-S'' then 3
      else if argv ! 1 = ''-a'' then 4
      else if argv ! 1 = ''-A'' then 5
      else if argv ! 1 = ''-F'' then 6
      else if argv ! 1 = ''-c'' then 7
      else 0)"

text \<open>The steps of a command with one test: 0, for no limit, or the third argument.\<close>

definition max_steps :: "string list \<Rightarrow> int option" where
  "max_steps argv = (if length argv = 3 then Some 0 else if length argv = 4 then Some (atoi (argv ! 3)) else None)"

definition show_correct :: "'w shell \<Rightarrow> string list \<Rightarrow> 'w yat_sim \<Rightarrow> 'w yat_sim option" where
  "show_correct sh argv y =
     (case max_steps argv of
        None \<Rightarrow> Some y
      | Some steps \<Rightarrow> do { (_, w) \<leftarrow> get_correct sh (argv ! 2) steps (world y); Some (y\<lparr>world := w\<rparr>) })"

definition yat_sim_main :: "'w shell \<Rightarrow> string list \<Rightarrow> 'w \<Rightarrow> (int \<times> 'w yat_sim option) option" where
  "yat_sim_main sh argv w =
     (let stuff = choice argv
      in if stuff = 0 then Some (1, None)
         else if stuff = 1 then Some (0, None)
         else
           let (n, w) = make_y64sim sh w;
               y = \<lparr>world = w, ins_pass_count = 0, ins_test_count = 0, app_test_count = 0, app_pass_count = 0\<rparr>
           in if n \<noteq> 0 then Some (1, None)
              else if (stuff = 2 \<or> stuff = 4) \<and> max_steps argv = None then Some (1, None)
              else do {
                y \<leftarrow> (if stuff = 2 then test_ins_bin sh (the (max_steps argv)) (argv ! 2) y
                     else if stuff = 4 then test_app_bin sh (the (max_steps argv)) (argv ! 2) y
                     else if stuff = 3 then test_all_ins_bin sh y
                     else if stuff = 5 then test_all_app_bin sh y
                     else if stuff = 6 then do { y \<leftarrow> test_all_ins_bin sh y; test_all_app_bin sh y }
                     else show_correct sh argv y);
                Some (0, Some (y\<lparr>world := clean_up sh (world y)\<rparr>))
              })"

section \<open>What the scores mean\<close>

lemma make_sim_returns:
  assumes "length name \<le> 200"
  shows "returns (make_app_stu sh name 0)" and "returns (make_app_base sh name 0)" and "returns (diff_app sh name)"
    and "returns (make_ins_stu sh name 0)" and "returns (make_ins_base sh name 0)" and "returns (diff_ins sh name)"
  using assms
  by (simp_all add: returns_def make_app_stu_def make_app_base_def diff_app_def make_ins_stu_def make_ins_base_def diff_ins_def
      command_fits)

definition scored :: "'w yat_sim \<Rightarrow> 'w yat_sim \<Rightarrow> nat \<Rightarrow> nat \<Rightarrow> bool" where
  "scored y y' ins app \<longleftrightarrow>
     ins_test_count y' = ins_test_count y + ins \<and> app_test_count y' = app_test_count y + app \<and>
     ins_pass_count y \<le> ins_pass_count y' \<and> ins_pass_count y' \<le> ins_pass_count y + ins \<and>
     app_pass_count y \<le> app_pass_count y' \<and> app_pass_count y' \<le> app_pass_count y + app"

lemma sim_scored_trans: "scored y y' a c \<Longrightarrow> scored y' y'' a' c' \<Longrightarrow> scored y y'' (a + a') (c + c')"
  by (simp add: scored_def)

lemma test_ins_bin_scored:
  assumes "length name \<le> 200"
  shows "\<exists>y'. test_ins_bin sh 0 name y = Some y' \<and> scored y y' 1 0"
proof -
  obtain ok w' where "all_zero [make_ins_base sh name 0, make_ins_stu sh name 0, diff_ins sh name] (world y) = Some (ok, w')"
    using all_zero_returns [of "[make_ins_base sh name 0, make_ins_stu sh name 0, diff_ins sh name]" "world y"]
      make_sim_returns [OF assms, of sh] by (force simp del: all_zero.simps)
  then show ?thesis by (simp add: test_ins_bin_def Let_def scored_def del: all_zero.simps)
qed

lemma test_app_bin_scored:
  assumes "length name \<le> 200"
  shows "\<exists>y'. test_app_bin sh 0 name y = Some y' \<and> scored y y' 0 1"
proof -
  obtain ok w' where "all_zero [make_app_base sh name 0, make_app_stu sh name 0, diff_app sh name] (world y) = Some (ok, w')"
    using all_zero_returns [of "[make_app_base sh name 0, make_app_stu sh name 0, diff_app sh name]" "world y"]
      make_sim_returns [OF assms, of sh] by (force simp del: all_zero.simps)
  then show ?thesis by (simp add: test_app_bin_def Let_def scored_def del: all_zero.simps)
qed

text \<open>A list of tests adds up what each test adds.\<close>

lemma test_each_scored:
  assumes one: "\<And>name y. length name \<le> 200 \<Longrightarrow> \<exists>y'. test name y = Some y' \<and> scored y y' a c"
    and "\<forall>name \<in> set names. length name \<le> 200"
  shows "\<exists>y'. test_each test names y = Some y' \<and> scored y y' (a * length names) (c * length names)"
  using assms(2)
proof (induction names arbitrary: y)
  case Nil
  then show ?case by (simp add: scored_def)
next
  case (Cons name names)
  obtain y1 where y1: "test name y = Some y1" "scored y y1 a c" using one Cons.prems by fastforce
  obtain y2 where y2: "test_each test names y1 = Some y2" "scored y1 y2 (a * length names) (c * length names)"
    using Cons by fastforce
  show ?case using y1 y2 sim_scored_trans [OF y1(2) y2(2)] by simp
qed

lemma sim_list_counts:
  "(\<forall>name \<in> set uni_list. length name \<le> 200) \<and> length uni_list = 33 \<and>
   (\<forall>name \<in> set app_list. length name \<le> 200) \<and> length app_list = 20"
  by code_simp

lemma test_all_scored:
  "\<exists>y'. test_all_ins_bin sh y = Some y' \<and> scored y y' 33 0" "\<exists>y'. test_all_app_bin sh y = Some y' \<and> scored y y' 0 20"
proof -
  have "\<exists>y'. test_each (test_ins_bin sh 0) uni_list y = Some y' \<and> scored y y' (1 * length uni_list) (0 * length uni_list)"
    by (rule test_each_scored, rule test_ins_bin_scored) (use sim_list_counts in auto)
  then show "\<exists>y'. test_all_ins_bin sh y = Some y' \<and> scored y y' 33 0"
    using sim_list_counts by (simp add: test_all_ins_bin_def)
  have "\<exists>y'. test_each (test_app_bin sh 0) app_list y = Some y' \<and> scored y y' (0 * length app_list) (1 * length app_list)"
    by (rule test_each_scored, rule test_app_bin_scored) (use sim_list_counts in auto)
  then show "\<exists>y'. test_all_app_bin sh y = Some y' \<and> scored y y' 0 20"
    using sim_list_counts by (simp add: test_all_app_bin_def)
qed

lemma yat_sim_full:
  assumes make: "fst (make_y64sim sh w) = 0"
  shows "\<exists>y. yat_sim_main sh [''yat'', ''-F''] w = Some (0, Some y) \<and>
    (\<exists>score. print_result y = (Some (ins_pass_count y, 33), Some (app_pass_count y * 2, 40), Some (score, 73)) \<and> score \<le> 73)"
proof -
  obtain w1 where w1: "make_y64sim sh w = (0, w1)" using make by (cases "make_y64sim sh w") simp
  let ?y = "\<lparr>world = w1, ins_pass_count = 0, ins_test_count = 0, app_test_count = 0, app_pass_count = 0\<rparr>"
  obtain y1 where y1: "test_all_ins_bin sh ?y = Some y1" "scored ?y y1 33 0"
    using test_all_scored(1) by blast
  obtain y2 where y2: "test_all_app_bin sh y1 = Some y2" "scored y1 y2 0 20"
    using test_all_scored(2) by blast
  have main: "yat_sim_main sh [''yat'', ''-F''] w = Some (0, Some (y2\<lparr>world := clean_up sh (world y2)\<rparr>))"
    using w1 y1(1) y2(1) by (simp add: yat_sim_main_def choice_def)
  have "scored ?y y2 33 20" using sim_scored_trans [OF y1(2) y2(2)] by simp
  then show ?thesis unfolding main by (simp add: scored_def print_result_def Let_def)
qed

text \<open>A long name overflows the buffer of commands.\<close>

lemma long_name_overflows:
  assumes "1024 \<le> length name" and "make_y64sim sh w = (0, w')"
  shows "yat_sim_main sh [''yat'', ''-a'', name] w = None"
  using assms
  by (simp add: yat_sim_main_def choice_def max_steps_def test_app_bin_def make_app_base_def run_command_def COMMAND_BUFFER_SIZE_def
      Let_def)

text \<open>With \<open>-c\<close> and no name nothing is shown, and the exit status is 0.\<close>

lemma show_correct_silent:
  assumes "make_y64sim sh w = (0, w')"
  shows "yat_sim_main sh [''yat'', ''-c''] w =
    Some (0, Some \<lparr>world = clean_up sh w', ins_pass_count = 0, ins_test_count = 0, app_test_count = 0, app_pass_count = 0\<rparr>)"
  using assms by (simp add: yat_sim_main_def choice_def max_steps_def show_correct_def)

end
