(* ===== verification/Wrappers.thy ===== *)
theory Wrappers
  imports CStrings "HOL-Library.Word"
begin

text \<open>
  The error-checking wrappers of \<open>lab10/csapp.c\<close>: each makes one call of the system or the C library and, when the
  call reports an error, prints a message and ends the process.

  A call is a parameter, a function from its arguments and the world to its result and the next world, in which it
  leaves what it writes through pointers.  A null pointer is \<open>None\<close>.
\<close>

section \<open>Error handling\<close>

text \<open>What becomes of the process: it goes on with a value, or prints a message on \<open>stderr\<close> and exits with a status.\<close>

datatype 'a ended = Value 'a | Exited string int

type_synonym ('w, 'a) call = "'w \<Rightarrow> 'a \<times> 'w"
type_synonym ('w, 'a) wrapped = "'w \<Rightarrow> 'a ended \<times> 'w"

record 'w libc =
  get_errno :: "'w \<Rightarrow> int"
  set_errno :: "int \<Rightarrow> 'w \<Rightarrow> 'w"
  strerror :: "int \<Rightarrow> string"
  gai_strerror :: "int \<Rightarrow> string"
  EINTR :: int

definition unix_error :: "'w libc \<Rightarrow> string \<Rightarrow> 'w \<Rightarrow> 'a ended" where
  "unix_error L msg w = Exited (msg @ '': '' @ strerror L (get_errno L w) @ [NEWLINE]) 0"

definition posix_error :: "'w libc \<Rightarrow> int \<Rightarrow> string \<Rightarrow> 'a ended" where
  "posix_error L code msg = Exited (msg @ '': '' @ strerror L code @ [NEWLINE]) 0"

definition gai_error :: "'w libc \<Rightarrow> int \<Rightarrow> string \<Rightarrow> 'a ended" where
  "gai_error L code msg = Exited (msg @ '': '' @ gai_strerror L code @ [NEWLINE]) 0"

definition app_error :: "string \<Rightarrow> 'a ended" where
  "app_error msg = Exited (msg @ [NEWLINE]) 0"

definition dns_error :: "string \<Rightarrow> 'a ended" where
  "dns_error msg = Exited (msg @ [NEWLINE]) 0"

text \<open>The shapes of the wrappers: the test of the result, its error function, and whether the result is returned.\<close>

definition unless :: "('a \<Rightarrow> 'w \<Rightarrow> bool) \<Rightarrow> ('a \<Rightarrow> 'w \<Rightarrow> 'a ended) \<Rightarrow> ('w, 'a) call \<Rightarrow> ('w, 'a) wrapped" where
  "unless bad err c w = (let (r, w) = c w in (if bad r w then err r w else Value r, w))"

definition unix :: "('a \<Rightarrow> 'w \<Rightarrow> bool) \<Rightarrow> string \<Rightarrow> 'w libc \<Rightarrow> ('w, 'a) call \<Rightarrow> ('w, 'a) wrapped" where
  "unix bad msg L = unless bad (\<lambda>_. unix_error L msg)"

fun void :: "'a ended \<times> 'w \<Rightarrow> unit ended \<times> 'w" where
  "void (Value r, w) = (Value (), w)"
| "void (Exited msg n, w) = (Exited msg n, w)"

abbreviation negative :: "int \<Rightarrow> 'w \<Rightarrow> bool" where "negative r w \<equiv> r < 0"
abbreviation nonzero :: "int \<Rightarrow> 'w \<Rightarrow> bool" where "nonzero r w \<equiv> r \<noteq> 0"
abbreviation null :: "'a option \<Rightarrow> 'w \<Rightarrow> bool" where "null r w \<equiv> r = None"

section \<open>Processes\<close>

definition Fork :: "'w libc \<Rightarrow> ('w, int) call \<Rightarrow> ('w, int) wrapped" where
  "Fork L fork = unix negative ''Fork error'' L fork"

definition Execve :: "'w libc \<Rightarrow> (string \<Rightarrow> string list \<Rightarrow> string list \<Rightarrow> ('w, int) call) \<Rightarrow>
    string \<Rightarrow> string list \<Rightarrow> string list \<Rightarrow> ('w, unit) wrapped" where
  "Execve L execve filename argv envp w = void (unix negative ''Execve error'' L (execve filename argv envp) w)"

definition Wait :: "'w libc \<Rightarrow> ('w, int) call \<Rightarrow> ('w, int) wrapped" where
  "Wait L wait = unix negative ''Wait error'' L wait"

definition Waitpid :: "'w libc \<Rightarrow> (int \<Rightarrow> int \<Rightarrow> ('w, int) call) \<Rightarrow> int \<Rightarrow> int \<Rightarrow> ('w, int) wrapped" where
  "Waitpid L waitpid pid options = unix negative ''Waitpid error'' L (waitpid pid options)"

definition Kill :: "'w libc \<Rightarrow> (int \<Rightarrow> int \<Rightarrow> ('w, int) call) \<Rightarrow> int \<Rightarrow> int \<Rightarrow> ('w, unit) wrapped" where
  "Kill L kill pid signum w = void (unix negative ''Kill error'' L (kill pid signum) w)"

definition Pause :: "('w, int) call \<Rightarrow> ('w, unit) wrapped" where
  "Pause pause w = (Value (), snd (pause w))"

text \<open>\<open>rc\<close> is unsigned, so the test \<open>rc < 0\<close> is one of words.\<close>

definition Sleep :: "'w libc \<Rightarrow> (32 word \<Rightarrow> ('w, 32 word) call) \<Rightarrow> 32 word \<Rightarrow> ('w, 32 word) wrapped" where
  "Sleep L sleep secs = unix (\<lambda>rc _. rc < 0) ''Sleep error'' L (sleep secs)"

definition Alarm :: "(32 word \<Rightarrow> ('w, 32 word) call) \<Rightarrow> 32 word \<Rightarrow> ('w, 32 word) wrapped" where
  "Alarm alarm seconds w = (let (r, w) = alarm seconds w in (Value r, w))"

definition Setpgid :: "'w libc \<Rightarrow> (int \<Rightarrow> int \<Rightarrow> ('w, int) call) \<Rightarrow> int \<Rightarrow> int \<Rightarrow> ('w, unit) wrapped" where
  "Setpgid L setpgid pid pgid w = void (unix negative ''Setpgid error'' L (setpgid pid pgid) w)"

definition Getpgrp :: "('w, int) call \<Rightarrow> ('w, int) wrapped" where
  "Getpgrp getpgrp w = (let (r, w) = getpgrp w in (Value r, w))"

section \<open>Signals\<close>

record 'h sigaction =
  sa_handler :: 'h
  sa_mask :: "int list"
  sa_restart :: bool

text \<open>The signals of the handler's type are blocked, and system calls restarted.\<close>

definition Signal :: "'w libc \<Rightarrow> (int \<Rightarrow> 'h sigaction \<Rightarrow> ('w, int \<times> 'h sigaction) call) \<Rightarrow> int \<Rightarrow> 'h \<Rightarrow> ('w, 'h) wrapped" where
  "Signal L act signum handler w =
     (let ((rc, old_action), w) = act signum \<lparr>sa_handler = handler, sa_mask = [], sa_restart = True\<rparr> w
      in (if rc < 0 then unix_error L ''Signal error'' w else Value (sa_handler old_action), w))"

definition Sigprocmask :: "'w libc \<Rightarrow> (int \<Rightarrow> int list \<Rightarrow> ('w, int) call) \<Rightarrow> int \<Rightarrow> int list \<Rightarrow> ('w, unit) wrapped" where
  "Sigprocmask L sigprocmask how sigs w = void (unix negative ''Sigprocmask error'' L (sigprocmask how sigs) w)"

definition Sigemptyset :: "'w libc \<Rightarrow> ('w, int) call \<Rightarrow> ('w, unit) wrapped" where
  "Sigemptyset L sigemptyset w = void (unix negative ''Sigemptyset error'' L sigemptyset w)"

definition Sigfillset :: "'w libc \<Rightarrow> ('w, int) call \<Rightarrow> ('w, unit) wrapped" where
  "Sigfillset L sigfillset w = void (unix negative ''Sigfillset error'' L sigfillset w)"

definition Sigaddset :: "'w libc \<Rightarrow> (int \<Rightarrow> ('w, int) call) \<Rightarrow> int \<Rightarrow> ('w, unit) wrapped" where
  "Sigaddset L sigaddset signum w = void (unix negative ''Sigaddset error'' L (sigaddset signum) w)"

definition Sigdelset :: "'w libc \<Rightarrow> (int \<Rightarrow> ('w, int) call) \<Rightarrow> int \<Rightarrow> ('w, unit) wrapped" where
  "Sigdelset L sigdelset signum w = void (unix negative ''Sigdelset error'' L (sigdelset signum) w)"

definition Sigismember :: "'w libc \<Rightarrow> (int \<Rightarrow> ('w, int) call) \<Rightarrow> int \<Rightarrow> ('w, int) wrapped" where
  "Sigismember L sigismember signum = unix negative ''Sigismember error'' L (sigismember signum)"

text \<open>\<open>sigsuspend\<close> always returns -1; what counts is why.\<close>

definition Sigsuspend :: "'w libc \<Rightarrow> ('w, int) call \<Rightarrow> ('w, int) wrapped" where
  "Sigsuspend L sigsuspend = unix (\<lambda>_ w. get_errno L w \<noteq> EINTR L) ''Sigsuspend error'' L sigsuspend"

section \<open>Files, directories and memory\<close>

definition Open :: "'w libc \<Rightarrow> (string \<Rightarrow> int \<Rightarrow> int \<Rightarrow> ('w, int) call) \<Rightarrow> string \<Rightarrow> int \<Rightarrow> int \<Rightarrow> ('w, int) wrapped" where
  "Open L open pathname flags mode = unix negative ''Open error'' L (open pathname flags mode)"

definition Read :: "'w libc \<Rightarrow> (int \<Rightarrow> nat \<Rightarrow> ('w, int) call) \<Rightarrow> int \<Rightarrow> nat \<Rightarrow> ('w, int) wrapped" where
  "Read L read fd count = unix negative ''Read error'' L (read fd count)"

definition Write :: "'w libc \<Rightarrow> (int \<Rightarrow> string \<Rightarrow> ('w, int) call) \<Rightarrow> int \<Rightarrow> string \<Rightarrow> ('w, int) wrapped" where
  "Write L write_fd fd buf = unix negative ''Write error'' L (write_fd fd buf)"

definition Lseek :: "'w libc \<Rightarrow> (int \<Rightarrow> int \<Rightarrow> int \<Rightarrow> ('w, int) call) \<Rightarrow> int \<Rightarrow> int \<Rightarrow> int \<Rightarrow> ('w, int) wrapped" where
  "Lseek L lseek fildes offset whence = unix negative ''Lseek error'' L (lseek fildes offset whence)"

definition Close :: "'w libc \<Rightarrow> (int \<Rightarrow> ('w, int) call) \<Rightarrow> int \<Rightarrow> ('w, unit) wrapped" where
  "Close L close fd w = void (unix negative ''Close error'' L (close fd) w)"

definition Select :: "'w libc \<Rightarrow> (int \<Rightarrow> ('w, int) call) \<Rightarrow> int \<Rightarrow> ('w, int) wrapped" where
  "Select L select n = unix negative ''Select error'' L (select n)"

definition Dup2 :: "'w libc \<Rightarrow> (int \<Rightarrow> int \<Rightarrow> ('w, int) call) \<Rightarrow> int \<Rightarrow> int \<Rightarrow> ('w, int) wrapped" where
  "Dup2 L dup2 fd1 fd2 = unix negative ''Dup2 error'' L (dup2 fd1 fd2)"

definition Stat :: "'w libc \<Rightarrow> (string \<Rightarrow> ('w, int) call) \<Rightarrow> string \<Rightarrow> ('w, unit) wrapped" where
  "Stat L stat filename w = void (unix negative ''Stat error'' L (stat filename) w)"

definition Fstat :: "'w libc \<Rightarrow> (int \<Rightarrow> ('w, int) call) \<Rightarrow> int \<Rightarrow> ('w, unit) wrapped" where
  "Fstat L fstat fd w = void (unix negative ''Fstat error'' L (fstat fd) w)"

definition Opendir :: "'w libc \<Rightarrow> (string \<Rightarrow> ('w, 'd option) call) \<Rightarrow> string \<Rightarrow> ('w, 'd option) wrapped" where
  "Opendir L opendir name = unix null ''opendir error'' L (opendir name)"

text \<open>\<open>readdir\<close> returns a null pointer at the end of the directory, too; \<open>errno\<close> tells.\<close>

definition Readdir :: "'w libc \<Rightarrow> ('d \<Rightarrow> ('w, 'e option) call) \<Rightarrow> 'd \<Rightarrow> ('w, 'e option) wrapped" where
  "Readdir L readdir dirp w =
     unix (\<lambda>dep w. dep = None \<and> get_errno L w \<noteq> 0) ''readdir error'' L (readdir dirp) (set_errno L 0 w)"

definition Closedir :: "'w libc \<Rightarrow> ('d \<Rightarrow> ('w, int) call) \<Rightarrow> 'd \<Rightarrow> ('w, int) wrapped" where
  "Closedir L closedir dirp = unix negative ''closedir error'' L (closedir dirp)"

definition Mmap :: "'w libc \<Rightarrow> ('a \<Rightarrow> ('w, 64 word) call) \<Rightarrow> 'a \<Rightarrow> ('w, 64 word) wrapped" where
  "Mmap L mmap args = unix (\<lambda>p _. p = - 1) ''mmap error'' L (mmap args)"

definition Munmap :: "'w libc \<Rightarrow> (64 word \<Rightarrow> nat \<Rightarrow> ('w, int) call) \<Rightarrow> 64 word \<Rightarrow> nat \<Rightarrow> ('w, unit) wrapped" where
  "Munmap L munmap start n w = void (unix negative ''munmap error'' L (munmap start n) w)"

definition Malloc :: "'w libc \<Rightarrow> (nat \<Rightarrow> ('w, 'p option) call) \<Rightarrow> nat \<Rightarrow> ('w, 'p option) wrapped" where
  "Malloc L malloc n = unix null ''Malloc error'' L (malloc n)"

definition Realloc :: "'w libc \<Rightarrow> ('p option \<Rightarrow> nat \<Rightarrow> ('w, 'p option) call) \<Rightarrow> 'p option \<Rightarrow> nat \<Rightarrow> ('w, 'p option) wrapped" where
  "Realloc L realloc ptr n = unix null ''Realloc error'' L (realloc ptr n)"

definition Calloc :: "'w libc \<Rightarrow> (nat \<Rightarrow> nat \<Rightarrow> ('w, 'p option) call) \<Rightarrow> nat \<Rightarrow> nat \<Rightarrow> ('w, 'p option) wrapped" where
  "Calloc L calloc nmemb n = unix null ''Calloc error'' L (calloc nmemb n)"

definition Free :: "('p option \<Rightarrow> ('w, unit) call) \<Rightarrow> 'p option \<Rightarrow> ('w, unit) wrapped" where
  "Free free ptr w = (Value (), snd (free ptr w))"

section \<open>Standard I/O\<close>

definition Fclose :: "'w libc \<Rightarrow> ('f \<Rightarrow> ('w, int) call) \<Rightarrow> 'f \<Rightarrow> ('w, unit) wrapped" where
  "Fclose L fclose fp w = void (unix nonzero ''Fclose error'' L (fclose fp) w)"

definition Fdopen :: "'w libc \<Rightarrow> (int \<Rightarrow> string \<Rightarrow> ('w, 'f option) call) \<Rightarrow> int \<Rightarrow> string \<Rightarrow> ('w, 'f option) wrapped" where
  "Fdopen L fdopen fd t = unix null ''Fdopen error'' L (fdopen fd t)"

definition Fgets :: "('f \<Rightarrow> 'w \<Rightarrow> bool) \<Rightarrow> (int \<Rightarrow> 'f \<Rightarrow> ('w, string option) call) \<Rightarrow> int \<Rightarrow> 'f \<Rightarrow> ('w, string option) wrapped" where
  "Fgets ferror fgets_call n stream =
     unless (\<lambda>rptr w. rptr = None \<and> ferror stream w) (\<lambda>_ _. app_error ''Fgets error'') (fgets_call n stream)"

definition Fopen :: "'w libc \<Rightarrow> (string \<Rightarrow> string \<Rightarrow> ('w, 'f option) call) \<Rightarrow> string \<Rightarrow> string \<Rightarrow> ('w, 'f option) wrapped" where
  "Fopen L fopen filename mode = unix null ''Fopen error'' L (fopen filename mode)"

definition EOF :: int where "EOF = - 1"

definition Fputs :: "'w libc \<Rightarrow> (string \<Rightarrow> 'f \<Rightarrow> ('w, int) call) \<Rightarrow> string \<Rightarrow> 'f \<Rightarrow> ('w, unit) wrapped" where
  "Fputs L fputs ptr stream w = void (unix (\<lambda>r _. r = EOF) ''Fputs error'' L (fputs ptr stream) w)"

definition Fread :: "'w libc \<Rightarrow> ('f \<Rightarrow> 'w \<Rightarrow> bool) \<Rightarrow> (nat \<Rightarrow> nat \<Rightarrow> 'f \<Rightarrow> ('w, nat) call) \<Rightarrow> nat \<Rightarrow> nat \<Rightarrow> 'f \<Rightarrow> ('w, nat) wrapped" where
  "Fread L ferror fread k nmemb stream =
     unix (\<lambda>n w. n < nmemb \<and> ferror stream w) ''Fread error'' L (fread k nmemb stream)"

definition Fwrite :: "'w libc \<Rightarrow> (nat \<Rightarrow> nat \<Rightarrow> 'f \<Rightarrow> ('w, nat) call) \<Rightarrow> nat \<Rightarrow> nat \<Rightarrow> 'f \<Rightarrow> ('w, unit) wrapped" where
  "Fwrite L fwrite k nmemb stream w = void (unix (\<lambda>n _. n < nmemb) ''Fwrite error'' L (fwrite k nmemb stream) w)"

section \<open>Sockets\<close>

definition Socket :: "'w libc \<Rightarrow> (int \<Rightarrow> int \<Rightarrow> int \<Rightarrow> ('w, int) call) \<Rightarrow> int \<Rightarrow> int \<Rightarrow> int \<Rightarrow> ('w, int) wrapped" where
  "Socket L socket domain t protocol = unix negative ''Socket error'' L (socket domain t protocol)"

definition Setsockopt :: "'w libc \<Rightarrow> (int \<Rightarrow> 'o \<Rightarrow> ('w, int) call) \<Rightarrow> int \<Rightarrow> 'o \<Rightarrow> ('w, unit) wrapped" where
  "Setsockopt L setsockopt s opt w = void (unix negative ''Setsockopt error'' L (setsockopt s opt) w)"

definition Bind :: "'w libc \<Rightarrow> (int \<Rightarrow> 'a \<Rightarrow> ('w, int) call) \<Rightarrow> int \<Rightarrow> 'a \<Rightarrow> ('w, unit) wrapped" where
  "Bind L bind_to sockfd my_addr w = void (unix negative ''Bind error'' L (bind_to sockfd my_addr) w)"

definition Listen :: "'w libc \<Rightarrow> (int \<Rightarrow> int \<Rightarrow> ('w, int) call) \<Rightarrow> int \<Rightarrow> int \<Rightarrow> ('w, unit) wrapped" where
  "Listen L listen s backlog w = void (unix negative ''Listen error'' L (listen s backlog) w)"

definition Accept :: "'w libc \<Rightarrow> (int \<Rightarrow> ('w, int) call) \<Rightarrow> int \<Rightarrow> ('w, int) wrapped" where
  "Accept L accept s = unix negative ''Accept error'' L (accept s)"

definition Connect :: "'w libc \<Rightarrow> (int \<Rightarrow> 'a \<Rightarrow> ('w, int) call) \<Rightarrow> int \<Rightarrow> 'a \<Rightarrow> ('w, unit) wrapped" where
  "Connect L connect sockfd serv_addr w = void (unix negative ''Connect error'' L (connect sockfd serv_addr) w)"

definition gai :: "string \<Rightarrow> 'w libc \<Rightarrow> ('w, int) call \<Rightarrow> ('w, int) wrapped" where
  "gai msg L = unless nonzero (\<lambda>rc _. gai_error L rc msg)"

definition Getaddrinfo :: "'w libc \<Rightarrow> (string \<Rightarrow> string \<Rightarrow> 'h \<Rightarrow> ('w, int) call) \<Rightarrow> string \<Rightarrow> string \<Rightarrow> 'h \<Rightarrow> ('w, unit) wrapped" where
  "Getaddrinfo L getaddrinfo node service hints w = void (gai ''Getaddrinfo error'' L (getaddrinfo node service hints) w)"

definition Getnameinfo :: "'w libc \<Rightarrow> ('a \<Rightarrow> int \<Rightarrow> ('w, int) call) \<Rightarrow> 'a \<Rightarrow> int \<Rightarrow> ('w, unit) wrapped" where
  "Getnameinfo L getnameinfo sa flags w = void (gai ''Getnameinfo error'' L (getnameinfo sa flags) w)"

definition Freeaddrinfo :: "('r \<Rightarrow> ('w, unit) call) \<Rightarrow> 'r \<Rightarrow> ('w, unit) wrapped" where
  "Freeaddrinfo freeaddrinfo res w = (Value (), snd (freeaddrinfo res w))"

definition Inet_ntop :: "'w libc \<Rightarrow> (int \<Rightarrow> 'a \<Rightarrow> ('w, string option) call) \<Rightarrow> int \<Rightarrow> 'a \<Rightarrow> ('w, unit) wrapped" where
  "Inet_ntop L inet_ntop af src w = void (unix null ''Inet_ntop error'' L (inet_ntop af src) w)"

definition Inet_pton :: "'w libc \<Rightarrow> (int \<Rightarrow> string \<Rightarrow> ('w, int) call) \<Rightarrow> int \<Rightarrow> string \<Rightarrow> ('w, unit) wrapped" where
  "Inet_pton L inet_pton af src w =
     (let (rc, w) = inet_pton af src w
      in (if rc = 0 then app_error ''inet_pton error: invalid dotted-decimal address''
          else if rc < 0 then unix_error L ''Inet_pton error'' w
          else Value (), w))"

definition Gethostbyname :: "(string \<Rightarrow> ('w, 'h option) call) \<Rightarrow> string \<Rightarrow> ('w, 'h option) wrapped" where
  "Gethostbyname gethostbyname name = unless null (\<lambda>_ _. dns_error ''Gethostbyname error'') (gethostbyname name)"

definition Gethostbyaddr :: "('a \<Rightarrow> ('w, 'h option) call) \<Rightarrow> 'a \<Rightarrow> ('w, 'h option) wrapped" where
  "Gethostbyaddr gethostbyaddr a = unless null (\<lambda>_ _. dns_error ''Gethostbyaddr error'') (gethostbyaddr a)"

section \<open>Threads\<close>

text \<open>The calls of threads return the error number itself.\<close>

definition posix :: "string \<Rightarrow> 'w libc \<Rightarrow> ('w, int) call \<Rightarrow> ('w, unit) wrapped" where
  "posix msg L c w = void (unless nonzero (\<lambda>rc _. posix_error L rc msg) c w)"

definition Pthread_create :: "'w libc \<Rightarrow> ('r \<Rightarrow> 'a \<Rightarrow> ('w, int) call) \<Rightarrow> 'r \<Rightarrow> 'a \<Rightarrow> ('w, unit) wrapped" where
  "Pthread_create L pthread_create routine argp = posix ''Pthread_create error'' L (pthread_create routine argp)"

definition Pthread_cancel :: "'w libc \<Rightarrow> ('t \<Rightarrow> ('w, int) call) \<Rightarrow> 't \<Rightarrow> ('w, unit) wrapped" where
  "Pthread_cancel L pthread_cancel tid = posix ''Pthread_cancel error'' L (pthread_cancel tid)"

definition Pthread_join :: "'w libc \<Rightarrow> ('t \<Rightarrow> ('w, int) call) \<Rightarrow> 't \<Rightarrow> ('w, unit) wrapped" where
  "Pthread_join L pthread_join tid = posix ''Pthread_join error'' L (pthread_join tid)"

definition Pthread_detach :: "'w libc \<Rightarrow> ('t \<Rightarrow> ('w, int) call) \<Rightarrow> 't \<Rightarrow> ('w, unit) wrapped" where
  "Pthread_detach L pthread_detach tid = posix ''Pthread_detach error'' L (pthread_detach tid)"

text \<open>\<open>pthread_exit\<close> does not return, so there is no value; the result is the world without the thread.\<close>

definition Pthread_exit :: "('r \<Rightarrow> 'w \<Rightarrow> 'w) \<Rightarrow> 'r \<Rightarrow> 'w \<Rightarrow> 'w" where
  "Pthread_exit pthread_exit retval w = pthread_exit retval w"

definition Pthread_self :: "('w, 't) call \<Rightarrow> ('w, 't) wrapped" where
  "Pthread_self pthread_self w = (let (t, w) = pthread_self w in (Value t, w))"

definition Pthread_once :: "('o \<Rightarrow> ('w \<Rightarrow> 'w) \<Rightarrow> ('w, int) call) \<Rightarrow> 'o \<Rightarrow> ('w \<Rightarrow> 'w) \<Rightarrow> ('w, unit) wrapped" where
  "Pthread_once pthread_once once_control init_function w = (Value (), snd (pthread_once once_control init_function w))"

section \<open>What a wrapper guarantees\<close>

text \<open>
  A wrapper returns exactly when the call is good, with the result of the call; a caller of \<open>Fork\<close>, say, needs no
  test.  Else the process ends, and its status is 0 as after a success.
\<close>

lemma unless_Value [simp]:
  assumes "\<And>r w. bad r w \<Longrightarrow> \<exists>msg n. err r w = Exited msg n"
  shows "unless bad err c w = (Value r, w') \<longleftrightarrow> c w = (r, w') \<and> \<not> bad r w'"
proof (cases "c w")
  case (Pair r0 w0)
  then show ?thesis
  proof (cases "bad r0 w0")
    case True
    then obtain msg n where "err r0 w0 = Exited msg n" using assms by blast
    then show ?thesis using True Pair by (auto simp: unless_def)
  qed (auto simp: unless_def)
qed

lemma unix_Value [simp]: "unix bad msg L c w = (Value r, w') \<longleftrightarrow> c w = (r, w') \<and> \<not> bad r w'"
  by (simp add: unix_def unix_error_def)

lemma unix_Exited:
  "unix bad msg L c w = (Exited t n, w') \<longleftrightarrow>
     (\<exists>r. c w = (r, w') \<and> bad r w' \<and> t = msg @ '': '' @ strerror L (get_errno L w') @ [NEWLINE] \<and> n = 0)"
  by (auto simp: unix_def unless_def unix_error_def split: prod.splits if_splits)

lemma void_Value [simp]: "void p = (Value (), w) \<longleftrightarrow> (\<exists>r. p = (Value r, w))"
  by (cases p rule: void.cases) auto

fun_cases void_ExitedE: "void p = (Exited msg n, w)"

lemma posix_Value: "posix msg L c w = (Value (), w') \<longleftrightarrow> c w = (0, w')"
  by (simp add: posix_def posix_error_def)

lemma Fork_returns: "Fork L fork w = (Value pid, w') \<longleftrightarrow> fork w = (pid, w') \<and> 0 \<le> pid"
  by (auto simp: Fork_def)

lemma Kill_exits:
  assumes "Kill L kill pid signum w = (Exited msg n, w')"
  shows "n = 0 \<and> fst (kill pid signum w) < 0"
  using assms by (auto simp: Kill_def unix_Exited elim!: void_ExitedE)

text \<open>The test in \<open>Sleep\<close> never fires.\<close>

lemma Sleep_returns: "Sleep L sleep secs w = (let (r, w') = sleep secs w in (Value r, w'))"
  by (simp add: Sleep_def unix_def unless_def)

text \<open>\<open>Readdir\<close> returns at the end of the directory whatever \<open>errno\<close> was before the call.\<close>

lemma Readdir_end:
  assumes "\<And>e w. get_errno L (set_errno L e w) = e" and "readdir dirp (set_errno L 0 w) = (None, set_errno L 0 w)"
  shows "Readdir L readdir dirp w = (Value None, set_errno L 0 w)"
  using assms by (simp add: Readdir_def)

lemma Sigsuspend_interrupted: "Sigsuspend L sigsuspend w = (Value rc, w') \<longleftrightarrow> sigsuspend w = (rc, w') \<and> get_errno L w' = EINTR L"
  by (auto simp: Sigsuspend_def)

text \<open>\<open>Fgets\<close> and \<open>Fread\<close> return at the end of the file, and only an error of the stream ends the process.\<close>

lemma Fgets_returns:
  "Fgets ferror fgets_call n stream w = (Value r, w') \<longleftrightarrow> fgets_call n stream w = (r, w') \<and> (r = None \<longrightarrow> \<not> ferror stream w')"
  by (auto simp: Fgets_def app_error_def)

lemma Fread_returns:
  "Fread L ferror fread k nmemb stream w = (Value r, w') \<longleftrightarrow>
     fread k nmemb stream w = (r, w') \<and> (r < nmemb \<longrightarrow> \<not> ferror stream w')"
  by (auto simp: Fread_def)

end
