(* ===== verification/Spec2Isabelle.thy ===== *)
theory Spec2Isabelle
  imports Y64AsmProgram Y64SimMain MDriverMain MmSafety TshMain ProxyServer CacheLabTheorems Fcyc YatSim Wrappers
begin

text \<open>
  The repository holds the programs of a course on computer systems, one directory for each lab, all in C for
  x86-64 Linux: an instruction-set simulator for the Y64 machine (\<open>lab4\<close>), its assembler (\<open>lab5\<close>), a dynamic
  storage allocator with its driver (\<open>lab7\<close>), the transposition of matrices with its evaluation (\<open>lab8\<close>), a shell
  with job control (\<open>lab9\<close>) and a concurrent web proxy over a library of robust I/O (\<open>lab10\<close>).  The programs meet
  in four places, and each is a theorem here: the assembler writes the images that the simulator loads; the driver
  runs traces of requests against any allocator, \<open>mm.c\<close> among them, which in turn runs on the simulated memory of
  \<open>memlib.c\<close>; the driver measures time with the timers of \<open>clock.c\<close> and \<open>ftimer.c\<close> through \<open>fcyc.c\<close>; and the
  proxy reads, writes, logs and fails through \<open>csapp.c\<close>.

  This theory only collects the others.  Each property that is claimed of the programs is a theorem marked by its
  number in the theory of its component.
\<close>

section \<open>Theories and sources\<close>

text \<open>
  \<^bold>\<open>Shared.\<close>  \<open>Prelude\<close>: machine types, byte arrays with checked access (\<open>rd\<close>, \<open>wr\<close>, \<open>splice\<close>), the little-endian
  view of a word, and the collections of simplification rules.  \<open>CStrings\<close>: the functions of the C library on strings
  that the programs call, and the text that \<open>printf\<close> makes of numbers.

  \<^bold>\<open>The simulator, \<open>lab4/y64sim.c\<close> and \<open>y64sim.h\<close>.\<close>  \<open>Y64Mem\<close>: \<open>mem_t\<close> and the register file with the accessors
  \<open>get_byte_val\<close> to \<open>set_reg_val\<close>.  \<open>Y64Isa\<close>: instruction, condition and ALU codes, and the instructions as data with
  their encoding.  \<open>Y64Sim\<close>: \<open>compute_alu\<close>, \<open>compute_cc\<close>, \<open>cond_doit\<close>, \<open>nexti\<close> (one definition per case of its
  switch), \<open>load_binfile\<close>, the loop of \<open>main\<close> and the report of differences.  \<open>Y64Refine\<close>: the abstract machine, with
  functions for registers and memory, and the simulation.  \<open>Y64Theorems\<close>: execution of encoded instructions, errors,
  conditions, runs.  \<open>Y64SimMain\<close>: the command line.

  \<^bold>\<open>The assembler, \<open>lab5/y64asm.c\<close> and \<open>y64asm.h\<close>.\<close>  \<open>Y64Asm\<close>: tables, the token parsers \<open>parse_*\<close>, \<open>parse_line\<close>,
  \<open>assemble\<close>, \<open>relocate\<close>, \<open>binfile\<close>, \<open>print_line\<close> and \<open>main\<close>.  \<open>Y64AsmParse\<close>, \<open>Y64AsmLines\<close>: the parsers on the text
  of well-formed tokens and lines.  \<open>Y64AsmProgram\<close>: the three passes on whole programs, and the image in the simulator.

  \<^bold>\<open>The allocator, \<open>lab7/memlib.c\<close> and \<open>mm.c\<close>.\<close>  \<open>MemLib\<close>: the break over a flat memory.  \<open>Mm\<close>: every macro and function
  of \<open>mm.c\<close> over it, addresses as offsets in the memory.  \<open>MmLists\<close>: the free lists as plain lists.  \<open>MmHeap\<close>:
  \<open>mm_init\<close> and the searches.  \<open>MmBreak\<close>: the bounds of the heap.  \<open>MmBlocks\<close>: the heap as a list of blocks.
  \<open>MmCoalesce\<close>, \<open>MmAlloc\<close>, \<open>MmMalloc\<close>, \<open>MmResize\<close>, \<open>MmRealloc\<close>: each operation as one on the list of blocks.
  \<open>MmInvariant\<close>: \<open>mm_init\<close> establishes the invariant of the heap and \<open>mm_check\<close> accepts it.  \<open>MmTheorems\<close>,
  \<open>MmSafety\<close>: the properties.

  \<^bold>\<open>The driver, \<open>lab7/mdriver.c\<close> and \<open>config.h\<close>.\<close>  \<open>MDriver\<close>: range list, trace reader and the evaluation of validity,
  utilization and speed.  \<open>MDriverTheorems\<close>: the locale \<open>malloc_package\<close>, interpreted on \<open>mm.c\<close>, and the properties.
  \<open>MDriverMain\<close>: options, results of every trace, performance index and exit status.

  \<^bold>\<open>Time, \<open>lab7/clock.c\<close>, \<open>ftimer.c\<close>, \<open>fcyc.c\<close>, \<open>fsecs.c\<close>.\<close>  \<open>Timing\<close>: cycle counters and interval timers, which
  are interpretations of the locale \<open>stopwatch\<close>.  \<open>Fcyc\<close>: the K-best scheme.

  \<^bold>\<open>The cache lab, \<open>lab8\<close>.\<close>  \<open>CacheLab\<close>: \<open>trans.c\<close>, \<open>cachelab.c\<close>, \<open>tracegen.c\<close>, \<open>test-trans.c\<close> and the stub \<open>csim.c\<close>.
  \<open>CacheLabTheorems\<close>: the properties.

  \<^bold>\<open>The shell, \<open>lab9/tsh.c\<close>.\<close>  \<open>Tsh\<close>: job list, \<open>parseline\<close>, builtins and handlers.  \<open>TshSystem\<close>: the shell among its
  children as the step relation of a state machine.  \<open>TshInv\<close>: the invariant of its reachable states.  \<open>TshParse\<close>,
  \<open>TshTheorems\<close>: the properties.  \<open>TshMain\<close>: options, handlers, and the child of \<open>eval\<close> before \<open>execve\<close>.

  \<^bold>\<open>The proxy, \<open>lab10/csapp.c\<close> and \<open>proxy.c\<close>.\<close>  \<open>Rio\<close>: robust I/O, signal-safe output and the opening of connections.
  \<open>RioReaders\<close>: the locales \<open>reader\<close>, \<open>read_loop\<close> and \<open>line_loop\<close>, interpreted on the system call and on the buffer.
  \<open>Proxy\<close>: \<open>parse_uri\<close>, \<open>doit\<close>, \<open>format_log_entry\<close> and \<open>thread\<close>.  \<open>ProxyTheorems\<close>: one exchange.  \<open>ProxyServer\<close>: \<open>main\<close>,
  the threads and the semaphore of the log as a step relation.  \<open>Wrappers\<close>: the error-checking wrappers.

  \<^bold>\<open>The testers, \<open>lab5/yat.c\<close> and \<open>lab4/yat.c\<close>.\<close>  \<open>Yat\<close>, \<open>YatSim\<close>: the commands they give to the shell, and the scores.
\<close>

section \<open>What the lemmas show\<close>

text \<open>
  \<^item> The simulator implements the abstract machine step by step and over whole runs, keeps its arrays at their size,
    and leaves them for exactly eight data addresses; an encoded instruction is executed; a failing one changes nothing
    but the stack pointer.  The statuses of the abstract machine are those that the code returns: \<open>STAT_ADR\<close> for an
    invalid data or stack address, where the comment of \<open>nexti\<close> says \<open>STAT_INS\<close>, and no register is invalid.  The
    condition codes compare numbers whose difference fits 32 bits.
  \<^item> For programs of label lines, instruction lines and \<open>.quad\<close> lines in one standard form, whose names find zeros
    behind them in the blocks from \<open>malloc\<close>, the assembler accepts the text, writes the concatenation of the encodings
    with the labels resolved, and the simulator decodes the image to the same instructions.  For every input at all
    the passes end or trap and the labels stay distinct.
  \<^item> The allocator keeps a heap of tagged blocks without free neighbours, whose free blocks are exactly the ones in
    the free lists, under every operation on ordinary requests and on blocks with no byte 0xFF at the two places
    that \<open>mm_free\<close> looks at; blocks handed out are disjoint, lie in the heap and keep their contents; \<open>mm_realloc\<close>
    keeps the common prefix.  \<open>mm_check\<close> decides its four conditions on any heap that can be walked.  Lemmas name the requests where this fails.
  \<^item> A positive verdict of the driver means aligned payloads inside the heap, none of which starts or ends in
    another; the largest total that its utilization rests on is that of the trace; its reader reads back the traces
    whose numbers are ints that are not negative.  A run of \<open>mdriver\<close> reports one row per trace; its index is 0 after
    an error and else not negative, and at most 100 when no utilization exceeds 1.
  \<^item> The cycle counter subtracts 64-bit values with two words and rounds the difference to a double, exactly below
    2^53; the timers of the library measure what passed, and \<open>fcyc\<close> returns the smallest of at most \<open>maxsamples\<close>
    samples and stops at the first agreement of K.
  \<^item> The validation of the cache lab decides whether one matrix is the transpose of the other, and the reported
    numbers are those of the accesses between the markers, when the trace contains both of them.
  \<^item> Every reachable state of the shell has at most one foreground job and a job list of children that were not
    reaped, but for the one that the handler of \<open>SIGCHLD\<close> is reaping; when the foreground job ends and no other child
    does, every run of the shell comes back to the prompt.  Lemmas show as runs what the handlers can break: two
    races after which the shell waits for ever, and the windows in the handler and in \<open>do_bgfg\<close>.
  \<^item> Reading, buffered or not, returns the next bytes of the descriptor however the system cuts them; a line is
    that of \<open>fgets\<close>; writing goes on after short and interrupted calls and after no other.  A well-formed exchange of
    less than 2 GiB is forwarded whole and in order.  Under every interleaving of the threads the log consists of
    whole lines.
  \<^item> A wrapper of \<open>csapp.c\<close> returns just when its call succeeded.  The testers run every test once and never
    give more than the full score.
\<close>

section \<open>Conventions, bounds and fuel\<close>

text \<open>
  A machine integer is a word where overflow matters, and an \<open>int\<close> or \<open>nat\<close> within its range elsewhere.  An access
  outside an object, a division by zero or another undefined step is \<open>None\<close>, and so is the overflow of the ints in
  which the proxy and the driver sum sizes (\<open>int_add\<close>); an error that the code reports is a value.  A loop is a
  structural or well-founded recursion where it ends.  Loops over the free lists and the heap, over a descriptor or a digit string with unchecked base, which may run for ever on arbitrary data, are
  \<open>partial_function (option)\<close>: not returning is \<open>None\<close>, and for well-formed data it is proved that they return.  The
  run of the simulator is bounded by its argument \<open>max_steps\<close>, as in the code; the loop of \<open>fcyc\<close> ends by the count of
  its samples.  There is no other fuel.

  Heap and requests: the memory has \<open>MAX_HEAP\<close> bytes as in \<open>config.h\<close>; \<open>ordinary\<close> requests are those below \<open>2 ^ 24\<close>
  that \<open>mm_malloc\<close> and \<open>mm_realloc\<close> do not treat by their special rules for the traces, and the results on whole
  sessions are about these (\<open>plain_request\<close>).  The special requests are modelled, and lemmas show what they break.

  Simplifications.  The main program of the shell and its handlers interleave step by step: a handler may be entered
  between any two steps, of the main program or of another handler, and blocks its own signal only; \<open>SIGCHLD\<close> is
  blocked from \<open>fork\<close> to \<open>addjob\<close>, as in \<open>eval\<close>.  A step reads or
  writes the job list once; the loops over it in \<open>jobs\<close>, \<open>fgpid\<close> and the search of \<open>do_bgfg\<close>, and one \<open>printf\<close> with
  its arguments, are each one step, and \<open>do_bgfg\<close> behind its search is a sequence of stages.  An exchange of the
  proxy is one step, as it shares nothing with other threads; its \<open>printf\<close> is one step per character.  What C leaves
  uninitialised is a parameter where the code reads it before writing (\<open>garbage\<close> for the blocks from \<open>malloc\<close> in the
  assembler and the byte before its buffer, \<open>first_addr\<close> in \<open>test-trans\<close>), else zeros.  The count of cycles is
  rounded to a double of 53 bits; every other \<open>double\<close> is a real number.  A number that \<open>fscanf\<close> finds out of the
  range of a \<open>long\<close> is the largest or smallest one, as \<open>strtol\<close> gives it, and 32 bits of it are kept.  The counter of
  \<open>rio_readlineb\<close> is a natural number: it is an int in C, and no line of 2^31 bytes is considered.

  Parameters.  What the programs call and the repository does not contain is an argument of the definitions: the
  content that a descriptor delivers, in chunks and with failures; the addresses that \<open>getaddrinfo\<close> finds; the shell
  behind \<open>system\<close>; the clock, the counter and the time that a function takes; \<open>rand\<close>; the runs of \<open>valgrind\<close> and
  \<open>csim-ref\<close>, with how much of a file that is still open has been written when the latter reads it; the
  calls that the wrappers check.  Where a theorem needs a law of one it is a hypothesis, and a witness shows concrete values that satisfy it.
\<close>

section \<open>Not modelled\<close>

text \<open>
  \<^item> \<open>lab5/y64.c\<close> is an earlier draft of \<open>y64asm.c\<close> that the Makefile does not build.
  \<^item> \<open>lab9/myint.c\<close>, \<open>myspin.c\<close>, \<open>mysplit.c\<close>, \<open>mystop.c\<close>: test programs that sleep and signal themselves.
  \<^item> In modelled files: usage texts and messages, the layout of printed tables, the release of storage at the end,
    the time-out of \<open>test-trans\<close>, the marker file of \<open>tracegen\<close>, inline assembly, and the counters
    of platforms for which the code only exits.
  \<^item> Scripts (Perl, Python, Tcl), traces, assembler sources and binaries are inputs of the programs, not part of them.
\<close>

end
